(* ===== verification/Vwarp_Prelude.thy ===== *)
theory Vwarp_Prelude
  imports Main "HOL-Library.Word"
begin

text \<open>
  Shared vocabulary of the development: the machine types of the Go source, byte strings
  with the big-endian and little-endian codecs of \<open>encoding/binary\<close>, the clock
  arithmetic of package \<open>time\<close>, and the generic list facts the component theories use.
\<close>

unbundle bit_operations_syntax

section \<open>Machine types\<close>

type_synonym byte = "8 word"
type_synonym bytes = "8 word list"
type_synonym u16 = "16 word"
type_synonym u32 = "32 word"
type_synonym u64 = "64 word"

named_theorems go_simps \<open>evaluation rules of the modelled Go primitives\<close>

section \<open>Byte strings\<close>

text \<open>
  The number a byte string denotes, most significant byte first, and the
  \<open>n\<close>-byte encoding of a number (the higher bytes are dropped, as the Go
  conversions to a fixed width do).
\<close>

fun be_nat :: "bytes \<Rightarrow> nat" where
  "be_nat [] = 0"
| "be_nat (b # bs) = unat b * 256 ^ length bs + be_nat bs"

fun be_bytes :: "nat \<Rightarrow> nat \<Rightarrow> bytes" where
  "be_bytes 0 v = []"
| "be_bytes (Suc n) v = of_nat (v div 256 ^ n) # be_bytes n v"

definition le_nat :: "bytes \<Rightarrow> nat" where
  "le_nat bs = be_nat (rev bs)"

definition le_bytes :: "nat \<Rightarrow> nat \<Rightarrow> bytes" where
  "le_bytes n v = rev (be_bytes n v)"

lemma length_be_bytes [simp]: "length (be_bytes n v) = n"
  by (induction n) auto

lemma length_le_bytes [simp]: "length (le_bytes n v) = n"
  by (simp add: le_bytes_def)

lemma unat_byte_less [simp]: "unat (b :: byte) < 256"
  using unsigned_less [of b, where ?'a = nat] by simp

lemma be_nat_less: "be_nat bs < 256 ^ length bs"
proof (induction bs)
  case Nil
  then show ?case by simp
next
  case (Cons b bs)
  have "unat b \<le> 255"
    using unat_byte_less [of b] by linarith
  then have "unat b * 256 ^ length bs \<le> 255 * (256 :: nat) ^ length bs"
    by (rule mult_le_mono1)
  with Cons.IH have "be_nat (b # bs) < 255 * 256 ^ length bs + 256 ^ length bs"
    by (simp only: be_nat.simps)
  then show ?case by simp
qed

lemma unat_of_nat_byte: "unat (of_nat v :: byte) = v mod 256"
  by (simp add: unat_of_nat)

lemma be_nat_be_bytes: "be_nat (be_bytes n v) = v mod 256 ^ n"
proof (induction n)
  case 0
  then show ?case by simp
next
  case (Suc n)
  have "v mod 256 ^ Suc n = (v div 256 ^ n mod 256) * 256 ^ n + v mod 256 ^ n"
    using mod_mult2_eq [of v "256 ^ n" 256] by (simp add: ac_simps)
  with Suc show ?case by (simp add: unat_of_nat_byte)
qed

lemma be_bytes_mod: "be_bytes n (v mod 256 ^ n) = be_bytes n v"
proof (induction n arbitrary: v)
  case 0
  then show ?case by simp
next
  case (Suc n)
  have "(v mod 256 ^ Suc n) mod 256 ^ n = v mod (256 :: nat) ^ n"
    by (simp add: mod_mod_cancel)
  then have tl: "be_bytes n (v mod 256 ^ Suc n) = be_bytes n v"
    using Suc.IH [of "v mod 256 ^ Suc n"] Suc.IH [of v] by metis
  have "v mod 256 ^ Suc n div 256 ^ n = v div 256 ^ n mod (256 :: nat)"
    using mod_mult2_eq [of v "256 ^ n" 256] by (simp add: ac_simps)
  moreover have "(of_nat (v div 256 ^ n mod 256) :: byte) = of_nat (v div 256 ^ n)"
    by (simp add: word_unat_eq_iff unat_of_nat_byte)
  ultimately show ?case using tl by simp
qed

lemma be_bytes_be_nat: "be_bytes (length bs) (be_nat bs) = bs"
proof (induction bs)
  case Nil
  then show ?case by simp
next
  case (Cons b bs)
  have "be_nat (b # bs) mod 256 ^ length bs = be_nat bs"
    using be_nat_less [of bs] by simp
  then have "be_bytes (length bs) (be_nat (b # bs)) = bs"
    using Cons.IH be_bytes_mod [of "length bs" "be_nat (b # bs)"] by simp
  moreover have "be_nat (b # bs) div 256 ^ length bs = unat b"
    using be_nat_less [of bs] by simp
  ultimately show ?case by simp
qed

lemma le_nat_le_bytes: "le_nat (le_bytes n v) = v mod 256 ^ n"
  by (simp add: le_nat_def le_bytes_def be_nat_be_bytes)

lemma le_bytes_le_nat: "le_bytes (length bs) (le_nat bs) = bs"
  using be_bytes_be_nat [of "rev bs"] by (simp add: le_nat_def le_bytes_def)

lemma be_nat_append: "be_nat (xs @ ys) = be_nat xs * 256 ^ length ys + be_nat ys"
  by (induction xs) (auto simp: algebra_simps power_add)

text \<open>\<open>copy(dst[i:i+len(src)], src)\<close>: overwrite a run of bytes in place.\<close>

definition put_at :: "nat \<Rightarrow> 'a list \<Rightarrow> 'a list \<Rightarrow> 'a list" where
  "put_at i src dst = take i dst @ src @ drop (i + length src) dst"

definition slice :: "nat \<Rightarrow> nat \<Rightarrow> 'a list \<Rightarrow> 'a list" where
  "slice i j xs = take (j - i) (drop i xs)"

lemma length_put_at: "i + length src \<le> length dst \<Longrightarrow> length (put_at i src dst) = length dst"
  by (simp add: put_at_def)

lemma length_slice: "length (slice i j xs) = min (j - i) (length xs - i)"
  by (simp add: slice_def)

lemma slice_put_at:
  "i + length src \<le> length dst \<Longrightarrow> slice i (i + length src) (put_at i src dst) = src"
  by (simp add: slice_def put_at_def)

text \<open>Go's \<open>x &^ mask\<close>.\<close>

lemma and_not_mask: "(w::'a::len word) AND NOT (mask n) = push_bit n (drop_bit n w)"
  by (rule bit_word_eqI) (auto simp: bit_simps)

lemma unat_and_not_mask: "unat ((w::'a::len word) AND NOT (mask n)) = (unat w div 2 ^ n) * 2 ^ n"
proof -
  have "unat (push_bit n (drop_bit n w)) = take_bit LENGTH('a) (unat w div 2 ^ n * 2 ^ n)"
    by (simp only: unsigned_push_bit_eq unat_drop_bit_eq push_bit_eq_mult [of _ "_ :: nat"] drop_bit_eq_div [of _ "unat w"])
  also have "\<dots> = unat w div 2 ^ n * 2 ^ n"
  proof (rule take_bit_nat_eq_self)
    have "unat w div 2 ^ n * 2 ^ n \<le> unat w" by simp
    also have "\<dots> < 2 ^ LENGTH('a)" by (rule unsigned_less)
    finally show "unat w div 2 ^ n * 2 ^ n < 2 ^ LENGTH('a)" .
  qed
  finally show ?thesis by (simp only: and_not_mask)
qed

section \<open>Time\<close>

text \<open>
  A \<open>time.Time\<close> is its distance in nanoseconds from the zero time; the zero value
  \<open>time.Time{}\<close> is 0. A \<open>time.Duration\<close> is a signed 64-bit number of
  nanoseconds, and \<open>Time.Sub\<close> saturates at its bounds.
\<close>

type_synonym time = int
type_synonym duration = int

definition max_duration :: duration where
  "max_duration = 2 ^ 63 - 1"

definition min_duration :: duration where
  "min_duration = - (2 ^ 63)"

definition time_Sub :: "time \<Rightarrow> time \<Rightarrow> duration" where
  "time_Sub t u = max min_duration (min max_duration (t - u))"

definition Second :: duration where
  "Second = 1000000000"

definition Millisecond :: duration where
  "Millisecond = 1000000"

lemma time_Sub_self [simp]: "time_Sub t t = 0"
  by (simp add: time_Sub_def max_duration_def min_duration_def)

lemma time_Sub_exact: "\<bar>t - u\<bar> \<le> max_duration \<Longrightarrow> time_Sub t u = t - u"
  by (simp add: time_Sub_def max_duration_def min_duration_def)

lemma time_Sub_nonneg: "u \<le> t \<Longrightarrow> 0 \<le> time_Sub t u"
  by (simp add: time_Sub_def max_duration_def min_duration_def)

lemma time_Sub_mono: "t \<le> t' \<Longrightarrow> time_Sub t u \<le> time_Sub t' u"
  by (simp add: time_Sub_def max_duration_def min_duration_def)

section \<open>Lists\<close>

lemma fold_list_update_length [simp]:
  "length (fold (\<lambda>i r. r[f i := v]) is r) = length r"
  by (induction "is" arbitrary: r) auto

lemma fold_list_update_nth:
  "j < length r \<Longrightarrow>
   fold (\<lambda>i r. r[f i := v]) is r ! j = (if j \<in> f ` set is then v else r ! j)"
  by (induction "is" arbitrary: r) (auto simp: nth_list_update)

end
