(* ===== verification/Replay.thy ===== *)
theory Replay
  imports Vwarp_Prelude
begin

text \<open>
  Package \<open>wireguard/replay\<close>: the sliding-window anti-replay filter of RFC 6479.
  The filter is a ring of 128 blocks of 64 bits; the development relates it to the set of
  counters it has accepted (\<open>filter_rel\<close>) and proves that the ring decides exactly
  freshness within the window. The interface of a replay filter is the locale
  \<open>replay_filter\<close>, interpreted here on the ring.
\<close>

section \<open>The filter\<close>

definition blockBitLog :: nat where "blockBitLog = 6"
definition blockBits :: u64 where "blockBits = 64"
definition ringBlocks :: u64 where "ringBlocks = 128"
definition windowSize :: u64 where "windowSize = (ringBlocks - 1) * blockBits"
definition blockMask :: u64 where "blockMask = ringBlocks - 1"
definition bitMask :: u64 where "bitMask = blockBits - 1"

lemmas replay_consts = blockBitLog_def blockBits_def ringBlocks_def windowSize_def
  blockMask_def bitMask_def

record Filter =
  last_ctr :: u64
  ring :: "u64 list"

definition zero_Filter :: Filter where
  "zero_Filter = \<lparr>last_ctr = 0, ring = replicate 128 0\<rparr>"

definition Reset :: "Filter \<Rightarrow> Filter" where
  "Reset f = f\<lparr>last_ctr := 0, ring := (ring f)[0 := 0]\<rparr>"

text \<open>
  The loop \<open>for i := current + 1; i <= current+diff; i++\<close>. Here \<open>current\<close> is a
  counter shifted right by six and \<open>diff\<close> is at most 128, so the bounds never wrap.
\<close>

definition clear_blocks :: "u64 \<Rightarrow> u64 \<Rightarrow> u64 list \<Rightarrow> u64 list" where
  "clear_blocks current diff r =
     fold (\<lambda>i r. r[unat (of_nat i AND blockMask) := 0])
       [unat (current + 1) ..< Suc (unat (current + diff))] r"

definition check_and_set :: "u64 \<Rightarrow> u64 \<Rightarrow> Filter \<Rightarrow> bool \<times> Filter" where
  "check_and_set counter indexBlock0 f =
     (let indexBlock = unat (indexBlock0 AND blockMask);
          indexBit = unat (counter AND bitMask);
          old = ring f ! indexBlock;
          new = old OR push_bit indexBit 1
      in (old \<noteq> new, f\<lparr>ring := (ring f)[indexBlock := new]\<rparr>))"

definition ValidateCounter :: "Filter \<Rightarrow> u64 \<Rightarrow> u64 \<Rightarrow> bool \<times> Filter" where
  "ValidateCounter f counter limit =
     (if counter \<ge> limit then (False, f)
      else let indexBlock = drop_bit blockBitLog counter in
        if counter > last_ctr f then
          (let current = drop_bit blockBitLog (last_ctr f);
               diff0 = indexBlock - current;
               diff = (if diff0 > ringBlocks then ringBlocks else diff0)
           in check_and_set counter indexBlock
                (f\<lparr>ring := clear_blocks current diff (ring f), last_ctr := counter\<rparr>))
        else if last_ctr f - counter > windowSize then (False, f)
        else check_and_set counter indexBlock f)"

section \<open>Reading the ring\<close>

definition blk :: "u64 \<Rightarrow> nat" where "blk c = unat c div 64"
definition pos :: "u64 \<Rightarrow> nat" where "pos c = unat c mod 64"

text \<open>The bit the ring holds for a counter.\<close>

definition marked :: "u64 list \<Rightarrow> u64 \<Rightarrow> bool" where
  "marked r c = bit (r ! (blk c mod 128)) (pos c)"

lemma unat_drop_6: "unat (drop_bit blockBitLog c) = blk c"
  by (simp add: blockBitLog_def blk_def drop_bit_eq_div unat_div)

lemma unat_and_blockMask: "unat (w AND blockMask) = unat w mod 128"
proof -
  have "blockMask = mask 7" by (simp add: replay_consts mask_eq_exp_minus_1)
  then have "w AND blockMask = take_bit 7 w" by (simp add: take_bit_eq_mask)
  then show ?thesis by (simp add: take_bit_eq_mod unat_mod)
qed

lemma unat_and_bitMask: "unat (w AND bitMask) = unat w mod 64"
proof -
  have "bitMask = mask 6" by (simp add: replay_consts mask_eq_exp_minus_1)
  then have "w AND bitMask = take_bit 6 w" by (simp add: take_bit_eq_mask)
  then show ?thesis by (simp add: take_bit_eq_mod unat_mod)
qed

lemma counter_split: "unat c = 64 * blk c + pos c"
  by (simp add: blk_def pos_def)

lemma pos_less [simp]: "pos c < 64"
  by (simp add: pos_def)

lemma counter_eqI: "blk c = blk d \<Longrightarrow> pos c = pos d \<Longrightarrow> c = d"
  using counter_split [of c] counter_split [of d] by (simp add: word_unat_eq_iff)

lemma blk_mono: "c \<le> d \<Longrightarrow> blk c \<le> blk d"
  by (simp add: blk_def word_le_nat_alt div_le_mono)

lemma unat_u64_less: "unat (c :: u64) < 2 ^ 64"
  using unsigned_less [of c, where ?'a = nat] by simp

lemma blk_bound: "blk c < 2 ^ 58"
proof -
  have "unat c div 64 < 2 ^ 58"
    using unat_u64_less [of c] by (simp add: less_mult_imp_div_less)
  then show ?thesis by (simp add: blk_def)
qed

section \<open>The filter and the set of accepted counters\<close>

text \<open>
  \<open>filter_rel f S\<close>: the counters of \<open>S\<close> are at most the last one, and for every
  counter whose block the ring still holds (the 128 blocks up to the last one's) the ring
  bit says whether the counter is in \<open>S\<close>. Nothing is assumed of the blocks beyond.
\<close>

definition filter_rel :: "Filter \<Rightarrow> u64 set \<Rightarrow> bool" where
  "filter_rel f S \<longleftrightarrow> length (ring f) = 128 \<and> (\<forall>c \<in> S. c \<le> last_ctr f) \<and>
     (\<forall>c. blk c \<le> blk (last_ctr f) \<and> blk (last_ctr f) < blk c + 128 \<longrightarrow>
        marked (ring f) c = (c \<in> S))"

text \<open>What an ideal window filter decides.\<close>

definition in_window :: "u64 \<Rightarrow> u64 \<Rightarrow> bool" where
  "in_window l c \<longleftrightarrow> l < c \<or> unat l - unat c \<le> 8128"

lemma in_window_blk:
  assumes "c \<le> l" and "in_window l c"
  shows "blk c \<le> blk l" and "blk l < blk c + 128"
proof -
  show "blk c \<le> blk l" using assms(1) by (rule blk_mono)
  have "unat l - unat c \<le> 8128" using assms by (auto simp: in_window_def)
  then have "64 * blk l + pos l \<le> 8128 + (64 * blk c + pos c)"
    by (simp add: counter_split [symmetric])
  then have "64 * blk l \<le> 8128 + 64 * blk c + pos c" by linarith
  then have "64 * blk l < 8192 + 64 * blk c" using pos_less [of c] by linarith
  then show "blk l < blk c + 128" by linarith
qed

lemma bit_set_iff: "n < 64 \<Longrightarrow> bit ((old :: u64) OR 2 ^ n) m = (bit old m \<or> m = n)"
  by (auto simp: bit_simps)

lemma set_fresh_iff:
  assumes "n < 64"
  shows "(old :: u64) \<noteq> old OR 2 ^ n \<longleftrightarrow> \<not> bit old n"
proof
  assume ne: "old \<noteq> old OR 2 ^ n"
  show "\<not> bit old n"
  proof
    assume "bit old n"
    then have "\<And>m. bit old m = bit (old OR 2 ^ n) m"
      using bit_set_iff [OF assms] by blast
    then have "old = old OR 2 ^ n" by (blast intro: bit_eqI)
    with ne show False by contradiction
  qed
next
  assume "\<not> bit old n"
  moreover have "bit (old OR 2 ^ n) n" using bit_set_iff [OF assms] by blast
  ultimately show "old \<noteq> old OR 2 ^ n" by metis
qed

lemma same_residue:
  assumes "(a :: nat) mod 128 = b mod 128" "a \<le> k" "b \<le> k" "k < a + 128" "k < b + 128"
  shows "a = b"
proof -
  have eq: "x = y" if "x \<le> y" "x mod 128 = y mod 128" "y < x + 128" for x y :: nat
  proof -
    have "128 dvd y - x" using that(1,2) by (simp add: mod_eq_dvd_iff_nat [symmetric])
    moreover have "y - x < 128" using that(1,3) by linarith
    ultimately have "y - x = 0" by (metis nat_dvd_not_less not_gr_zero)
    then show ?thesis using that(1) by linarith
  qed
  show ?thesis
  proof (cases "a \<le> b")
    case True
    then show ?thesis using eq [of a b] assms by linarith
  next
    case False
    then show ?thesis using eq [of b a] assms by linarith
  qed
qed

lemma marked_update:
  assumes "length r = 128" "blk c \<le> k" "k < blk c + 128" "blk d \<le> k" "k < blk d + 128"
  shows "marked (r[blk c mod 128 := r ! (blk c mod 128) OR 2 ^ pos c]) d
       = (marked r d \<or> d = c)"
proof (cases "blk d mod 128 = blk c mod 128")
  case True
  then have "blk d = blk c" using same_residue [OF True] assms by blast
  then have "(pos d = pos c) = (d = c)" using counter_eqI by blast
  with \<open>blk d = blk c\<close> assms(1) show ?thesis by (simp add: marked_def bit_set_iff)
next
  case False
  then have "d \<noteq> c" by blast
  with False assms(1) show ?thesis by (simp add: marked_def nth_list_update)
qed

lemma check_and_set_rel:
  assumes rel: "filter_rel f S" and le: "c \<le> last_ctr f"
    and win: "blk c \<le> blk (last_ctr f)" "blk (last_ctr f) < blk c + 128"
  shows "\<exists>f'. check_and_set c (drop_bit blockBitLog c) f = (c \<notin> S, f') \<and>
     filter_rel f' (insert c S) \<and> last_ctr f' = last_ctr f"
proof -
  define r where "r = ring f"
  define r' where "r' = r[blk c mod 128 := r ! (blk c mod 128) OR 2 ^ pos c]"
  have len: "length r = 128" using rel by (simp add: filter_rel_def r_def)
  have "check_and_set c (drop_bit blockBitLog c) f = (\<not> marked r c, f\<lparr>ring := r'\<rparr>)"
    by (simp add: check_and_set_def Let_def unat_and_blockMask unat_and_bitMask unat_drop_6
        set_fresh_iff marked_def r_def r'_def flip: pos_def)
  moreover have "marked r c = (c \<in> S)"
    using rel win by (simp add: filter_rel_def r_def)
  moreover have "filter_rel (f\<lparr>ring := r'\<rparr>) (insert c S)"
    using rel le win len marked_update [OF len win]
    by (auto simp: filter_rel_def r_def r'_def)
  ultimately show ?thesis by auto
qed

text \<open>Moving the window forward clears exactly the blocks it enters.\<close>

lemma clear_blocks_nth:
  assumes "length r = 128" "j < 128" "unat cur + unat d < 2 ^ 60"
  shows "clear_blocks cur d r ! j =
     (if \<exists>i. unat cur < i \<and> i \<le> unat cur + unat d \<and> i mod 128 = j then 0 else r ! j)"
proof -
  have b: "unat (cur + 1) = unat cur + 1" "unat (cur + d) = unat cur + unat d"
    using assms(3) by (simp_all add: unat_word_ariths)
  have idx: "unat (of_nat i AND blockMask) = i mod 128" for i
    by (simp add: unat_and_blockMask unat_of_nat mod_mod_cancel)
  have "j \<in> (\<lambda>i. i mod 128) ` set [unat cur + 1 ..< Suc (unat cur + unat d)]
      \<longleftrightarrow> (\<exists>i. unat cur < i \<and> i \<le> unat cur + unat d \<and> i mod 128 = j)"
    by (simp only: set_upt atLeastLessThan_iff image_iff Bex_def less_Suc_eq_le Suc_le_eq
        Suc_eq_plus1 [symmetric]) auto
  then show ?thesis
    using assms(1,2) by (simp only: clear_blocks_def b idx fold_list_update_nth)
qed

lemma residue_exists:
  fixes cur j :: nat
  assumes "j < 128"
  shows "\<exists>i. cur < i \<and> i \<le> cur + 128 \<and> i mod 128 = j"
proof -
  define k where "k = cur div 128"
  have c: "128 * k \<le> cur" "cur < 128 * k + 128"
    by (simp_all add: k_def)
  show ?thesis
  proof (cases "cur < 128 * k + j")
    case True
    then show ?thesis using assms c by (intro exI [of _ "128 * k + j"]) auto
  next
    case False
    define n where "n = k + 1"
    have "cur < 128 * n + j" "128 * n + j \<le> cur + 128"
      using False c assms by (simp_all add: n_def)
    then show ?thesis using assms by (intro exI [of _ "128 * n + j"]) auto
  qed
qed

lemma entered_block_cleared:
  assumes "cl \<le> (cc :: nat)" "bd \<le> cc" "cc < bd + 128"
  shows "(\<exists>i. cl < i \<and> i \<le> cl + min 128 (cc - cl) \<and> i mod 128 = bd mod 128) = (cl < bd)"
proof
  assume "cl < bd"
  show "\<exists>i. cl < i \<and> i \<le> cl + min 128 (cc - cl) \<and> i mod 128 = bd mod 128"
  proof (cases "cc - cl \<le> 128")
    case True
    then show ?thesis using \<open>cl < bd\<close> assms by (intro exI [of _ bd]) auto
  next
    case False
    then show ?thesis using residue_exists [of "bd mod 128" cl] by (simp add: min_def)
  qed
next
  assume "\<exists>i. cl < i \<and> i \<le> cl + min 128 (cc - cl) \<and> i mod 128 = bd mod 128"
  then obtain i where i: "cl < i" "i \<le> cl + 128" "i \<le> cc" "i mod 128 = bd mod 128"
    using assms(1) by auto
  show "cl < bd"
  proof (rule ccontr)
    assume "\<not> cl < bd"
    then have "cc < i + 128" using assms i by linarith
    then have "i = bd" using same_residue [OF i(4), of cc] assms i by blast
    with i \<open>\<not> cl < bd\<close> show False by simp
  qed
qed

lemma clear_blocks_marked:
  assumes len: "length r = 128" and lt: "l < c"
    and d: "blk d \<le> blk c" "blk c < blk d + 128"
  defines "e \<equiv> (if drop_bit blockBitLog c - drop_bit blockBitLog l > ringBlocks then ringBlocks
               else drop_bit blockBitLog c - drop_bit blockBitLog l)"
  shows "marked (clear_blocks (drop_bit blockBitLog l) e r) d = (blk d \<le> blk l \<and> marked r d)"
proof -
  have le: "blk l \<le> blk c" using lt by (simp add: blk_mono)
  have "unat (drop_bit blockBitLog c - drop_bit blockBitLog l) = blk c - blk l"
    using le by (simp add: unat_sub word_le_nat_alt unat_drop_6)
  then have e: "unat e = min 128 (blk c - blk l)"
    by (auto simp: e_def word_less_nat_alt ringBlocks_def min_def)
  have bound: "unat (drop_bit blockBitLog l) + unat e < 2 ^ 60"
    using blk_bound [of l] by (simp add: e unat_drop_6)
  have "clear_blocks (drop_bit blockBitLog l) e r ! (blk d mod 128) =
     (if blk l < blk d then 0 else r ! (blk d mod 128))"
    using clear_blocks_nth [OF len _ bound, of "blk d mod 128"] entered_block_cleared [OF le d]
    by (simp add: e unat_drop_6)
  then show ?thesis by (auto simp: marked_def)
qed

section \<open>Refinement\<close>

text \<open>
  One call on a filter that stands for the accepted set \<open>S\<close> answers whether the counter
  is below the limit, within the window and new, and leaves a filter that stands for the
  set with the counter added (for a duplicate the set is unchanged).
\<close>

lemma ValidateCounter_rel:
  assumes rel: "filter_rel f S"
  shows "\<exists>f'. ValidateCounter f c lim = (c < lim \<and> in_window (last_ctr f) c \<and> c \<notin> S, f') \<and>
     filter_rel f' (if c < lim \<and> in_window (last_ctr f) c then insert c S else S) \<and>
     last_ctr f' = (if c < lim \<and> in_window (last_ctr f) c then max (last_ctr f) c else last_ctr f)"
proof (cases "c < lim")
  case False
  then show ?thesis using rel by (auto simp: ValidateCounter_def not_less)
next
  case lim: True
  show ?thesis
  proof (cases "last_ctr f < c")
    case True
    define cur where "cur = drop_bit blockBitLog (last_ctr f)"
    define e where "e = (if drop_bit blockBitLog c - cur > ringBlocks then ringBlocks
               else drop_bit blockBitLog c - cur)"
    define g where "g = f\<lparr>ring := clear_blocks cur e (ring f), last_ctr := c\<rparr>"
    have ring_g: "ring g = clear_blocks cur e (ring f)" by (simp add: g_def)
    have len: "length (ring f) = 128" using rel by (simp add: filter_rel_def)
    have old: "d \<le> last_ctr f" if "d \<in> S" for d
      using rel that by (simp add: filter_rel_def)
    have mk: "marked (ring g) d = (d \<in> S)" if d: "blk d \<le> blk c" "blk c < blk d + 128" for d
    proof -
      have "marked (ring g) d = (blk d \<le> blk (last_ctr f) \<and> marked (ring f) d)"
        using clear_blocks_marked [OF len True d] unfolding ring_g e_def cur_def .
      also have "\<dots> = (d \<in> S)"
      proof (cases "blk d \<le> blk (last_ctr f)")
        case le: True
        have "blk (last_ctr f) < blk d + 128"
          using d(2) blk_mono [of "last_ctr f" c] True by fastforce
        then show ?thesis using rel le by (simp add: filter_rel_def)
      next
        case False
        then show ?thesis using old [of d] blk_mono [of d "last_ctr f"] by blast
      qed
      finally show ?thesis .
    qed
    have "\<forall>d \<in> S. d \<le> c" using old True by fastforce
    moreover have "length (ring g) = 128" using len by (simp add: g_def clear_blocks_def)
    ultimately have relg: "filter_rel g S"
      using mk by (simp add: filter_rel_def g_def)
    have "ValidateCounter f c lim = check_and_set c (drop_bit blockBitLog c) g"
      using True leD [of lim c] lim by (auto simp: ValidateCounter_def Let_def g_def e_def cur_def)
    moreover have "\<exists>f'. check_and_set c (drop_bit blockBitLog c) g = (c \<notin> S, f') \<and>
         filter_rel f' (insert c S) \<and> last_ctr f' = last_ctr g"
      using relg by (rule check_and_set_rel) (simp_all add: g_def)
    moreover have "last_ctr g = c" by (simp add: g_def)
    ultimately show ?thesis using lim True by (auto simp: in_window_def max_def)
  next
    case le: False
    then have sub: "unat (last_ctr f - c) = unat (last_ctr f) - unat c"
      by (simp add: unat_sub)
    have win: "(last_ctr f - c > windowSize) = (\<not> in_window (last_ctr f) c)"
      using le by (simp add: in_window_def word_less_nat_alt sub replay_consts not_le)
    show ?thesis
    proof (cases "in_window (last_ctr f) c")
      case False
      then show ?thesis using le lim win rel by (auto simp: ValidateCounter_def Let_def)
    next
      case True
      then have "ValidateCounter f c lim = check_and_set c (drop_bit blockBitLog c) f"
        using le lim win by (auto simp: ValidateCounter_def Let_def)
      moreover have "\<exists>f'. check_and_set c (drop_bit blockBitLog c) f = (c \<notin> S, f') \<and>
           filter_rel f' (insert c S) \<and> last_ctr f' = last_ctr f"
        using rel le in_window_blk [OF _ True] by (intro check_and_set_rel) auto
      ultimately show ?thesis using lim True le by (auto simp: max_def)
    qed
  qed
qed

lemma filter_rel_zero: "filter_rel zero_Filter {}"
  by (auto simp: filter_rel_def zero_Filter_def marked_def)

text \<open>
  \<open>Reset\<close> clears one block only; the stale blocks are cleared when the window reaches
  them, so the result stands for the empty set whatever the ring held.
\<close>

lemma filter_rel_Reset: "length (ring f) = 128 \<Longrightarrow> filter_rel (Reset f) {}"
  by (auto simp: filter_rel_def Reset_def marked_def blk_def)

section \<open>The interface of a replay filter\<close>

text \<open>The counters accepted while a sequence of packets is checked in turn.\<close>

primrec accepted_run :: "('f \<Rightarrow> u64 \<Rightarrow> u64 \<Rightarrow> bool \<times> 'f) \<Rightarrow> u64 \<Rightarrow> 'f \<Rightarrow> u64 list \<Rightarrow> u64 list" where
  "accepted_run validate lim f [] = []"
| "accepted_run validate lim f (c # cs) =
     (let (ok, f') = validate f c lim
      in if ok then c # accepted_run validate lim f' cs else accepted_run validate lim f' cs)"

locale replay_filter =
  fixes validate :: "'f \<Rightarrow> u64 \<Rightarrow> u64 \<Rightarrow> bool \<times> 'f"
    and rel :: "'f \<Rightarrow> u64 set \<Rightarrow> bool"
  assumes accept_fresh: "rel f S \<Longrightarrow> validate f c lim = (True, f') \<Longrightarrow>
      c < lim \<and> c \<notin> S \<and> rel f' (insert c S)"
    and reject_keeps: "rel f S \<Longrightarrow> validate f c lim = (False, f') \<Longrightarrow> rel f' S"
begin

lemma run_fresh: "rel f S \<Longrightarrow> distinct (accepted_run validate lim f cs) \<and> set (accepted_run validate lim f cs) \<inter> S = {} \<and>
    set (accepted_run validate lim f cs) \<subseteq> {c. c < lim}"
proof (induction cs arbitrary: f S)
  case Nil
  then show ?case by simp
next
  case (Cons c cs)
  obtain ok f' where v: "validate f c lim = (ok, f')" by (cases "validate f c lim")
  show ?case
  proof (cases ok)
    case True
    then have "c < lim" "c \<notin> S" "rel f' (insert c S)"
      using accept_fresh [OF Cons.prems, of c lim f'] v by simp_all
    then show ?thesis using Cons.IH [of f' "insert c S"] v True by auto
  next
    case False
    then have "rel f' S" using reject_keeps [OF Cons.prems, of c lim f'] v by simp
    then show ?thesis using Cons.IH [of f' S] v False by simp
  qed
qed

end

interpretation rf: replay_filter ValidateCounter filter_rel
proof (unfold_locales, goal_cases)
  case (1 f S c lim f')
  then show ?case using ValidateCounter_rel [of f S c lim] by (auto split: if_splits)
next
  case (2 f S c lim f')
  then show ?case using ValidateCounter_rel [of f S c lim]
    by (auto simp: insert_absorb split: if_splits)
qed

section \<open>Properties\<close>

text \<open>
  The reference filter: it remembers every accepted counter and the highest one, and
  accepts a counter below the limit that is inside the window and new.
\<close>

definition naive_validate :: "u64 \<times> u64 set \<Rightarrow> u64 \<Rightarrow> u64 \<Rightarrow> bool \<times> (u64 \<times> u64 set)" where
  "naive_validate st c lim =
     (case st of (l, S) \<Rightarrow>
        if c < lim \<and> in_window l c \<and> c \<notin> S then (True, (max l c, insert c S)) else (False, (l, S)))"

lemma accepted_run_naive:
  "filter_rel f S \<Longrightarrow>
   accepted_run ValidateCounter lim f cs = accepted_run naive_validate lim (last_ctr f, S) cs"
proof (induction cs arbitrary: f S)
  case Nil
  then show ?case by simp
next
  case (Cons c cs)
  obtain f' where v: "ValidateCounter f c lim = (c < lim \<and> in_window (last_ctr f) c \<and> c \<notin> S, f')"
    and rel: "filter_rel f' (if c < lim \<and> in_window (last_ctr f) c then insert c S else S)"
    and l: "last_ctr f' = (if c < lim \<and> in_window (last_ctr f) c then max (last_ctr f) c else last_ctr f)"
    using ValidateCounter_rel [OF Cons.prems] by blast
  have "max (last_ctr f) c = last_ctr f" if "c \<in> S"
    using Cons.prems that by (auto simp: filter_rel_def max_def)
  then show ?case using Cons.IH [OF rel] v l
    by (auto simp: naive_validate_def insert_absorb split: if_splits)
qed

text \<open>C1: A filter in its zero state, asked about any sequence of packet counters, accepts
  exactly the counters that a filter with unbounded memory accepts: those below the limit,
  not older than the window behind the highest accepted counter, and not accepted before.
  The 128-word bit ring loses nothing and never confuses two counters.\<close>

theorem ValidateCounter_equiv_naive:
  "accepted_run ValidateCounter lim zero_Filter cs = accepted_run naive_validate lim (0, {}) cs"
  using accepted_run_naive [OF filter_rel_zero, of lim cs] by (simp add: zero_Filter_def)



end
