(* ===== verification/Ratelimiter.thy ===== *)
theory Ratelimiter
  imports Vwarp_Prelude
begin

text \<open>
  Package \<open>wireguard/ratelimiter\<close>: a token bucket per source address, and the
  collector goroutine that drops buckets idle for a second. The reading of the clock taken
  by each call is an argument of the operation. A Go panic (a send on or a close of a
  closed channel, a write to a nil map) is \<open>None\<close>.
\<close>

section \<open>State and operations\<close>

definition packetsPerSecond :: int where "packetsPerSecond = 20"
definition packetsBurstable :: int where "packetsBurstable = 5"
definition garbageCollectTime :: duration where "garbageCollectTime = Second"
definition packetCost :: int where "packetCost = 1000000000 div packetsPerSecond"
definition maxTokens :: int where "maxTokens = packetCost * packetsBurstable"

lemmas rate_consts = packetsPerSecond_def packetsBurstable_def garbageCollectTime_def
  packetCost_def maxTokens_def Second_def

text \<open>Signed 64-bit addition wraps.\<close>

definition wrap64 :: "int \<Rightarrow> int" where
  "wrap64 x = (x + 2 ^ 63) mod 2 ^ 64 - 2 ^ 63"

lemma wrap64_id: "- (2 ^ 63) \<le> x \<Longrightarrow> x < 2 ^ 63 \<Longrightarrow> wrap64 x = x"
  by (simp add: wrap64_def)

record RatelimiterEntry =
  lastTime :: time
  tokens :: int

text \<open>
  The channel \<open>stopReset\<close> is nil, open (its collector goroutine is waiting) or closed
  (the collector has returned); \<open>ticking\<close> says whether the collector's ticker runs.
  A nil table is \<open>None\<close>.
\<close>

datatype chan_state = Chan_nil | Chan_open | Chan_closed

record 'ip Ratelimiter =
  stopReset :: chan_state
  table :: "('ip \<rightharpoonup> RatelimiterEntry) option"
  ticking :: bool

definition zero_Ratelimiter :: "'ip Ratelimiter" where
  "zero_Ratelimiter = \<lparr>stopReset = Chan_nil, table = None, ticking = False\<rparr>"

definition Close :: "'ip Ratelimiter \<Rightarrow> 'ip Ratelimiter option" where
  "Close rate =
     (case stopReset rate of
        Chan_nil \<Rightarrow> Some rate
      | Chan_open \<Rightarrow> Some (rate\<lparr>stopReset := Chan_closed, ticking := False\<rparr>)
      | Chan_closed \<Rightarrow> None)"

definition Init :: "'ip Ratelimiter \<Rightarrow> 'ip Ratelimiter option" where
  "Init rate =
     (if stopReset rate = Chan_closed then None
      else Some (rate\<lparr>stopReset := Chan_open, table := Some Map.empty, ticking := False\<rparr>))"

text \<open>\<open>cleanup\<close> reads the clock once per entry; \<open>now key\<close> is the reading taken for \<open>key\<close>.\<close>

definition cleanup_table :: "('ip \<Rightarrow> time) \<Rightarrow> ('ip \<rightharpoonup> RatelimiterEntry) \<Rightarrow> ('ip \<rightharpoonup> RatelimiterEntry)" where
  "cleanup_table now tbl = (\<lambda>key.
     case tbl key of
       None \<Rightarrow> None
     | Some e \<Rightarrow> if time_Sub (now key) (lastTime e) > garbageCollectTime then None else Some e)"

definition cleanup :: "('ip \<Rightarrow> time) \<Rightarrow> 'ip Ratelimiter \<Rightarrow> bool \<times> 'ip Ratelimiter" where
  "cleanup now rate =
     (case table rate of
        None \<Rightarrow> (True, rate)
      | Some tbl \<Rightarrow>
          let tbl' = cleanup_table now tbl
          in (tbl' = Map.empty, rate\<lparr>table := Some tbl'\<rparr>))"

text \<open>One tick of the collector: the ticker stops when the table is empty.\<close>

definition collector_tick :: "('ip \<Rightarrow> time) \<Rightarrow> 'ip Ratelimiter \<Rightarrow> 'ip Ratelimiter" where
  "collector_tick now rate =
     (if ticking rate then
        (let (empty, rate') = cleanup now rate
         in if empty then rate'\<lparr>ticking := False\<rparr> else rate')
      else rate)"

definition add_tokens :: "time \<Rightarrow> RatelimiterEntry \<Rightarrow> RatelimiterEntry" where
  "add_tokens now e =
     (let t = wrap64 (tokens e + time_Sub now (lastTime e))
      in e\<lparr>tokens := (if t > maxTokens then maxTokens else t), lastTime := now\<rparr>)"

definition new_entry :: "time \<Rightarrow> RatelimiterEntry" where
  "new_entry now = \<lparr>lastTime = now, tokens = maxTokens - packetCost\<rparr>"

definition allow_entry :: "time \<Rightarrow> RatelimiterEntry \<Rightarrow> bool \<times> RatelimiterEntry" where
  "allow_entry now e =
     (let e1 = add_tokens now e
      in if tokens e1 > packetCost then (True, e1\<lparr>tokens := tokens e1 - packetCost\<rparr>)
         else (False, e1))"

definition Allow :: "time \<Rightarrow> 'ip \<Rightarrow> 'ip Ratelimiter \<Rightarrow> (bool \<times> 'ip Ratelimiter) option" where
  "Allow now ip rate =
     (case table rate of
        None \<Rightarrow> None
      | Some tbl \<Rightarrow>
          (case tbl ip of
             None \<Rightarrow>
               (let tbl' = tbl(ip \<mapsto> new_entry now)
                in if dom tbl' = {ip} then
                     (case stopReset rate of
                        Chan_open \<Rightarrow> Some (True, rate\<lparr>table := Some tbl', ticking := True\<rparr>)
                      | _ \<Rightarrow> None)
                   else Some (True, rate\<lparr>table := Some tbl'\<rparr>))
           | Some e \<Rightarrow>
               (let (ok, e') = allow_entry now e
                in Some (ok, rate\<lparr>table := Some (tbl(ip \<mapsto> e'))\<rparr>))))"

text \<open>A history of the limiter: packets checked and ticks of the collector, with the time of each.\<close>

datatype 'ip rl_event = Packet 'ip time | Tick time

primrec event_time :: "'ip rl_event \<Rightarrow> time" where
  "event_time (Packet ip t) = t"
| "event_time (Tick t) = t"

fun rl_run :: "'ip Ratelimiter \<Rightarrow> 'ip rl_event list \<Rightarrow> ('ip list \<times> 'ip Ratelimiter) option" where
  "rl_run rate [] = Some ([], rate)"
| "rl_run rate (Tick t # es) = rl_run (collector_tick (\<lambda>_. t) rate) es"
| "rl_run rate (Packet ip t # es) =
     (case Allow t ip rate of
        None \<Rightarrow> None
      | Some (ok, rate') \<Rightarrow>
          (case rl_run rate' es of
             None \<Rightarrow> None
           | Some (ips, rate'') \<Rightarrow> Some (if ok then ip # ips else ips, rate'')))"

section \<open>Invariant\<close>

text \<open>
  \<open>horizon\<close> bounds the age of the process so that the 64-bit token sum cannot wrap
  (292 years). \<open>lo\<close> is the time the limiter was initialised.
\<close>

definition horizon :: int where "horizon = max_duration - maxTokens"

definition entry_ok :: "time \<Rightarrow> time \<Rightarrow> RatelimiterEntry \<Rightarrow> bool" where
  "entry_ok lo now e = (0 \<le> tokens e \<and> tokens e \<le> maxTokens \<and> lo \<le> lastTime e \<and> lastTime e \<le> now)"

definition rate_ok :: "time \<Rightarrow> time \<Rightarrow> 'ip Ratelimiter \<Rightarrow> bool" where
  "rate_ok lo now rate =
     (stopReset rate = Chan_open \<and>
      (\<exists>tbl. table rate = Some tbl \<and>
         (\<forall>ip e. tbl ip = Some e \<longrightarrow> entry_ok lo now e) \<and>
         (tbl \<noteq> Map.empty \<longrightarrow> ticking rate)))"

lemma allow_entry_exact:
  assumes "entry_ok lo t0 e" "t0 \<le> now" "now - lo \<le> horizon"
  defines "s \<equiv> min maxTokens (tokens e + (now - lastTime e))"
  shows "allow_entry now e =
     (if s > packetCost then (True, \<lparr>lastTime = now, tokens = s - packetCost\<rparr>)
      else (False, \<lparr>lastTime = now, tokens = s\<rparr>))"
proof -
  have sub: "time_Sub now (lastTime e) = now - lastTime e"
    using assms(1-3) by (intro time_Sub_exact)
      (auto simp: entry_ok_def horizon_def rate_consts max_duration_def)
  have "wrap64 (tokens e + time_Sub now (lastTime e)) = tokens e + (now - lastTime e)"
    unfolding sub using assms(1-3)
    by (intro wrap64_id) (auto simp: entry_ok_def horizon_def rate_consts max_duration_def)
  then show ?thesis
    by (simp add: allow_entry_def add_tokens_def s_def Let_def min_def)
qed

text \<open>
  Dropping an idle bucket is invisible: after more than a second a bucket is full again, and
  the packet that finds no bucket is treated as the packet that finds a full one.
\<close>

lemma cleanup_transparent:
  assumes "entry_ok lo t0 e" "t0 \<le> now" "now - lo \<le> horizon"
    "now - lastTime e > garbageCollectTime"
  shows "allow_entry now e = (True, new_entry now)"
  using allow_entry_exact [OF assms(1-3)] assms
  by (auto simp: new_entry_def rate_consts entry_ok_def)

lemma entry_ok_allow:
  assumes "entry_ok lo t0 e" "t0 \<le> now" "now - lo \<le> horizon"
  shows "entry_ok lo now (snd (allow_entry now e))"
  using allow_entry_exact [OF assms] assms by (auto simp: entry_ok_def rate_consts)

lemma rate_ok_Init: "Init zero_Ratelimiter = Some r \<Longrightarrow> rate_ok lo lo r"
  by (auto simp: Init_def zero_Ratelimiter_def rate_ok_def)

lemma entry_ok_later: "entry_ok lo t e \<Longrightarrow> t \<le> t' \<Longrightarrow> entry_ok lo t' e"
  by (auto simp: entry_ok_def)

lemma rate_ok_later: "rate_ok lo t r \<Longrightarrow> t \<le> t' \<Longrightarrow> rate_ok lo t' r"
  unfolding rate_ok_def by (fastforce dest: entry_ok_later)

lemma rate_ok_Allow:
  assumes "rate_ok lo t0 r" "t0 \<le> now" "now - lo \<le> horizon" "lo \<le> t0"
  shows "\<exists>ok r'. Allow now ip r = Some (ok, r') \<and> rate_ok lo now r'"
proof -
  obtain tbl where tbl: "table r = Some tbl" "\<forall>ip e. tbl ip = Some e \<longrightarrow> entry_ok lo t0 e"
    "tbl \<noteq> Map.empty \<longrightarrow> ticking r" and op: "stopReset r = Chan_open"
    using assms(1) by (auto simp: rate_ok_def)
  have later: "entry_ok lo now e" if "tbl i = Some e" for i e
    using tbl(2) that assms(2) entry_ok_later by blast
  show ?thesis
  proof (cases "tbl ip")
    case None
    have "entry_ok lo now (new_entry now)"
      using assms by (simp add: entry_ok_def new_entry_def rate_consts)
    moreover have "tbl \<noteq> Map.empty" if "dom tbl \<noteq> {}" using that by auto
    moreover have "dom tbl = {}" if "insert ip (dom tbl) = {ip}"
      using that None by auto
    ultimately show ?thesis
      using None tbl op later by (auto simp: Allow_def rate_ok_def Let_def)
  next
    case (Some e)
    then have "entry_ok lo now (snd (allow_entry now e))"
      using entry_ok_allow assms tbl(2) by blast
    then show ?thesis
      using Some tbl op later by (auto simp: Allow_def rate_ok_def Let_def split: prod.splits)
  qed
qed

lemma cleanup_table_keeps: "cleanup_table now tbl ip = Some e \<Longrightarrow> tbl ip = Some e"
  by (auto simp: cleanup_table_def split: option.splits if_splits)

lemma rate_ok_tick: "rate_ok lo t r \<Longrightarrow> rate_ok lo t (collector_tick now r)"
  unfolding rate_ok_def collector_tick_def cleanup_def
  by (auto simp: Let_def dest!: cleanup_table_keeps)

section \<open>The rate bound\<close>

text \<open>What a source could spend at a given time.\<close>

definition credit :: "time \<Rightarrow> 'ip Ratelimiter \<Rightarrow> 'ip \<Rightarrow> int" where
  "credit now rate ip =
     (case table rate of
        None \<Rightarrow> maxTokens
      | Some tbl \<Rightarrow>
          (case tbl ip of
             None \<Rightarrow> maxTokens
           | Some e \<Rightarrow> min maxTokens (tokens e + (now - lastTime e))))"

lemma credit_later: "t \<le> t' \<Longrightarrow> credit t' r ip \<le> credit t r ip + (t' - t)"
  by (auto simp: credit_def split: option.splits)

lemma credit_bounds: "rate_ok lo t r \<Longrightarrow> 0 \<le> credit t r ip \<and> credit t r ip \<le> maxTokens"
  by (auto simp: credit_def rate_ok_def entry_ok_def rate_consts split: option.splits)

lemma table_tick: "table (collector_tick now r) =
    (if ticking r then map_option (cleanup_table now) (table r) else table r)"
  by (auto simp: collector_tick_def cleanup_def Let_def split: option.splits)

lemma credit_tick:
  assumes "rate_ok lo t r" "t \<le> t'"
  shows "credit t' (collector_tick (\<lambda>_. t) r) ip = credit t' r ip"
proof -
  obtain tbl where tbl: "table r = Some tbl" "\<forall>ip e. tbl ip = Some e \<longrightarrow> entry_ok lo t e"
    using assms by (auto simp: rate_ok_def)
  have "tokens e + (t' - lastTime e) \<ge> maxTokens"
    if "tbl ip = Some e" "time_Sub t (lastTime e) > garbageCollectTime" for e
    using that tbl(2) assms(2)
    by (fastforce simp: time_Sub_def rate_consts entry_ok_def min_duration_def max_duration_def)
  then show ?thesis using tbl(1)
    by (auto simp: credit_def table_tick cleanup_table_def split: option.splits)
qed

text \<open>
  The answer of \<open>Allow\<close> and the credit it leaves are functions of the credit alone.
\<close>

lemma credit_Allow:
  assumes "rate_ok lo t r" "t - lo \<le> horizon" "Allow t ip r = Some (ok, r')" "t \<le> t'"
  shows "ok = (packetCost < credit t r ip) \<and>
    credit t' r' i =
      (if i = ip then min maxTokens (credit t r i - (if ok then packetCost else 0) + (t' - t))
       else credit t' r i)"
proof -
  obtain tbl where tbl: "table r = Some tbl" "\<forall>ip e. tbl ip = Some e \<longrightarrow> entry_ok lo t e"
    and op: "stopReset r = Chan_open"
    using assms(1) by (auto simp: rate_ok_def)
  show ?thesis
  proof (cases "tbl ip")
    case None
    then show ?thesis using assms(3) tbl(1) op
      by (auto simp: Allow_def credit_def Let_def new_entry_def rate_consts
          split: if_splits option.splits)
  next
    case (Some e)
    then have "entry_ok lo t e" using tbl by blast
    from allow_entry_exact [OF this order_refl assms(2)] show ?thesis
      using Some assms(3,4) tbl(1)
      by (auto simp: Allow_def credit_def Let_def rate_consts split: if_splits option.splits)
  qed
qed

lemma rate_bound_run:
  assumes "rl_run r es = Some (ips, r')" "rate_ok lo t0 r" "lo \<le> t0"
    "sorted (t0 # map event_time es @ [t1])" "t1 - lo \<le> horizon"
  shows "packetCost * int (count_list ips ip) + credit t1 r' ip \<le> credit t0 r ip + (t1 - t0)"
  using assms
proof (induction r es arbitrary: ips t0 rule: rl_run.induct)
  case (1 rate)
  then show ?case using credit_later [of t0 t1] by simp
next
  case (2 rate t es)
  let ?r = "collector_tick (\<lambda>_. t) rate"
  have t: "t0 \<le> t" "sorted (t # map event_time es @ [t1])" using "2.prems"(4) by auto
  then have ok: "rate_ok lo t rate" using "2.prems" rate_ok_later by blast
  have "packetCost * int (count_list ips ip) + credit t1 r' ip \<le> credit t ?r ip + (t1 - t)"
    using "2.IH" [of ips t] "2.prems" rate_ok_tick [OF ok] t by simp
  then show ?case using credit_tick [OF ok order_refl, of ip] credit_later [OF t(1), of rate ip] by linarith
next
  case (3 rate q t es)
  obtain ok r1 qs where a: "Allow t q rate = Some (ok, r1)" "rl_run r1 es = Some (qs, r')"
    "ips = (if ok then q # qs else qs)"
    using "3.prems"(1) by (auto split: option.splits prod.splits)
  have t: "t0 \<le> t" "t \<le> t1" "sorted (t # map event_time es @ [t1])" using "3.prems"(4) by auto
  then have inv: "rate_ok lo t rate" and h: "t - lo \<le> horizon"
    using "3.prems" rate_ok_later by (blast, simp)
  have "rate_ok lo t r1" using rate_ok_Allow [OF inv order_refl h, of q] a(1) t "3.prems"(3) by auto
  then have "packetCost * int (count_list qs ip) + credit t1 r' ip \<le> credit t r1 ip + (t1 - t)"
    using "3.IH" [OF a(1) refl, of qs t] a(2) t "3.prems" by simp
  then show ?case using credit_Allow [OF inv h a(1) order_refl, of ip] credit_later [OF t(1), of rate ip] a(3)
    by (auto simp: algebra_simps split: if_splits)
qed

lemma rl_run_total:
  assumes "rate_ok lo t0 r" "lo \<le> t0" "sorted (t0 # map event_time es @ [t1])" "t1 - lo \<le> horizon"
  shows "\<exists>ips r'. rl_run r es = Some (ips, r') \<and> rate_ok lo t1 r'"
  using assms
proof (induction r es arbitrary: t0 rule: rl_run.induct)
  case (1 rate)
  then show ?case using rate_ok_later by auto
next
  case (2 rate t es)
  have t: "t0 \<le> t" "sorted (t # map event_time es @ [t1])" using "2.prems"(3) by auto
  then have "rate_ok lo t (collector_tick (\<lambda>_. t) rate)"
    using rate_ok_tick rate_ok_later [OF "2.prems"(1) t(1)] by blast
  then show ?case using "2.IH" [of t] t "2.prems"(2,4) by simp
next
  case (3 rate q t es)
  have t: "t0 \<le> t" "t \<le> t1" "sorted (t # map event_time es @ [t1])" using "3.prems"(3) by auto
  then obtain ok r1 where a: "Allow t q rate = Some (ok, r1)" "rate_ok lo t r1"
    using rate_ok_Allow [OF "3.prems"(1) t(1) _ "3.prems"(2), of q] "3.prems"(4) by auto
  then show ?case using "3.IH" [OF a(1) refl, of t] t "3.prems" by auto
qed

section \<open>The collector is invisible\<close>

fun is_packet :: "'ip rl_event \<Rightarrow> bool" where
  "is_packet (Packet ip t) = True"
| "is_packet (Tick t) = False"

definition same_credit :: "time \<Rightarrow> 'ip Ratelimiter \<Rightarrow> 'ip Ratelimiter \<Rightarrow> bool" where
  "same_credit t r s = (\<forall>t' \<ge> t. \<forall>ip. credit t' r ip = credit t' s ip)"

lemma same_credit_later: "same_credit t r s \<Longrightarrow> t \<le> t' \<Longrightarrow> same_credit t' r s"
  by (auto simp: same_credit_def)

lemma same_credit_Allow:
  assumes "rate_ok lo t r" "rate_ok lo t s" "t - lo \<le> horizon" "same_credit t r s"
    "Allow t ip r = Some (ok, r')" "Allow t ip s = Some (ok', s')"
  shows "ok = ok' \<and> same_credit t r' s'"
proof -
  have "ok = ok'"
    using credit_Allow [OF assms(1,3,5) order_refl] credit_Allow [OF assms(2,3,6) order_refl] assms(4)
    by (simp add: same_credit_def)
  then show ?thesis
    using credit_Allow [OF assms(1,3,5)] credit_Allow [OF assms(2,3,6)] assms(4)
    by (simp add: same_credit_def)
qed

lemma collector_invisible_run:
  assumes "rate_ok lo t0 r" "rate_ok lo t0 s" "lo \<le> t0" "same_credit t0 r s"
    "sorted (t0 # map event_time es @ [t1])" "t1 - lo \<le> horizon"
  shows "map_option fst (rl_run r es) = map_option fst (rl_run s (filter is_packet es))"
  using assms
proof (induction r es arbitrary: s t0 rule: rl_run.induct)
  case (1 rate)
  then show ?case by simp
next
  case (2 rate t es)
  have t: "t0 \<le> t" "sorted (t # map event_time es @ [t1])" using "2.prems"(5) by auto
  then have ok: "rate_ok lo t rate" "rate_ok lo t s" "same_credit t rate s"
    using "2.prems" rate_ok_later same_credit_later by blast+
  then have "same_credit t (collector_tick (\<lambda>_. t) rate) s"
    using credit_tick by (fastforce simp: same_credit_def)
  then show ?case using "2.IH" [of t s] ok rate_ok_tick [OF ok(1)] t "2.prems"(3,6) by simp
next
  case (3 rate q t es)
  have t: "t0 \<le> t" "t \<le> t1" "sorted (t # map event_time es @ [t1])" using "3.prems"(5) by auto
  then have ok: "rate_ok lo t rate" "rate_ok lo t s" "same_credit t rate s" "t - lo \<le> horizon"
    using "3.prems" rate_ok_later same_credit_later by (blast, blast, blast, simp)
  obtain a r1 where a: "Allow t q rate = Some (a, r1)" "rate_ok lo t r1"
    using rate_ok_Allow [OF ok(1) order_refl ok(4), of q] t "3.prems"(3) by auto
  obtain b s1 where b: "Allow t q s = Some (b, s1)" "rate_ok lo t s1"
    using rate_ok_Allow [OF ok(2) order_refl ok(4), of q] t "3.prems"(3) by auto
  have "a = b" "same_credit t r1 s1" using same_credit_Allow [OF ok(1,2,4,3) a(1) b(1)] by auto
  moreover from this have "map_option fst (rl_run r1 es) = map_option fst (rl_run s1 (filter is_packet es))"
    using "3.IH" [OF a(1) refl, of t s1] a b t "3.prems"(3,6) by simp
  ultimately show ?case using a(1) b(1)
    by (cases "rl_run r1 es"; cases "rl_run s1 (filter is_packet es)") auto
qed

section \<open>Properties\<close>

text \<open>C3: Whatever the limiter has processed since it was initialised, in every later interval
  of length \<open>t1 - t0\<close> the packets it lets through from one source, weighted by the cost
  of a packet, are at most the burst allowance plus the elapsed nanoseconds: five packets and
  twenty more per second. Ticks of the collector may be interleaved anywhere.\<close>

theorem Allow_rate_bound:
  assumes "Init zero_Ratelimiter = Some r0"
    and "rl_run r0 es1 = Some (ips1, r1)" "sorted (lo # map event_time es1 @ [t0])"
    and "rl_run r1 es2 = Some (ips2, r2)" "sorted (t0 # map event_time es2 @ [t1])"
    and "t1 - lo \<le> horizon"
  shows "packetCost * int (count_list ips2 ip) \<le> maxTokens + (t1 - t0)"
proof -
  have le: "lo \<le> t0" "t0 \<le> t1" using assms(3,5) by auto
  have "rate_ok lo t0 r1"
    using rl_run_total [OF rate_ok_Init [OF assms(1)] order_refl assms(3)] assms(2,6) le by auto
  then show ?thesis
    using rate_bound_run [OF assms(4) _ le(1) assms(5,6), of ip] credit_bounds [of lo t0 r1 ip]
      rl_run_total [OF _ le(1) assms(5,6)] assms(4) credit_bounds [of lo t1 r2 ip]
    by fastforce
qed

theorem Allow_rate_bound_witness:
  "\<exists>r0 r1 r2. Init zero_Ratelimiter = Some r0 \<and> rl_run r0 [Packet (7::nat) 10] = Some ([7], r1) \<and>
     rl_run r1 [Packet 7 60000000, Tick 60000001] = Some ([7], r2) \<and>
     packetCost * int (count_list [7::nat] 7) \<le> maxTokens + (60000001 - 20)"
proof -
  let ?r0 = "\<lparr>stopReset = Chan_open, table = Some Map.empty, ticking = False\<rparr>"
  let ?r1 = "\<lparr>stopReset = Chan_open, table = Some [7::nat \<mapsto> new_entry 10], ticking = True\<rparr>"
  let ?r2 = "\<lparr>stopReset = Chan_open,
     table = Some [7::nat \<mapsto> \<lparr>lastTime = 60000000, tokens = 200000000\<rparr>], ticking = True\<rparr>"
  have i: "Init zero_Ratelimiter = Some ?r0" by (simp add: Init_def zero_Ratelimiter_def)
  have a: "rl_run ?r0 [Packet 7 10] = Some ([7], ?r1)" by (simp add: Allow_def Let_def)
  have b: "rl_run ?r1 [Packet 7 60000000, Tick 60000001] = Some ([7], ?r2)"
    by (auto simp: Allow_def Let_def allow_entry_def add_tokens_def new_entry_def rate_consts
        wrap64_def time_Sub_def max_duration_def min_duration_def collector_tick_def
        cleanup_def cleanup_table_def fun_eq_iff split: option.splits)
  have "packetCost * int (count_list [7::nat] 7) \<le> maxTokens + (60000001 - 20)"
    by (rule Allow_rate_bound [OF i a _ b, of 0 20 60000001 7])
      (simp_all add: horizon_def rate_consts max_duration_def)
  with i a b show ?thesis by blast
qed

text \<open>C4: The collector only saves memory. On every history of packets and ticks the
  limiter, started fresh, lets exactly the same packets through as it would if the collector
  never ran.\<close>

theorem collector_invisible:
  assumes "Init zero_Ratelimiter = Some r0" "sorted (lo # map event_time es @ [t1])"
    and "t1 - lo \<le> horizon"
  shows "map_option fst (rl_run r0 es) = map_option fst (rl_run r0 (filter is_packet es))"
  using collector_invisible_run [OF rate_ok_Init [OF assms(1)] rate_ok_Init [OF assms(1)]
      order_refl _ assms(2,3)] by (simp add: same_credit_def)

theorem collector_invisible_witness:
  "map_option fst (rl_run \<lparr>stopReset = Chan_open, table = Some Map.empty, ticking = False\<rparr>
      [Packet (1::nat) 10, Tick 5000000000, Packet 1 5000000001]) =
   map_option fst (rl_run \<lparr>stopReset = Chan_open, table = Some Map.empty, ticking = False\<rparr>
      [Packet (1::nat) 10, Packet 1 5000000001])"
  using collector_invisible [of "\<lparr>stopReset = Chan_open, table = Some Map.empty, ticking = False\<rparr>" 0
      "[Packet (1::nat) 10, Tick 5000000000, Packet 1 5000000001]" 5000000001]
  by (simp add: Init_def zero_Ratelimiter_def horizon_def rate_consts max_duration_def
      del: rl_run.simps)

text \<open>C5: Started with \<open>Init\<close>, the limiter never panics: every history of packets and
  ticks runs to its end, and while a bucket exists the collector is ticking, so no bucket is
  left behind for ever.\<close>

theorem limiter_never_panics:
  assumes "Init zero_Ratelimiter = Some r0" "sorted (lo # map event_time es @ [t1])"
    and "t1 - lo \<le> horizon"
  shows "\<exists>ips r. rl_run r0 es = Some (ips, r) \<and> (table r \<noteq> Some Map.empty \<longrightarrow> ticking r)"
  using rl_run_total [OF rate_ok_Init [OF assms(1)] order_refl assms(2,3)]
  by (auto simp: rate_ok_def)

theorem limiter_never_panics_witness:
  "\<exists>ips r. rl_run \<lparr>stopReset = Chan_open, table = Some Map.empty, ticking = False\<rparr>
      [Packet (1::nat) 10, Tick 5000000000] = Some (ips, r) \<and>
      (table r \<noteq> Some Map.empty \<longrightarrow> ticking r)"
  using limiter_never_panics [of "\<lparr>stopReset = Chan_open, table = Some Map.empty, ticking = False\<rparr>" 0
      "[Packet (1::nat) 10, Tick 5000000000]" 5000000000]
  by (simp add: Init_def zero_Ratelimiter_def horizon_def rate_consts max_duration_def
      del: rl_run.simps)

end
