(* ===== verification/Tai64n.thy ===== *)
theory Tai64n
  imports Vwarp_Prelude
begin

text \<open>
  Package \<open>wireguard/tai64n\<close>: the 12-byte timestamps of the handshake initiation. A
  \<open>time.Time\<close> is given here by its nanoseconds since the Unix epoch, so that
  \<open>t.Unix()\<close> is the quotient and \<open>t.Nanosecond()\<close> the remainder by 10^9.
\<close>

definition TimestampSize :: nat where "TimestampSize = 12"
definition base :: u64 where "base = 0x400000000000000a"
definition whitenerMask :: u32 where "whitenerMask = 0x1000000 - 1"

type_synonym Timestamp = bytes

definition time_Unix :: "int \<Rightarrow> int" where "time_Unix t = t div 1000000000"
definition time_Nanosecond :: "int \<Rightarrow> int" where "time_Nanosecond t = t mod 1000000000"

definition stamp :: "int \<Rightarrow> Timestamp" where
  "stamp t =
     (let secs = base + word_of_int (time_Unix t);
          nano = (word_of_int (time_Nanosecond t) :: u32) AND NOT whitenerMask
      in be_bytes 8 (unat secs) @ be_bytes 4 (unat nano))"

text \<open>\<open>bytes.Compare\<close>: negative, zero or positive.\<close>

fun bytes_Compare :: "bytes \<Rightarrow> bytes \<Rightarrow> int" where
  "bytes_Compare [] [] = 0"
| "bytes_Compare [] (b # bs) = -1"
| "bytes_Compare (a # as) [] = 1"
| "bytes_Compare (a # as) (b # bs) =
     (if a < b then -1 else if b < a then 1 else bytes_Compare as bs)"

definition After :: "Timestamp \<Rightarrow> Timestamp \<Rightarrow> bool" where
  "After t1 t2 = (bytes_Compare t1 t2 > 0)"

text \<open>The instant that \<open>String\<close> prints, again in nanoseconds since the epoch.\<close>

definition String_time :: "Timestamp \<Rightarrow> int" where
  "String_time t =
     sint (of_nat (be_nat (take 8 t)) - base) * 1000000000 + int (be_nat (slice 8 12 t))"

section \<open>Order of timestamps\<close>

text \<open>Among byte strings of one length \<open>bytes.Compare\<close> is the order of the numbers they denote.\<close>

lemma be_digit_less:
  fixes x y :: byte
  assumes "x < y" "u < 256 ^ n"
  shows "unat x * 256 ^ n + u < unat y * 256 ^ n + v"
proof -
  have "(unat x + 1) * 256 ^ n \<le> unat y * 256 ^ n"
    using assms(1) by (intro mult_le_mono1) (simp add: word_less_nat_alt)
  then show ?thesis using assms(2) by simp
qed

lemma bytes_Compare_be_nat:
  "length xs = length ys \<Longrightarrow> bytes_Compare xs ys = sgn (int (be_nat xs) - int (be_nat ys))"
proof (induction xs ys rule: bytes_Compare.induct)
  case (4 a as b bs)
  show ?case
  proof (cases a b rule: linorder_cases)
    case less
    then have "be_nat (a # as) < be_nat (b # bs)"
      using 4(2) be_digit_less [OF less be_nat_less [of as]] by simp
    then show ?thesis using less by (simp del: be_nat.simps)
  next
    case equal
    then show ?thesis using 4 by simp
  next
    case greater
    then have "be_nat (b # bs) < be_nat (a # as)"
      using 4(2) be_digit_less [OF greater be_nat_less [of bs]] by simp
    then show ?thesis using greater by (simp del: be_nat.simps)
  qed
qed auto

text \<open>The instant a stamp carries: the nanoseconds are rounded down to a multiple of \<open>2 ^ 24\<close>.\<close>

definition whitened :: "int \<Rightarrow> int" where
  "whitened t = time_Unix t * 1000000000 + time_Nanosecond t div 2 ^ 24 * 2 ^ 24"

text \<open>From 1970 until the seconds leave 62 bits.\<close>

definition stampable :: "int \<Rightarrow> bool" where
  "stampable t = (0 \<le> t \<and> time_Unix t < 2 ^ 62)"

definition nano_part :: "int \<Rightarrow> nat" where
  "nano_part t = nat (time_Nanosecond t) div 2 ^ 24 * 2 ^ 24"

lemma whitener_nano: "unat ((word_of_int (time_Nanosecond t) :: u32) AND NOT whitenerMask) = nano_part t"
proof -
  have m: "whitenerMask = mask 24" by (simp add: whitenerMask_def mask_eq_decr_exp)
  have n: "unat (word_of_int (time_Nanosecond t) :: u32) = nat (time_Nanosecond t)"
    by (simp add: unat_eq_nat_uint uint_word_of_int time_Nanosecond_def)
  show ?thesis unfolding m unat_and_not_mask n nano_part_def ..
qed

lemma unat_secs: "stampable t \<Longrightarrow> unat (base + word_of_int (time_Unix t)) = 2 ^ 62 + 10 + nat (time_Unix t)"
proof -
  assume "stampable t"
  then have b: "0 \<le> time_Unix t" "time_Unix t < 2 ^ 62"
    by (auto simp: stampable_def time_Unix_def)
  then have "unat (word_of_int (time_Unix t) :: u64) = nat (time_Unix t)"
    by (simp add: unat_eq_nat_uint uint_word_of_int)
  then show ?thesis using b by (simp add: base_def unat_word_ariths nat_less_iff)
qed

lemma nano_part_less: "nano_part t < 256 ^ 4"
proof -
  have "nano_part t \<le> nat (time_Nanosecond t)" by (simp add: nano_part_def)
  also have "\<dots> < 1000000000" by (simp add: time_Nanosecond_def nat_less_iff)
  finally show ?thesis by simp
qed

lemma stamp_parts:
  assumes "stampable t"
  shows "be_nat (take 8 (stamp t)) = 2 ^ 62 + 10 + nat (time_Unix t)"
    and "be_nat (slice 8 12 (stamp t)) = nano_part t"
    and "be_nat (stamp t) = (2 ^ 62 + 10 + nat (time_Unix t)) * 256 ^ 4 + nano_part t"
proof -
  have lt: "2 ^ 62 + 10 + nat (time_Unix t) < 256 ^ 8"
  proof -
    have "time_Unix t < 2 ^ 62" "0 \<le> time_Unix t"
      using assms by (auto simp: stampable_def time_Unix_def)
    then show ?thesis by simp
  qed
  show "be_nat (take 8 (stamp t)) = 2 ^ 62 + 10 + nat (time_Unix t)"
    using lt by (simp add: stamp_def unat_secs [OF assms] be_nat_be_bytes)
  show "be_nat (slice 8 12 (stamp t)) = nano_part t"
    using nano_part_less [of t]
    by (simp add: stamp_def Let_def slice_def whitener_nano be_nat_be_bytes)
  show "be_nat (stamp t) = (2 ^ 62 + 10 + nat (time_Unix t)) * 256 ^ 4 + nano_part t"
    using lt nano_part_less [of t]
    by (simp only: stamp_def Let_def be_nat_append unat_secs [OF assms] whitener_nano
        be_nat_be_bytes length_be_bytes mod_less)
qed

lemma nano_part_int: "int (nano_part t) = time_Nanosecond t div 2 ^ 24 * 2 ^ 24"
  by (simp add: nano_part_def time_Nanosecond_def zdiv_int)

lemma whitened_nano: "whitened t = time_Unix t * 1000000000 + int (nano_part t)"
  by (simp add: whitened_def nano_part_int)

lemma nano_part_bound: "int (nano_part t) < 1000000000"
proof -
  have "time_Nanosecond t div 2 ^ 24 * 2 ^ 24 \<le> time_Nanosecond t"
    by (simp add: minus_mod_eq_div_mult [symmetric])
  then show ?thesis unfolding nano_part_int
    using pos_mod_bound [of 1000000000 t] by (simp add: time_Nanosecond_def)
qed

lemma two_digit_less:
  fixes a b :: int
  assumes "0 \<le> x" "x < B" "0 \<le> y" "y < B"
  shows "(a * B + x < b * B + y) = (a < b \<or> a = b \<and> x < y)"
proof (cases a b rule: linorder_cases)
  case less
  then have "(a + 1) * B \<le> b * B" using assms by (intro mult_right_mono) auto
  then show ?thesis using less assms by (simp add: algebra_simps)
next
  case equal
  then show ?thesis by simp
next
  case greater
  then have "(b + 1) * B \<le> a * B" using assms by (intro mult_right_mono) auto
  then show ?thesis using greater assms by (simp add: algebra_simps)
qed

lemma After_whitened:
  assumes "stampable t" "stampable u"
  shows "After (stamp t) (stamp u) = (whitened u < whitened t)"
proof -
  have nn: "0 \<le> time_Unix t" "0 \<le> time_Unix u"
    using assms by (auto simp: stampable_def time_Unix_def)
  have len: "length (stamp t) = length (stamp u)" by (simp add: stamp_def Let_def)
  have v: "int (be_nat (stamp x)) = (2 ^ 62 + 10 + time_Unix x) * 2 ^ 32 + int (nano_part x)"
    if "stampable x" "0 \<le> time_Unix x" for x
    using that by (simp add: stamp_parts)
  have b: "0 \<le> int (nano_part x) \<and> int (nano_part x) < 2 ^ 32 \<and> int (nano_part x) < 1000000000" for x
    using nano_part_bound [of x] by simp
  have "After (stamp t) (stamp u) = (int (be_nat (stamp u)) < int (be_nat (stamp t)))"
    by (simp add: After_def bytes_Compare_be_nat [OF len] sgn_if)
  also have "\<dots> = (time_Unix u < time_Unix t \<or> time_Unix u = time_Unix t \<and> nano_part u < nano_part t)"
    unfolding v [OF assms(1) nn(1)] v [OF assms(2) nn(2)] using b by (subst two_digit_less) auto
  also have "\<dots> = (whitened u < whitened t)"
    unfolding whitened_nano using b by (subst two_digit_less) auto
  finally show ?thesis .
qed

lemma whitened_le: "whitened t \<le> t \<and> t < whitened t + 2 ^ 24"
proof -
  have "t = time_Unix t * 1000000000 + time_Nanosecond t"
    by (simp add: time_Unix_def time_Nanosecond_def)
  moreover have "time_Nanosecond t = time_Nanosecond t div 2 ^ 24 * 2 ^ 24 + time_Nanosecond t mod 2 ^ 24"
    by simp
  moreover have "0 \<le> time_Nanosecond t mod 2 ^ 24" "time_Nanosecond t mod 2 ^ 24 < 2 ^ 24"
    by simp_all
  ultimately show ?thesis unfolding whitened_def by linarith
qed

lemma whitened_mono: "t \<le> u \<Longrightarrow> whitened t \<le> whitened u"
proof -
  assume le: "t \<le> u"
  show ?thesis
  proof (cases "time_Unix t = time_Unix u")
    case True
    then have "time_Nanosecond t \<le> time_Nanosecond u"
      using le div_mult_mod_eq [of t 1000000000] div_mult_mod_eq [of u 1000000000]
      unfolding time_Unix_def time_Nanosecond_def by linarith
    then have "time_Nanosecond t div 2 ^ 24 \<le> time_Nanosecond u div 2 ^ 24"
      by (rule zdiv_mono1) simp
    then show ?thesis using True by (simp add: whitened_def)
  next
    case False
    then have "time_Unix t < time_Unix u"
      using zdiv_mono1 [OF le, of 1000000000] by (simp add: time_Unix_def)
    then have "time_Unix t * 1000000000 + 1000000000 \<le> time_Unix u * 1000000000" by simp
    then show ?thesis using nano_part_bound [of t] unfolding whitened_nano by linarith
  qed
qed

section \<open>Properties\<close>

text \<open>C6: The order of stamps follows the clock. A stamp taken later is never before one taken
  earlier, and once the clocks are \<open>2 ^ 24\<close> nanoseconds (about 17 milliseconds) apart it is
  strictly after it, although the low 24 bits of the nanoseconds are whitened away.\<close>

theorem stamp_order:
  assumes "stampable t" "stampable u" "t \<le> u"
  shows "\<not> After (stamp t) (stamp u) \<and> (2 ^ 24 \<le> u - t \<longrightarrow> After (stamp u) (stamp t))"
  using After_whitened [OF assms(1,2)] After_whitened [OF assms(2,1)] whitened_mono [OF assms(3)]
    whitened_le [of t] whitened_le [of u] by linarith

theorem stamp_order_witness:
  "stampable 1700000000000000000 \<and> stampable 1700000000016777216 \<and>
   After (stamp 1700000000016777216) (stamp 1700000000000000000)"
  using stamp_order [of 1700000000000000000 1700000000016777216]
  by (simp add: stampable_def time_Unix_def)

text \<open>C7: The stamp is 12 bytes long, and the instant \<open>String\<close> prints for it is the time it was
  made from with the nanoseconds rounded down to a multiple of \<open>2 ^ 24\<close>.\<close>

theorem stamp_roundtrip:
  assumes "stampable t"
  shows "length (stamp t) = TimestampSize \<and> String_time (stamp t) = whitened t"
proof -
  have b: "0 \<le> time_Unix t" "time_Unix t < 2 ^ 62"
    using assms by (auto simp: stampable_def time_Unix_def)
  have "of_nat (2 ^ 62 + 10 + nat (time_Unix t)) - base = word_of_int (time_Unix t)"
    using b by (simp add: base_def)
  moreover have "sint (word_of_int (time_Unix t) :: u64) = time_Unix t"
    using b by (simp add: sint_sbintrunc' signed_take_bit_int_eq_self)
  ultimately show ?thesis
    unfolding String_time_def stamp_parts [OF assms]
    by (simp add: whitened_nano TimestampSize_def stamp_def Let_def)
qed

theorem stamp_roundtrip_witness:
  "stampable 1700000000123456789 \<and>
   String_time (stamp 1700000000123456789) = whitened 1700000000123456789"
  using stamp_roundtrip [of 1700000000123456789] by (simp add: stampable_def time_Unix_def)

end
