(* ===== verification/Ip_Bits.thy ===== *)
theory Ip_Bits
  imports Vwarp_Prelude "HOL-Library.Sublist"
begin

text \<open>
  Addresses as bit strings. \<open>ip_bits\<close> is the bit sequence of a byte slice, most
  significant bit first; the slice primitives of the Go library that routing uses
  (\<open>bits.LeadingZeros\<close>, \<open>net.CIDRMask\<close>) are modelled here and related to it.
\<close>

section \<open>Bits of a byte slice\<close>

definition ip_bits :: "bytes \<Rightarrow> bool list" where
  "ip_bits bs = map (\<lambda>i. bit (bs ! (i div 8)) (7 - i mod 8)) [0 ..< 8 * length bs]"

lemma length_ip_bits [simp]: "length (ip_bits bs) = 8 * length bs"
  by (simp add: ip_bits_def)

lemma nth_ip_bits [simp]:
  "i < 8 * length bs \<Longrightarrow> ip_bits bs ! i = bit (bs ! (i div 8)) (7 - i mod 8)"
  by (simp add: ip_bits_def)

lemma ip_bits_append: "ip_bits (xs @ ys) = ip_bits xs @ ip_bits ys"
proof (rule nth_equalityI)
  show "length (ip_bits (xs @ ys)) = length (ip_bits xs @ ip_bits ys)" by simp
next
  fix i
  assume "i < length (ip_bits (xs @ ys))"
  then have i: "i < 8 * length (xs @ ys)" by simp
  show "ip_bits (xs @ ys) ! i = (ip_bits xs @ ip_bits ys) ! i"
  proof (cases "i < 8 * length xs")
    case True
    then have "i div 8 < length xs" by auto
    then show ?thesis using True i
      by (simp only: nth_ip_bits nth_append length_ip_bits if_True)
  next
    case False
    then obtain j where j: "i = j + length xs * 8" by (metis add.commute le_Suc_ex mult.commute not_less)
    then have jl: "j < 8 * length ys" using i by simp
    have "i div 8 = length xs + j div 8" "i mod 8 = j mod 8" by (simp_all add: j)
    moreover have "i - 8 * length xs = j" using j by simp
    ultimately show ?thesis using False i jl
      by (simp only: nth_ip_bits nth_append length_ip_bits if_False not_add_less1 add_diff_cancel_left')
  qed
qed

lemma ip_bits_take: "ip_bits (take n bs) = take (8 * n) (ip_bits bs)"
proof (cases "n \<le> length bs")
  case True
  then show ?thesis
    using ip_bits_append [of "take n bs" "drop n bs"] by (simp add: min_def)
qed (simp)

lemma ip_bits_drop: "ip_bits (drop n bs) = drop (8 * n) (ip_bits bs)"
proof (cases "n \<le> length bs")
  case True
  then show ?thesis
    using ip_bits_append [of "take n bs" "drop n bs"] by (simp add: min_def)
next
  case False
  then show ?thesis by (simp add: ip_bits_def)
qed

lemma ip_bits_inject: "length as = length bs \<Longrightarrow> ip_bits as = ip_bits bs \<Longrightarrow> as = bs"
proof (rule nth_equalityI)
  fix i
  assume len: "length as = length bs" and eq: "ip_bits as = ip_bits bs" and i: "i < length as"
  show "as ! i = bs ! i"
  proof (rule bit_word_eqI)
    fix n
    assume "n < LENGTH(8)"
    then have n: "n < 8" by simp
    define m where "m = 7 - n"
    have m: "m < 8" "7 - m = n" using n by (auto simp: m_def)
    let ?j = "m + i * 8"
    have j: "?j < 8 * length as" using i m by simp
    then have "ip_bits as ! ?j = ip_bits bs ! ?j" using eq by simp
    moreover have "?j div 8 = i" "7 - ?j mod 8 = n"
using m by simp_all
    ultimately show "bit (as ! i) n = bit (bs ! i) n" using j len by simp
  qed
qed

lemma bit_shifted_sum:
  fixes x y :: nat
  assumes "y < 2 ^ n"
  shows "bit (x * 2 ^ n + y) k = (if k < n then bit y k else bit x (k - n))"
proof (cases "k < n")
  case True
  then obtain d where n: "n = k + Suc d" using less_iff_Suc_add by auto
  have "(x * 2 ^ n + y) div 2 ^ k = 2 * (x * 2 ^ d) + y div 2 ^ k"
  proof -
    have "x * 2 ^ n + y = y + (2 * (x * 2 ^ d)) * 2 ^ k" by (simp add: n power_add)
    then show ?thesis by (simp only: div_mult_self1) simp
  qed
  then show ?thesis using True by (simp add: bit_nat_def)
next
  case False
  then obtain d where k: "k = n + d" by (metis le_iff_add not_less)
  have "(x * 2 ^ n + y) div 2 ^ k = x div 2 ^ d"
    using assms by (simp add: k power_add div_mult2_eq)
  then show ?thesis using False by (simp add: bit_nat_def k)
qed

lemma bit_be_nat:
  "k < 8 * length bs \<Longrightarrow> bit (be_nat bs) k = bit (bs ! (length bs - 1 - k div 8)) (k mod 8)"
proof (induction bs)
  case Nil
  then show ?case by simp
next
  case (Cons b bs)
  have less: "be_nat bs < 2 ^ (8 * length bs)"
    using be_nat_less [of bs] by (simp add: power_mult)
  have eq: "bit (be_nat (b # bs)) k =
      (if k < 8 * length bs then bit (be_nat bs) k else bit (unat b) (k - 8 * length bs))"
    using bit_shifted_sum [OF less, of "unat b" k] by (simp add: power_mult)
  show ?case
  proof (cases "k < 8 * length bs")
    case True
    then have "k div 8 < length bs" by auto
    then have "length bs - k div 8 = Suc (length bs - 1 - k div 8)" by simp
    then show ?thesis using eq True Cons.IH by simp
  next
    case False
    define m where "m = length bs"
    have "8 * m \<le> k" "k < 8 * m + 8" using False Cons.prems by (simp_all add: m_def)
    then obtain r where r: "k = r + m * 8" "r < 8" by (metis add.commute le_Suc_ex mult.commute nat_add_left_cancel_less)
    then have "k div 8 = length bs" "k mod 8 = k - 8 * length bs" by (simp_all add: m_def)
    then show ?thesis using eq False by (simp add: bit_unsigned_iff)
  qed
qed

section \<open>Leading zeros and common prefixes\<close>

text \<open>\<open>bits.LeadingZeros32\<close> and \<open>bits.LeadingZeros64\<close>: the run of zeros from the top bit.\<close>

fun leading_zeros :: "nat \<Rightarrow> 'a::len word \<Rightarrow> nat" where
  "leading_zeros 0 w = 0"
| "leading_zeros (Suc n) w = (if bit w n then 0 else Suc (leading_zeros n w))"

definition LeadingZeros32 :: "u32 \<Rightarrow> nat" where "LeadingZeros32 x = leading_zeros 32 x"
definition LeadingZeros64 :: "u64 \<Rightarrow> nat" where "LeadingZeros64 x = leading_zeros 64 x"

lemma leading_zeros_ge: "c \<le> n \<Longrightarrow> (c \<le> leading_zeros n w) = (\<forall>i < c. \<not> bit w (n - 1 - i))"
proof (induction n arbitrary: c)
  case 0
  then show ?case by simp
next
  case (Suc n)
  show ?case
  proof (cases c)
    case 0
    then show ?thesis by simp
  next
    case (Suc d)
    have "(\<forall>i < Suc d. \<not> bit w (n - i)) = (\<not> bit w n \<and> (\<forall>i < d. \<not> bit w (n - Suc i)))"
      by (simp add: All_less_Suc2)
    then show ?thesis using Suc.IH [of d] \<open>c \<le> Suc n\<close> Suc by simp
  qed
qed

lemma leading_zeros_le: "leading_zeros n w \<le> n"
  by (induction n) auto

section \<open>Masks\<close>

text \<open>\<open>net.CIDRMask(ones, 8*l)\<close>, byte by byte.\<close>

fun CIDRMask :: "nat \<Rightarrow> nat \<Rightarrow> bytes" where
  "CIDRMask n 0 = []"
| "CIDRMask n (Suc l) =
     (if n \<ge> 8 then 0xff # CIDRMask (n - 8) l else NOT (drop_bit n 0xff) # CIDRMask 0 l)"

definition and_bytes :: "bytes \<Rightarrow> bytes \<Rightarrow> bytes" where
  "and_bytes as bs = map2 (AND) as bs"

lemma length_CIDRMask [simp]: "length (CIDRMask n l) = l"
  by (induction l arbitrary: n) auto

lemma length_and_bytes [simp]: "length (and_bytes as bs) = min (length as) (length bs)"
  by (simp add: and_bytes_def)

lemma bit_ff: "bit (0xff :: byte) k = (k < 8)"
proof -
  have "(0xff :: byte) = mask 8" by (simp add: mask_eq_decr_exp)
  then show ?thesis by (simp only: bit_mask_iff) simp
qed

lemma bit_not_shift_ff: "i < 8 \<Longrightarrow> bit (NOT (drop_bit n 0xff) :: byte) (7 - i) = (i < n)"
  unfolding bit_not_iff bit_drop_bit_eq comp_def bit_ff by auto

lemma bit_CIDRMask:
  "i < 8 * l \<Longrightarrow> bit (CIDRMask n l ! (i div 8)) (7 - i mod 8) = (i < n)"
proof (induction l arbitrary: n i)
  case 0
  then show ?case by simp
next
  case (Suc l)
  show ?case
  proof (cases "i < 8")
    case True
    then have "bit (0xff :: byte) (7 - i)" by (simp only: bit_ff)
    then have "bit ((if 8 \<le> n then 0xff else NOT (drop_bit n 0xff)) :: byte) (7 - i) = (i < n)"
    proof (cases "8 \<le> n")
      case large: True
      then have "i < n" using True by linarith
      then show ?thesis using large \<open>bit (0xff :: byte) (7 - i)\<close> by (simp only: if_True)
    next
      case False
      then show ?thesis using bit_not_shift_ff [OF True, of n] by (simp only: if_False)
    qed
    moreover have "CIDRMask n (Suc l) ! 0 = (if 8 \<le> n then 0xff else NOT (drop_bit n 0xff))"
      by (simp only: CIDRMask.simps nth_Cons_0 if_distrib [where f = "\<lambda>x. x ! 0"])
    ultimately show ?thesis using True by (simp only: div_less mod_less)
  next
    case False
    define j where "j = i - 8"
    have i: "i = j + 8" using False by (simp add: j_def)
    then have d: "i div 8 = Suc (j div 8)" "i mod 8 = j mod 8" by simp_all
    have j: "j < 8 * l" using Suc.prems i by (simp only: mult_Suc_right)
    show ?thesis
    proof (cases "8 \<le> n")
      case True
      have "(j < n - 8) = (i < n)" using i by linarith
      then show ?thesis using Suc.IH [OF j, of "n - 8"] True
        by (simp only: d CIDRMask.simps if_True nth_Cons_Suc)
    next
      case small: False
      have "(j < 0) = (i < n)" using i small by linarith
      then show ?thesis using Suc.IH [OF j, of 0] small
        by (simp only: d CIDRMask.simps if_False nth_Cons_Suc)
    qed
  qed
qed

lemma bit_and_bytes:
  "k < length as \<Longrightarrow> k < length bs \<Longrightarrow> bit (and_bytes as bs ! k) m = (bit (as ! k) m \<and> bit (bs ! k) m)"
  by (simp add: and_bytes_def bit_and_iff)

lemma ip_bits_masked:
  assumes "c \<le> 8 * length bs"
  shows "ip_bits (and_bytes bs (CIDRMask c (length bs))) =
     take c (ip_bits bs) @ replicate (8 * length bs - c) False"
proof (rule nth_equalityI)
  show "length (ip_bits (and_bytes bs (CIDRMask c (length bs)))) =
      length (take c (ip_bits bs) @ replicate (8 * length bs - c) False)"
    using assms by simp
next
  fix i
  assume "i < length (ip_bits (and_bytes bs (CIDRMask c (length bs))))"
  then have i: "i < 8 * length bs" by simp
  then have "i div 8 < length bs" by auto
  then have "ip_bits (and_bytes bs (CIDRMask c (length bs))) ! i = (ip_bits bs ! i \<and> i < c)"
    using i by (simp only: nth_ip_bits length_and_bytes length_CIDRMask min.idem
        bit_and_bytes bit_CIDRMask [OF i])
  also have "\<dots> = (take c (ip_bits bs) @ replicate (8 * length bs - c) False) ! i"
    using i assms by (cases "i < c") (simp_all add: nth_append min_def del: nth_ip_bits)
  finally show "ip_bits (and_bytes bs (CIDRMask c (length bs))) ! i =
      (take c (ip_bits bs) @ replicate (8 * length bs - c) False) ! i" .
qed

lemma leading_zeros_full:
  fixes x :: "'a::len word"
  shows "(LENGTH('a) \<le> leading_zeros LENGTH('a) x) = (x = 0)"
proof
  assume "LENGTH('a) \<le> leading_zeros LENGTH('a) x"
  then have *: "\<forall>i < LENGTH('a). \<not> bit x (LENGTH('a) - 1 - i)" by (simp add: leading_zeros_ge)
  show "x = 0"
  proof (rule bit_word_eqI)
    fix i
    assume "i < LENGTH('a)"
    then have "LENGTH('a) - 1 - i < LENGTH('a)" "LENGTH('a) - 1 - (LENGTH('a) - 1 - i) = i" by auto
    then show "bit x i = bit 0 i" using * by (metis bit_0_eq bot_apply bot_bool_def)
  qed
qed (simp add: leading_zeros_ge)

section \<open>Addresses\<close>

text \<open>\<open>netip.Addr\<close>: the zero value, an IPv4 address of 4 bytes or an IPv6 address of 16 bytes.\<close>

datatype Addr = AddrZero | Addr4 bytes | Addr6 bytes

fun addr_ok :: "Addr \<Rightarrow> bool" where
  "addr_ok AddrZero = False"
| "addr_ok (Addr4 b) = (length b = 4)"
| "addr_ok (Addr6 b) = (length b = 16)"

fun AsSlice :: "Addr \<Rightarrow> bytes" where
  "AsSlice AddrZero = []"
| "AsSlice (Addr4 b) = b"
| "AsSlice (Addr6 b) = b"

definition AddrFromSlice :: "bytes \<Rightarrow> Addr option" where
  "AddrFromSlice b =
     (if length b = 4 then Some (Addr4 b) else if length b = 16 then Some (Addr6 b) else None)"

lemma AddrFromSlice_AsSlice: "addr_ok a \<Longrightarrow> AddrFromSlice (AsSlice a) = Some a"
  by (cases a) (auto simp: AddrFromSlice_def)

text \<open>\<open>netip.Prefix\<close>.\<close>

record Prefix =
  pAddr :: Addr
  pBits :: nat

definition prefix_ok :: "Prefix \<Rightarrow> bool" where
  "prefix_ok p = (addr_ok (pAddr p) \<and> pBits p \<le> 8 * length (AsSlice (pAddr p)))"

end
