(* ===== verification/AllowedIPs.thy ===== *)
theory AllowedIPs
  imports Ip_Bits
begin

text \<open>
  \<open>wireguard/device/allowedips.go\<close>: cryptokey routing. A compressed binary trie maps
  prefixes to peers; every peer also keeps the list of its nodes. A pointer to a node is the
  path of child indices that leads to it, so an assignment through \<open>*parentBit\<close> is an
  update of the trie at that path; a node is identified in a peer's list by its masked bits
  and its length. The tries are related to the map from prefixes to peers, and lookup to the
  longest matching prefix.
\<close>

section \<open>Tries\<close>

datatype 'p trieEntry =
    Nilp
  | Node (peer: "'p option") (bits: bytes) (cidr: nat) (child0: "'p trieEntry") (child1: "'p trieEntry")

definition commonBits :: "bytes \<Rightarrow> bytes \<Rightarrow> nat" where
  "commonBits ip1 ip2 =
     (let size = length ip1 in
      if size = 4 then
        (let a = of_nat (be_nat ip1) :: u32; b = of_nat (be_nat ip2)
         in LeadingZeros32 (a XOR b))
      else
        (let a = of_nat (be_nat (take 8 ip1)) :: u64; b = of_nat (be_nat (take 8 ip2));
             x = a XOR b
         in if x \<noteq> 0 then LeadingZeros64 x
            else let a = of_nat (be_nat (slice 8 16 ip1)) :: u64; b = of_nat (be_nat (slice 8 16 ip2))
                 in 64 + LeadingZeros64 (a XOR b)))"

text \<open>\<open>choose\<close> of a node with prefix length \<open>c\<close>; \<open>bitAtByte\<close> and \<open>bitAtShift\<close> are computed from \<open>c\<close>.\<close>

definition bitAtByte :: "nat \<Rightarrow> nat" where "bitAtByte c = c div 8"
definition bitAtShift :: "nat \<Rightarrow> nat" where "bitAtShift c = 7 - c mod 8"

definition choose_bit :: "nat \<Rightarrow> bytes \<Rightarrow> bool" where
  "choose_bit c ip = (drop_bit (bitAtShift c) (ip ! bitAtByte c) AND 1 = 1)"

definition maskSelf :: "nat \<Rightarrow> bytes \<Rightarrow> bytes" where
  "maskSelf c ip = and_bytes ip (CIDRMask c (length ip))"

definition new_node :: "'p option \<Rightarrow> bytes \<Rightarrow> nat \<Rightarrow> 'p trieEntry" where
  "new_node p ip c = Node p (maskSelf c ip) c Nilp Nilp"

fun child :: "bool \<Rightarrow> 'p trieEntry \<Rightarrow> 'p trieEntry" where
  "child b Nilp = Nilp"
| "child b (Node p bs c l r) = (if b then r else l)"

fun set_child :: "bool \<Rightarrow> 'p trieEntry \<Rightarrow> 'p trieEntry \<Rightarrow> 'p trieEntry" where
  "set_child b x Nilp = Nilp"
| "set_child b x (Node p bs c l r) = (if b then Node p bs c l x else Node p bs c x r)"

fun set_peer :: "'p option \<Rightarrow> 'p trieEntry \<Rightarrow> 'p trieEntry" where
  "set_peer q Nilp = Nilp"
| "set_peer q (Node p bs c l r) = Node q bs c l r"

fun subtree :: "bool list \<Rightarrow> 'p trieEntry \<Rightarrow> 'p trieEntry" where
  "subtree [] t = t"
| "subtree (b # path) t = subtree path (child b t)"

fun put :: "bool list \<Rightarrow> 'p trieEntry \<Rightarrow> 'p trieEntry \<Rightarrow> 'p trieEntry" where
  "put [] x t = x"
| "put (b # path) x t = set_child b (put path x (child b t)) t"

text \<open>
  \<open>nodePlacement\<close> returns the deepest node whose prefix covers the new one (\<open>None\<close> for a
  nil pointer) and whether it is the same prefix.
\<close>

fun nodePlacement :: "'p trieEntry \<Rightarrow> bytes \<Rightarrow> nat \<Rightarrow> bool list option \<times> bool" where
  "nodePlacement Nilp ip c = (None, False)"
| "nodePlacement (Node p bs cn l r) ip c =
     (if cn \<le> c \<and> commonBits bs ip \<ge> cn then
        if cn = c then (Some [], True)
        else let b = choose_bit cn ip;
                 (parent, exact) = nodePlacement (if b then r else l) ip c
             in (case parent of None \<Rightarrow> (Some [], exact) | Some path \<Rightarrow> (Some (b # path), exact))
      else (None, False))"

definition trie_insert :: "'p trieEntry \<Rightarrow> bytes \<Rightarrow> nat \<Rightarrow> 'p \<Rightarrow> 'p trieEntry" where
  "trie_insert t ip c p =
     (if t = Nilp then new_node (Some p) ip c
      else case nodePlacement t ip c of
        (Some path, True) \<Rightarrow> put path (set_peer (Some p) (subtree path t)) t
      | (parent, _) \<Rightarrow>
          let newNode = new_node (Some p) ip c;
              slot = (case parent of
                        None \<Rightarrow> []
                      | Some path \<Rightarrow> path @ [choose_bit (cidr (subtree path t)) ip]);
              down = subtree slot t
          in if down = Nilp then put slot newNode t
             else
               let common = commonBits (bits down) ip;
                   c' = (if common < c then common else c);
                   slot_of = (\<lambda>n. case parent of
                                None \<Rightarrow> []
                              | Some path \<Rightarrow> path @ [choose_bit (cidr (subtree path t)) (bits n)])
               in if cidr newNode = c' then
                    (let n = set_child (choose_bit (cidr newNode) (bits down)) down newNode
                     in put (slot_of newNode) n t)
                  else
                    (let node = new_node None (bits newNode) c';
                         n = set_child (choose_bit (cidr node) (bits down)) down node;
                         n' = set_child (choose_bit (cidr node) (bits newNode)) newNode n
                     in put (slot_of node) n' t))"

fun lookup_from :: "'p option \<Rightarrow> 'p trieEntry \<Rightarrow> bytes \<Rightarrow> 'p option" where
  "lookup_from found Nilp ip = found"
| "lookup_from found (Node p bs c l r) ip =
     (if commonBits bs ip \<ge> c then
        let found' = (if p \<noteq> None then p else found) in
        if bitAtByte c = length ip then found'
        else lookup_from found' (if choose_bit c ip then r else l) ip
      else found)"

definition lookup :: "'p trieEntry \<Rightarrow> bytes \<Rightarrow> 'p option" where
  "lookup t ip = lookup_from None t ip"

text \<open>
  One round of the loop of \<open>RemoveByPeer\<close>, for the node at \<open>path\<close>: the node loses its peer
  and, unless it still separates two subtries, gives way to its only child; when it was a
  leaf below a node that has no peer of its own, that node gives way to its other child.
\<close>

definition remove_node :: "bool list \<Rightarrow> 'p trieEntry \<Rightarrow> 'p trieEntry" where
  "remove_node path t =
     (let node = subtree path t;
          t1 = put path (set_peer None node) t
      in if child False node \<noteq> Nilp \<and> child True node \<noteq> Nilp then t1
         else
           let bit = (child False node = Nilp);
               ch = child bit node;
               t2 = put path ch t1
           in if child False node \<noteq> Nilp \<or> child True node \<noteq> Nilp \<or> path = [] then t2
              else
                let ppath = butlast path;
                    parent = subtree ppath t2
                in if peer parent \<noteq> None then t2
                   else put ppath (child (\<not> last path) parent) t2)"

section \<open>The table\<close>

text \<open>
  Both tries, and for every peer the list \<open>trieEntries\<close> of its nodes in both.
\<close>

record 'p AllowedIPs =
  IPv4 :: "'p trieEntry"
  IPv6 :: "'p trieEntry"
  trieEntries :: "'p \<Rightarrow> (bytes \<times> nat) list"

definition zero_AllowedIPs :: "'p AllowedIPs" where
  "zero_AllowedIPs = \<lparr>IPv4 = Nilp, IPv6 = Nilp, trieEntries = (\<lambda>_. [])\<rparr>"

definition addToPeerEntries ::
  "'p \<Rightarrow> bytes \<times> nat \<Rightarrow> ('p \<Rightarrow> (bytes \<times> nat) list) \<Rightarrow> 'p \<Rightarrow> (bytes \<times> nat) list" where
  "addToPeerEntries p node es = es(p := es p @ [node])"

definition removeFromPeerEntries ::
  "'p option \<Rightarrow> bytes \<times> nat \<Rightarrow> ('p \<Rightarrow> (bytes \<times> nat) list) \<Rightarrow> 'p \<Rightarrow> (bytes \<times> nat) list" where
  "removeFromPeerEntries q node es =
     (case q of None \<Rightarrow> es | Some p \<Rightarrow> es(p := remove1 node (es p)))"

text \<open>The effect of \<open>insert\<close> on the lists: a node that changes hands leaves the old peer's list.\<close>

definition insert_entries ::
  "'p trieEntry \<Rightarrow> bytes \<Rightarrow> nat \<Rightarrow> 'p \<Rightarrow> ('p \<Rightarrow> (bytes \<times> nat) list) \<Rightarrow> 'p \<Rightarrow> (bytes \<times> nat) list" where
  "insert_entries t ip c p es =
     (case nodePlacement t ip c of
        (Some path, True) \<Rightarrow>
          (let node = subtree path t
           in addToPeerEntries p (bits node, cidr node)
                (removeFromPeerEntries (peer node) (bits node, cidr node) es))
      | _ \<Rightarrow> addToPeerEntries p (maskSelf c ip, c) es)"

definition Insert :: "Prefix \<Rightarrow> 'p \<Rightarrow> 'p AllowedIPs \<Rightarrow> 'p AllowedIPs option" where
  "Insert pfx p a =
     (case pAddr pfx of
        Addr6 ip \<Rightarrow>
          Some (a\<lparr>IPv6 := trie_insert (IPv6 a) ip (pBits pfx) p,
                  trieEntries := insert_entries (IPv6 a) ip (pBits pfx) p (trieEntries a)\<rparr>)
      | Addr4 ip \<Rightarrow>
          Some (a\<lparr>IPv4 := trie_insert (IPv4 a) ip (pBits pfx) p,
                  trieEntries := insert_entries (IPv4 a) ip (pBits pfx) p (trieEntries a)\<rparr>)
      | AddrZero \<Rightarrow> None)"

definition Lookup :: "bytes \<Rightarrow> 'p AllowedIPs \<Rightarrow> 'p option option" where
  "Lookup ip a =
     (if length ip = 16 then Some (lookup (IPv6 a) ip)
      else if length ip = 4 then Some (lookup (IPv4 a) ip)
      else None)"

text \<open>The path of the node that a list element points to.\<close>

fun node_path :: "'p trieEntry \<Rightarrow> bytes \<Rightarrow> nat \<Rightarrow> bool list option" where
  "node_path Nilp bs c = None"
| "node_path (Node p bs' c' l r) bs c =
     (if c' = c then if bs' = bs then Some [] else None
      else if c' < c then
        map_option ((#) (choose_bit c' bs)) (node_path (if choose_bit c' bs then r else l) bs c)
      else None)"

definition remove_entry :: "'p \<Rightarrow> bytes \<times> nat \<Rightarrow> 'p AllowedIPs \<Rightarrow> 'p AllowedIPs" where
  "remove_entry p node a =
     (let (bs, c) = node;
          prune = (\<lambda>t. case node_path t bs c of None \<Rightarrow> t | Some path \<Rightarrow> remove_node path t);
          a1 = a\<lparr>trieEntries := removeFromPeerEntries (Some p) node (trieEntries a)\<rparr>
      in if length bs = 16 then a1\<lparr>IPv6 := prune (IPv6 a)\<rparr> else a1\<lparr>IPv4 := prune (IPv4 a)\<rparr>)"

definition RemoveByPeer :: "'p \<Rightarrow> 'p AllowedIPs \<Rightarrow> 'p AllowedIPs" where
  "RemoveByPeer p a = fold (remove_entry p) (trieEntries a p) a"

text \<open>The prefixes passed to a callback that never stops the iteration.\<close>

definition EntriesForPeer :: "'p \<Rightarrow> 'p AllowedIPs \<Rightarrow> Prefix list" where
  "EntriesForPeer p a =
     map (\<lambda>(bs, c). \<lparr>pAddr = (if length bs = 4 then Addr4 bs else Addr6 bs), pBits = c\<rparr>)
       (trieEntries a p)"

section \<open>Bit-level facts\<close>

definition addr_len :: "nat \<Rightarrow> bool" where "addr_len n = (n = 4 \<or> n = 16)"

lemma choose_ip_bits: "c < 8 * length ip \<Longrightarrow> choose_bit c ip = ip_bits ip ! c"
  unfolding choose_bit_def bitAtByte_def bitAtShift_def
  by (simp add: ip_bits_def one_and_eq odd_iff_mod_2_eq_one and_one_eq bit_iff_odd_drop_bit)

lemma leading_zeros_xor:
  fixes a b :: bytes
  assumes len: "length a = n" "length b = n" and c: "c \<le> 8 * n" and w: "8 * n \<le> LENGTH('a::len)"
  shows "(c \<le> leading_zeros (8 * n) ((of_nat (be_nat a) :: 'a word) XOR of_nat (be_nat b))) =
    (take c (ip_bits a) = take c (ip_bits b))"
proof -
  have bit: "bit (of_nat (be_nat x) :: 'a word) (8 * n - Suc i) = ip_bits x ! i"
    if i: "i < 8 * n" and x: "length x = n" for i x
  proof -
    define k where "k = 8 * n - 1 - i"
    have k: "k < 8 * n" "i = 8 * n - 1 - k" using i by (auto simp: k_def)
    have "n - 1 - k div 8 = i div 8 \<and> k mod 8 = 7 - i mod 8"
    proof -
      define q r where "q = i div 8" and "r = i mod 8"
      have "i = q * 8 + r" "r < 8" by (simp_all add: q_def r_def)
      then have "q < n" using i by linarith
      then obtain m where m: "n = q + 1 + m" using less_iff_Suc_add by auto
      define s where "s = 7 - r"
      have s: "s < 8" "r = 7 - s" using \<open>r < 8\<close> by (auto simp: s_def)
      then have "k = s + m * 8" using \<open>i = q * 8 + r\<close> by (simp add: k_def m)
      then have "k div 8 = m" "k mod 8 = 7 - r" using s by simp_all
      then show ?thesis by (simp add: m q_def [symmetric] r_def [symmetric])
    qed
    then have "bit (be_nat x) k = ip_bits x ! i"
      using bit_be_nat [of k x] k(1) i x by simp
    moreover have "bit (of_nat (be_nat x) :: 'a word) k = bit (be_nat x) k"
      using k(1) w by (simp add: bit_of_nat_iff)
    ultimately show ?thesis by (simp add: k_def)
  qed
  have "(c \<le> leading_zeros (8 * n) ((of_nat (be_nat a) :: 'a word) XOR of_nat (be_nat b))) =
      (\<forall>i < c. ip_bits a ! i = ip_bits b ! i)"
    using c len by (auto simp: leading_zeros_ge bit_xor_iff bit simp del: nth_ip_bits)
  also have "\<dots> = (take c (ip_bits a) = take c (ip_bits b))"
    using c len by (auto simp: list_eq_iff_nth_eq simp del: nth_ip_bits)
  finally show ?thesis .
qed

lemma commonBits_ge:
  assumes "length a = n" "length b = n" "addr_len n" "c \<le> 8 * n"
  shows "(c \<le> commonBits a b) = (take c (ip_bits a) = take c (ip_bits b))"
proof (cases "n = 4")
  case True
  then show ?thesis
    using leading_zeros_xor [where 'a = 32, of a 4 b c] assms
    by (simp add: commonBits_def Let_def LeadingZeros32_def)
next
  case False
  then have n: "n = 16" using assms(3) by (simp add: addr_len_def)
  let ?w = "\<lambda>x. of_nat (be_nat x) :: u64"
  let ?x1 = "?w (take 8 a) XOR ?w (take 8 b)"
  let ?x2 = "?w (slice 8 16 a) XOR ?w (slice 8 16 b)"
  have hi: "(d \<le> LeadingZeros64 ?x1) = (take d (ip_bits a) = take d (ip_bits b))" if "d \<le> 64" for d
    using leading_zeros_xor [where 'a = 64, of "take 8 a" 8 "take 8 b" d] assms n that
    by (simp add: LeadingZeros64_def ip_bits_take min_def)
  have lo: "(d \<le> LeadingZeros64 ?x2) = (take d (drop 64 (ip_bits a)) = take d (drop 64 (ip_bits b)))"
    if "d \<le> 64" for d
    using leading_zeros_xor [where 'a = 64, of "slice 8 16 a" 8 "slice 8 16 b" d] assms n that
    by (simp add: LeadingZeros64_def slice_def ip_bits_take ip_bits_drop)
  have full: "(64 \<le> LeadingZeros64 ?x1) = (?x1 = 0)"
    using leading_zeros_full [of ?x1] by (simp add: LeadingZeros64_def)
  show ?thesis
  proof (cases "?x1 = 0")
    case True
    then have eq: "take 64 (ip_bits a) = take 64 (ip_bits b)" using hi [of 64] full by simp
    have cb: "commonBits a b = 64 + LeadingZeros64 ?x2"
      using assms(1) n True by (simp add: commonBits_def Let_def)
    show ?thesis
    proof (cases "c \<le> 64")
      case True
      then have "take c (ip_bits x) = take c (take 64 (ip_bits x))" for x by (simp add: min_def)
      then have "take c (ip_bits a) = take c (ip_bits b)" using eq by metis
      then show ?thesis using True cb by simp
    next
      case False
      then have "take c xs = take 64 xs @ take (c - 64) (drop 64 xs)" for xs :: "bool list"
        using take_add [of 64 "c - 64" xs] by simp
      then have "(take c (ip_bits a) = take c (ip_bits b)) =
          (take (c - 64) (drop 64 (ip_bits a)) = take (c - 64) (drop 64 (ip_bits b)))"
        using eq by simp
      also have "\<dots> = (c - 64 \<le> LeadingZeros64 ?x2)" using lo [of "c - 64"] assms(4) n by simp
      finally show ?thesis using False cb by auto
    qed
  next
    case False
    then have cb: "commonBits a b = LeadingZeros64 ?x1" "\<not> 64 \<le> LeadingZeros64 ?x1"
      using assms(1) n full by (simp_all add: commonBits_def Let_def)
    show ?thesis
    proof (cases "c \<le> 64")
      case True
      then show ?thesis using hi cb by simp
    next
      case False
      then have "take 64 (take c xs) = take 64 xs" for xs :: "bool list" by (simp add: min_def)
      moreover have "take 64 (ip_bits a) \<noteq> take 64 (ip_bits b)" using hi [of 64] cb(2) by simp
      ultimately have "take c (ip_bits a) \<noteq> take c (ip_bits b)" by metis
      then show ?thesis using False cb by linarith
    qed
  qed
qed

lemma length_maskSelf [simp]: "length (maskSelf c ip) = length ip"
  by (simp add: maskSelf_def)

lemma ip_bits_maskSelf:
  "c \<le> 8 * length ip \<Longrightarrow> ip_bits (maskSelf c ip) = take c (ip_bits ip) @ replicate (8 * length ip - c) False"
  by (simp add: maskSelf_def ip_bits_masked)

section \<open>Prefixes, the invariant and the map of a trie\<close>

text \<open>The prefix a node or a route stands for.\<close>

definition key :: "bytes \<Rightarrow> nat \<Rightarrow> bool list" where
  "key ip c = take c (ip_bits ip)"

lemma length_key: "c \<le> 8 * length ip \<Longrightarrow> length (key ip c) = c"
  by (simp add: key_def)

lemma key_maskSelf: "c' \<le> c \<Longrightarrow> c \<le> 8 * length ip \<Longrightarrow> key (maskSelf c ip) c' = key ip c'"
  by (simp add: key_def ip_bits_maskSelf)

lemma nth_key: "i < c \<Longrightarrow> c \<le> 8 * length ip \<Longrightarrow> key ip c ! i = choose_bit i ip"
  by (simp add: key_def choose_ip_bits del: nth_ip_bits)

lemma maskSelf_idem:
  "c \<le> 8 * length ip \<Longrightarrow> maskSelf c (maskSelf c ip) = maskSelf c ip"
  by (rule ip_bits_inject) (simp_all add: ip_bits_maskSelf)

lemma maskSelf_eq_iff:
  assumes "length a = length b" "c \<le> 8 * length b" "maskSelf c a = a" "maskSelf c b = b"
  shows "key a c = key b c \<longleftrightarrow> a = b"
proof
  assume "key a c = key b c"
  then have "ip_bits (maskSelf c a) = ip_bits (maskSelf c b)"
    using assms(1,2) by (simp add: ip_bits_maskSelf key_def)
  then show "a = b" using assms ip_bits_inject by metis
qed simp

lemma commonBits_key:
  "length a = n \<Longrightarrow> length b = n \<Longrightarrow> addr_len n \<Longrightarrow> c \<le> 8 * n \<Longrightarrow>
   (c \<le> commonBits a b) = (key a c = key b c)"
  by (simp add: commonBits_ge key_def)

lemma key_take: "c' \<le> c \<Longrightarrow> take c' (key ip c) = key ip c'"
  by (simp add: key_def min_def)

lemma prefix_key: "c' \<le> c \<Longrightarrow> prefix (key ip c') (key ip c)"
  using take_is_prefix [of c' "key ip c"] by (simp add: key_take)

text \<open>
  Below a node all prefixes extend the node's prefix by the bit that selects the child; the
  bits past the length of a node's prefix are zero; a node without a peer separates two
  subtries.
\<close>

fun trie_inv :: "nat \<Rightarrow> bool list \<Rightarrow> 'p trieEntry \<Rightarrow> bool" where
  "trie_inv n pre Nilp = True"
| "trie_inv n pre (Node p bs c l r) =
     (length bs = n \<and> c \<le> 8 * n \<and> maskSelf c bs = bs \<and> prefix pre (key bs c) \<and>
      trie_inv n (key bs c @ [False]) l \<and> trie_inv n (key bs c @ [True]) r \<and>
      (p = None \<longrightarrow> l \<noteq> Nilp \<and> r \<noteq> Nilp))"

fun tmap :: "'p trieEntry \<Rightarrow> bool list \<Rightarrow> 'p option" where
  "tmap Nilp k = None"
| "tmap (Node p bs c l r) k =
     (if k = key bs c then p
      else if prefix (key bs c) k then tmap (if k ! c then r else l) k
      else None)"

lemma tmap_outside: "trie_inv n pre t \<Longrightarrow> \<not> prefix pre k \<Longrightarrow> tmap t k = None"
  by (cases t) (auto dest: prefix_order.trans)

lemma trie_inv_weaken: "trie_inv n pre t \<Longrightarrow> prefix pre' pre \<Longrightarrow> trie_inv n pre' t"
  by (cases t) (auto dest: prefix_order.trans)

lemma prefix_snoc_nth: "prefix xs ys \<Longrightarrow> length xs < length ys \<Longrightarrow> prefix (xs @ [ys ! length xs]) ys"
  by (auto simp: prefix_def nth_append neq_Nil_conv)

lemma prefix_snoc_iff: "prefix (xs @ [b]) ys \<longleftrightarrow> prefix xs ys \<and> length xs < length ys \<and> ys ! length xs = b"
  by (auto simp: prefix_snoc_nth) (auto simp: prefix_def nth_append)

lemma prefix_take_eq: "prefix xs ys \<Longrightarrow> take (length xs) ys = xs"
  by (auto simp: prefix_def)

lemma strict_prefix_length: "prefix xs ys \<Longrightarrow> xs \<noteq> ys \<Longrightarrow> length xs < length ys"
  by (auto simp: prefix_def)

section \<open>Insertion\<close>

text \<open>The insertion as a recursion, and its branching case: a new node above \<open>down\<close>.\<close>

definition join :: "'p trieEntry \<Rightarrow> bytes \<Rightarrow> nat \<Rightarrow> 'p \<Rightarrow> 'p trieEntry" where
  "join down ip c p =
     (let newNode = new_node (Some p) ip c;
          common = commonBits (bits down) ip;
          c' = (if common < c then common else c)
      in if c = c' then set_child (choose_bit c (bits down)) down newNode
         else let node = new_node None (bits newNode) c'
              in set_child (choose_bit c' (bits newNode)) newNode
                   (set_child (choose_bit c' (bits down)) down node))"

fun ins :: "'p trieEntry \<Rightarrow> bytes \<Rightarrow> nat \<Rightarrow> 'p \<Rightarrow> 'p trieEntry" where
  "ins Nilp ip c p = new_node (Some p) ip c"
| "ins (Node q bs cn l r) ip c p =
     (if cn \<le> c \<and> commonBits bs ip \<ge> cn then
        if cn = c then Node (Some p) bs cn l r
        else if choose_bit cn ip then Node q bs cn l (ins r ip c p)
        else Node q bs cn (ins l ip c p) r
      else join (Node q bs cn l r) ip c p)"

lemma join_cases:
  assumes len: "length bs = n" "length ip = n" and n: "addr_len n" and c: "c \<le> 8 * n" "cn \<le> 8 * n"
    and no: "\<not> (cn \<le> c \<and> commonBits bs ip \<ge> cn)"
  defines "common \<equiv> commonBits bs ip"
  defines "c' \<equiv> (if common < c then common else c)"
  shows "c' < cn \<and> c' \<le> c \<and> key bs c' = key ip c' \<and>
    (c' < c \<longrightarrow> choose_bit c' bs \<noteq> choose_bit c' ip)"
proof -
  have lt: "c' < cn" using no by (auto simp: c'_def common_def)
  have le: "c' \<le> c" by (simp add: c'_def)
  have eq: "key bs c' = key ip c'"
    using commonBits_key [OF len n, of c'] le c by (auto simp: c'_def common_def)
  have "choose_bit c' bs \<noteq> choose_bit c' ip" if "c' < c"
  proof -
    have "\<not> Suc c' \<le> commonBits bs ip" using that by (auto simp: c'_def common_def split: if_splits)
    then have "key bs (Suc c') \<noteq> key ip (Suc c')"
      using commonBits_key [OF len n, of "Suc c'"] that c by simp
    then show ?thesis
      using eq that c len by (simp add: key_def take_Suc_conv_app_nth choose_ip_bits)
  qed
  then show ?thesis using lt le eq by blast
qed

lemma prefix_nth: "prefix xs ys \<Longrightarrow> i < length xs \<Longrightarrow> xs ! i = ys ! i"
  by (auto simp: prefix_def nth_append)

lemma tmap_below: "\<not> prefix (key bs c) x \<Longrightarrow> tmap (Node p bs c l r) x = None"
  by auto

lemma tmap_new_node: "c \<le> 8 * length ip \<Longrightarrow> tmap (new_node p ip c) = (\<lambda>x. if x = key ip c then p else None)"
  by (auto simp: new_node_def key_maskSelf)

text \<open>A new node directly above an existing one whose prefix it covers.\<close>

lemma join_above:
  fixes p :: 'p
  assumes inv: "trie_inv n pre (Node q bs cn l r)" and ip: "length ip = n" "c \<le> 8 * n"
    and pre: "prefix pre (key ip c)" and above: "c < cn" "key bs c = key ip c"
  defines "down \<equiv> Node q bs cn l r"
  defines "t \<equiv> set_child (choose_bit c bs) down (new_node (Some p) ip c)"
  shows "trie_inv n pre t" and "tmap t = (tmap down)(key ip c \<mapsto> p)"
proof -
  have len: "length bs = n" "cn \<le> 8 * n" using inv by auto
  have k: "prefix (key ip c) (key bs cn)" "length (key ip c) = c" "length (key bs cn) = cn"
    "key bs cn ! c = choose_bit c bs"
    using above prefix_key [of c cn bs] len ip by (auto simp: length_key nth_key)
  have dn: "trie_inv n (key ip c @ [choose_bit c bs]) down"
    using inv k above by (simp add: down_def prefix_snoc_iff)
  show "trie_inv n pre t"
    using dn pre ip by (cases "choose_bit c bs") (simp_all add: t_def new_node_def maskSelf_idem key_maskSelf)
  show "tmap t = (tmap down)(key ip c \<mapsto> p)"
  proof
    fix x
    show "tmap t x = ((tmap down)(key ip c \<mapsto> p)) x"
    proof (cases "prefix (key bs cn) x")
      case True
      then have "x ! c = choose_bit c bs" "prefix (key ip c) x" "x \<noteq> key ip c"
        using k above prefix_nth [OF True, of c] prefix_order.trans [OF k(1) True] prefix_length_le [OF True]
        by auto
      then show ?thesis using ip by (simp add: t_def new_node_def key_maskSelf)
    next
      case False
      then have "tmap down x = None" by (auto simp: down_def)
      then show ?thesis using ip by (simp add: t_def new_node_def key_maskSelf)
    qed
  qed
qed

text \<open>A fork: the two prefixes part at bit \<open>c'\<close>.\<close>

lemma join_fork:
  assumes dn: "trie_inv n (k @ [b]) down" "down \<noteq> Nilp" and nn: "trie_inv n (k @ [\<not> b]) new" "new \<noteq> Nilp"
    and bs: "length bs = n" "maskSelf c bs = bs" "c \<le> 8 * n" "key bs c = k" and pre: "prefix pre k"
  defines "t \<equiv> (if b then Node None bs c new down else Node None bs c down new)"
  shows "trie_inv n pre t" and "tmap t x = (case tmap new x of None \<Rightarrow> tmap down x | Some v \<Rightarrow> Some v)"
proof -
  show "trie_inv n pre t" using dn nn bs pre by (cases b) (simp_all add: t_def)
  have out: "tmap down x = None" if "\<not> prefix (k @ [b]) x" using dn(1) that by (rule tmap_outside)
  have out': "tmap new x = None" if "\<not> prefix (k @ [\<not> b]) x" using nn(1) that by (rule tmap_outside)
  have lk: "length k = c" using bs by (auto simp: length_key)
  show "tmap t x = (case tmap new x of None \<Rightarrow> tmap down x | Some v \<Rightarrow> Some v)"
  proof (cases "prefix k x \<and> x \<noteq> k")
    case True
    then have "c < length x" using strict_prefix_length lk by auto
    then show ?thesis using True out out' bs lk
      by (cases "x ! c = b") (auto simp: t_def prefix_snoc_iff split: option.splits)
  next
    case False
    then have "\<not> prefix (k @ [b']) x" for b' by (auto simp: prefix_snoc_iff)
    then show ?thesis using out out' False bs by (auto simp: t_def)
  qed
qed

lemma join_correct:
  assumes inv: "trie_inv n pre (Node q bs cn l r)" and ip: "length ip = n" "addr_len n" "c \<le> 8 * n"
    and pre: "prefix pre (key ip c)"
    and no: "\<not> (cn \<le> c \<and> commonBits bs ip \<ge> cn)"
  shows "trie_inv n pre (join (Node q bs cn l r) ip c p) \<and>
    tmap (join (Node q bs cn l r) ip c p) = (tmap (Node q bs cn l r))(key ip c \<mapsto> p)"
proof -
  define c' where "c' = (if commonBits bs ip < c then commonBits bs ip else c)"
  define down where "down = Node q bs cn l r"
  have len: "length bs = n" "cn \<le> 8 * n" using inv by auto
  note jc = join_cases [OF len(1) ip(1,2,3) len(2) no, folded c'_def]
  show ?thesis
  proof (cases "c' = c")
    case True
    then have "join down ip c p = set_child (choose_bit c bs) down (new_node (Some p) ip c)"
      by (simp add: join_def Let_def c'_def down_def)
    then show ?thesis using join_above [OF inv ip(1,3) pre, of p] jc True by (simp add: down_def)
  next
    case False
    then have lt: "c' < c" using jc by simp
    let ?new = "new_node (Some p) ip c" and ?m = "maskSelf c' (maskSelf c ip)" and ?b = "choose_bit c' bs"
    have ne: "choose_bit c' ip = (\<not> ?b)" using jc lt by blast
    have kip: "key ip c ! c' = choose_bit c' ip" and kbs: "key bs cn ! c' = ?b"
      and kl: "length (key ip c') = c'" "length (key ip c) = c" "length (key bs cn) = cn"
      using lt ip jc len by (auto simp: nth_key length_key)
    have mb: "choose_bit c' (maskSelf c ip) = choose_bit c' ip"
      using lt ip nth_key [of c' c "maskSelf c ip"] kip by (simp add: key_maskSelf)
    have j: "join down ip c p = (if ?b then Node None ?m c' ?new down else Node None ?m c' down ?new)"
      using False ne mb by (simp add: join_def Let_def c'_def [symmetric] new_node_def down_def)
    have dn: "trie_inv n (key ip c' @ [?b]) down"
      using inv jc prefix_key [of c' cn bs] kbs kl by (simp add: down_def prefix_snoc_iff)
    have nn: "trie_inv n (key ip c' @ [\<not> ?b]) ?new"
      using lt ip kip kl ne prefix_key [of c' c ip]
      by (simp add: new_node_def maskSelf_idem key_maskSelf prefix_snoc_iff)
    have "length pre \<le> c'"
    proof (rule ccontr)
      assume "\<not> length pre \<le> c'"
      then have "key bs cn ! c' = key ip c ! c'"
        using prefix_nth [of pre "key bs cn" c'] prefix_nth [OF pre, of c'] inv by simp
      then show False using ne kip kbs by simp
    qed
    then have pre': "prefix pre (key ip c')"
      using pre prefix_key [of c' c ip] lt kl by (metis less_imp_le prefix_length_prefix)
    have m: "length ?m = n" "maskSelf c' ?m = ?m" "c' \<le> 8 * n" "key ?m c' = key ip c'"
      using lt ip by (simp_all add: maskSelf_idem key_maskSelf)
    have nl: "down \<noteq> Nilp" "?new \<noteq> Nilp" by (simp_all add: down_def new_node_def)
    have "tmap (join down ip c p) = (tmap down)(key ip c \<mapsto> p)"
      using join_fork(2) [OF dn nl(1) nn nl(2) m pre'] ip
      by (auto simp: j tmap_new_node fun_eq_iff)
    then show ?thesis using join_fork(1) [OF dn nl(1) nn nl(2) m pre']
      by (simp add: j down_def [symmetric])
  qed
qed

lemma ins_correct:
  "trie_inv n pre t \<Longrightarrow> length ip = n \<Longrightarrow> addr_len n \<Longrightarrow> c \<le> 8 * n \<Longrightarrow> prefix pre (key ip c) \<Longrightarrow>
   trie_inv n pre (ins t ip c p) \<and> tmap (ins t ip c p) = (tmap t)(key ip c \<mapsto> p) \<and> ins t ip c p \<noteq> Nilp"
proof (induction t arbitrary: pre)
  case Nilp
  then show ?case
    by (auto simp: tmap_new_node fun_eq_iff) (auto simp: new_node_def maskSelf_idem key_maskSelf)
next
  case (Node q bs cn l r)
  have len: "length bs = n" "cn \<le> 8 * n" using Node.prems by auto
  show ?case
  proof (cases "cn \<le> c \<and> commonBits bs ip \<ge> cn")
    case False
    then have "join (Node q bs cn l r) ip c p \<noteq> Nilp"
      by (auto simp: join_def Let_def new_node_def)
    moreover have "ins (Node q bs cn l r) ip c p = join (Node q bs cn l r) ip c p"
      using False by (simp only: ins.simps if_False)
    ultimately show ?thesis using join_correct [OF Node.prems False, of p]
      by (simp only: not_False_eq_True simp_thms)
  next
    case True
    then have eq: "key bs cn = key ip cn"
      using commonBits_key [of bs n ip cn] len Node.prems by simp
    show ?thesis
    proof (cases "cn = c")
      case True
      then show ?thesis using eq Node.prems \<open>cn \<le> c \<and> _\<close> by (auto simp: fun_eq_iff)
    next
      case False
      then have lt: "cn < c" using True by simp
      let ?b = "choose_bit cn ip"
      have pk: "prefix (key bs cn @ [?b]) (key ip c)" and kn: "key ip c ! cn = ?b"
        using lt Node.prems prefix_key [of cn c ip] eq by (auto simp: prefix_snoc_iff length_key nth_key)
      have kne: "key ip c \<noteq> key bs cn" "prefix (key bs cn) (key ip c)"
        using pk by (auto simp: prefix_snoc_iff)
      show ?thesis
      proof (cases ?b)
        case b: True
        then have "trie_inv n (key bs cn @ [True]) (ins r ip c p) \<and>
            tmap (ins r ip c p) = (tmap r)(key ip c \<mapsto> p) \<and> ins r ip c p \<noteq> Nilp"
          using Node.IH(2) [of "key bs cn @ [True]"] Node.prems pk by (simp add: fun_upd_def)
        then show ?thesis using True False b Node.prems kne kn by (auto simp: fun_eq_iff)
      next
        case b: False
        then have "trie_inv n (key bs cn @ [False]) (ins l ip c p) \<and>
            tmap (ins l ip c p) = (tmap l)(key ip c \<mapsto> p) \<and> ins l ip c p \<noteq> Nilp"
          using Node.IH(1) [of "key bs cn @ [False]"] Node.prems pk by (simp add: fun_upd_def)
        then show ?thesis using True False b Node.prems kne kn by (auto simp: fun_eq_iff)
      qed
    qed
  qed
qed

lemma set_child_choose: "set_child b x (Node q bs cn l r) = (if b then Node q bs cn l x else Node q bs cn x r)"
  by simp

text \<open>The pointer-level insertion is the recursion.\<close>

lemma trie_insert_step:
  assumes t: "t \<noteq> Nilp" "child b t = s" "choose_bit (cidr t) ip = b"
    and np: "nodePlacement s ip c = (parent, exact)"
    and npt: "nodePlacement t ip c =
      (case parent of None \<Rightarrow> (Some [], exact) | Some path \<Rightarrow> (Some (b # path), exact))"
    and below: "\<And>d. s \<noteq> Nilp \<Longrightarrow> d = c \<or> d = commonBits (bits s) ip \<Longrightarrow> d \<le> c \<Longrightarrow>
       choose_bit (cidr t) (maskSelf d (maskSelf c ip)) = b"
    and masked: "choose_bit (cidr t) (maskSelf c ip) = b"
  shows "trie_insert t ip c p = set_child b (trie_insert s ip c p) t"
proof (cases parent)
  case (Some path)
  then have "s \<noteq> Nilp" using np by auto
  then show ?thesis using Some np npt t(1,2)
    by (cases exact) (simp_all add: trie_insert_def Let_def)
next
  case None
  then have ex: "\<not> exact" using np
    by (cases s) (auto simp: Let_def split: if_splits prod.splits option.splits)
  show ?thesis
  proof (cases "s = Nilp")
    case True
    then show ?thesis using None ex npt t by (simp add: trie_insert_def Let_def)
  next
    case False
    then show ?thesis using None ex npt np t masked below [OF False, of "commonBits (bits s) ip"]
      by (simp add: trie_insert_def Let_def new_node_def)
  qed
qed

lemma key_Suc: "c < 8 * length ip \<Longrightarrow> key ip (Suc c) = key ip c @ [choose_bit c ip]"
  by (simp add: key_def take_Suc_conv_app_nth choose_ip_bits)

lemma choose_maskSelf:
  "i < d \<Longrightarrow> d \<le> 8 * length ip \<Longrightarrow> choose_bit i (maskSelf d ip) = choose_bit i ip"
  using nth_key [of i d ip] nth_key [of i d "maskSelf d ip"] by (simp add: key_maskSelf)

lemma trie_insert_ins:
  "trie_inv n pre t \<Longrightarrow> length ip = n \<Longrightarrow> addr_len n \<Longrightarrow> c \<le> 8 * n \<Longrightarrow>
   trie_insert t ip c p = ins t ip c p"
proof (induction t arbitrary: pre)
  case Nilp
  then show ?case by (simp add: trie_insert_def)
next
  case (Node q bs cn l r)
  have len: "length bs = n" "cn \<le> 8 * n" using Node.prems by auto
  show ?case
  proof (cases "cn < c \<and> commonBits bs ip \<ge> cn")
    case False
    then show ?thesis
      by (auto simp: trie_insert_def join_def new_node_def Let_def)
  next
    case True
    define b where "b = choose_bit cn ip"
    define s where "s = (if b then r else l)"
    have sinv: "trie_inv n (key bs cn @ [b]) s" using Node.prems by (cases b) (simp_all add: s_def)
    have keq: "key bs cn = key ip cn"
      using commonBits_key [of bs n ip cn] len Node.prems True by simp
    have below: "choose_bit cn (maskSelf d (maskSelf c ip)) = b"
      if s: "s \<noteq> Nilp" and d: "d = c \<or> d = commonBits (bits s) ip" "d \<le> c" for d
    proof -
      obtain q' bs' cn' l' r' where s: "s = Node q' bs' cn' l' r'" using s by (cases s) auto
      have kb: "prefix (key bs cn @ [b]) (key bs' cn')" "length bs' = n" "cn' \<le> 8 * n"
        using sinv by (auto simp: s)
      have lt: "cn < cn'" using kb len by (auto simp: prefix_snoc_iff length_key)
      have "key bs' (Suc cn) = take (Suc cn) (key bs' cn')" using lt by (simp add: key_take)
      also have "\<dots> = key bs cn @ [b]"
        using kb(1) len by (auto simp: prefix_def length_key)
      also have "\<dots> = key ip (Suc cn)"
        using Node.prems True by (simp add: key_Suc keq b_def)
      finally have "cn < commonBits bs' ip"
        using commonBits_key [of bs' n ip "Suc cn"] kb Node.prems True by simp
      then have "cn < d" using d True by (auto simp: s)
      then show ?thesis using d(2) Node.prems True by (simp add: choose_maskSelf b_def)
    qed
    obtain parent exact where np: "nodePlacement s ip c = (parent, exact)" by fastforce
    have "trie_insert (Node q bs cn l r) ip c p = set_child b (trie_insert s ip c p) (Node q bs cn l r)"
    proof (rule trie_insert_step [OF _ _ _ np])
      show "nodePlacement (Node q bs cn l r) ip c =
          (case parent of None \<Rightarrow> (Some [], exact) | Some path \<Rightarrow> (Some (b # path), exact))"
        using True np by (simp add: b_def s_def Let_def split: option.splits)
      show "choose_bit (cidr (Node q bs cn l r)) (maskSelf c ip) = b"
        using True Node.prems by (simp add: choose_maskSelf b_def)
    qed (use below in \<open>auto simp: s_def b_def\<close>)
    also have "trie_insert s ip c p = ins s ip c p"
      using Node.IH sinv Node.prems by (cases b) (auto simp: s_def)
    finally show ?thesis using True by (simp add: b_def s_def)
  qed
qed

section \<open>Lookup is longest prefix match\<close>

text \<open>The specification: the value of the longest prefix of \<open>x\<close> that the map knows.\<close>

fun match_upto :: "(bool list \<Rightarrow> 'p option) \<Rightarrow> bool list \<Rightarrow> nat \<Rightarrow> 'p option" where
  "match_upto m x 0 = m []"
| "match_upto m x (Suc n) =
     (case m (take (Suc n) x) of Some p \<Rightarrow> Some p | None \<Rightarrow> match_upto m x n)"

definition longest_match :: "(bool list \<Rightarrow> 'p option) \<Rightarrow> bool list \<Rightarrow> 'p option" where
  "longest_match m x = match_upto m x (length x)"

lemma match_upto_None: "(\<And>j. j \<le> n \<Longrightarrow> m (take j x) = None) \<Longrightarrow> match_upto m x n = None"
  by (induction n) auto

lemma match_upto_override:
  assumes "c \<le> n"
    and "\<And>j. c < j \<Longrightarrow> j \<le> n \<Longrightarrow> m (take j x) = m' (take j x)" "m (take c x) = p"
    and "\<And>j. j < c \<Longrightarrow> m (take j x) = None" "\<And>j. j \<le> c \<Longrightarrow> m' (take j x) = None"
  shows "match_upto m x n = (case match_upto m' x n of None \<Rightarrow> p | Some v \<Rightarrow> Some v)"
  using assms(1,2)
proof (induction n rule: nat_induct_at_least)
  case base
  have "match_upto m' x c = None" by (rule match_upto_None) (rule assms(5))
  moreover have "match_upto m x c = p"
  proof (cases c)
    case 0
    then show ?thesis using assms(3) by simp
  next
    case (Suc d)
    then have "match_upto m x d = None" by (intro match_upto_None assms(4)) simp
    then show ?thesis using Suc assms(3) by (auto split: option.splits)
  qed
  ultimately show ?case by simp
next
  case (Suc n)
  then have "m (take (Suc n) x) = m' (take (Suc n) x)" by simp
  then show ?case using Suc.IH Suc.prems by (auto split: option.splits)
qed

lemma lookup_from_correct:
  "trie_inv n pre t \<Longrightarrow> length ip = n \<Longrightarrow> addr_len n \<Longrightarrow> prefix pre (ip_bits ip) \<Longrightarrow>
   lookup_from found t ip =
     (case longest_match (tmap t) (ip_bits ip) of None \<Rightarrow> found | Some p \<Rightarrow> Some p)"
proof (induction t arbitrary: pre found)
  case Nilp
  then show ?case by (simp add: longest_match_def match_upto_None)
next
  case (Node p bs c l r)
  let ?x = "ip_bits ip" and ?t = "Node p bs c l r"
  have len: "length bs = n" "c \<le> 8 * n" using Node.prems by auto
  have hit: "(c \<le> commonBits bs ip) = prefix (key bs c) ?x"
  proof -
    have "(key bs c = key ip c) = prefix (key bs c) ?x"
      using len Node.prems(2) by (auto simp: key_def prefix_def take_is_prefix)
        (metis append_take_drop_id)
    then show ?thesis using commonBits_key [of bs n ip c] len Node.prems by simp
  qed
  show ?case
  proof (cases "prefix (key bs c) ?x")
    case False
    then have "tmap ?t (take j ?x) = None" for j
      using take_is_prefix [of j ?x] by (auto dest: prefix_order.trans)
    then have "longest_match (tmap ?t) ?x = None"
      unfolding longest_match_def by (intro match_upto_None)
    then show ?thesis using False hit by (simp del: tmap.simps)
  next
    case True
    then have kx: "take c ?x = key bs c" using len by (auto simp: prefix_def length_key)
    define s where "s = (if choose_bit c ip then r else l)"
    have below: "tmap ?t (take j ?x) = None" if "j < c" for j
    proof -
      have "\<not> prefix (key bs c) (take j ?x)"
        using that len prefix_length_le [of "key bs c" "take j ?x"] by (auto simp: length_key)
      then show ?thesis by auto
    qed
    have at: "tmap ?t (take c ?x) = p" using kx by simp
    show ?thesis
    proof (cases "c = 8 * n")
      case True
      then have "longest_match (tmap ?t) ?x = p"
        using match_upto_override [of c c "tmap ?t" ?x "\<lambda>_. None" p] at below Node.prems(2)
        by (simp add: longest_match_def match_upto_None del: tmap.simps)
      moreover have "bitAtByte c = length ip" using True Node.prems(2) by (simp add: bitAtByte_def)
      ultimately show ?thesis using hit \<open>prefix (key bs c) ?x\<close> by (cases p) (simp_all del: tmap.simps)
    next
      case False
      then have lt: "c < 8 * n" using len by simp
      have ne: "bitAtByte c \<noteq> length ip" using lt Node.prems(2) by (auto simp: bitAtByte_def)
      have xc: "?x ! c = choose_bit c ip" using lt Node.prems(2) by (simp add: choose_ip_bits)
      have sinv: "trie_inv n (key bs c @ [choose_bit c ip]) s"
        using Node.prems by (cases "choose_bit c ip") (simp_all add: s_def)
      have spre: "prefix (key bs c @ [choose_bit c ip]) ?x"
        using \<open>prefix (key bs c) ?x\<close> lt len Node.prems(2) xc by (simp add: prefix_snoc_iff length_key)
      have up: "tmap ?t (take j ?x) = tmap s (take j ?x)" if "c < j" "j \<le> 8 * n" for j
      proof -
        have "prefix (key bs c) (take j ?x)"
          using kx that take_is_prefix [of c "take j ?x"] by (simp add: min_def)
        moreover have "length (take j ?x) \<noteq> length (key bs c)"
          using that len Node.prems(2) length_key [of c bs] by simp
        then have "take j ?x \<noteq> key bs c" by metis
        moreover have "take j ?x ! c = choose_bit c ip" using that xc by simp
        ultimately show ?thesis by (simp add: s_def)
      qed
      have down: "tmap s (take j ?x) = None" if "j \<le> c" for j
      proof -
        have "\<not> prefix (key bs c @ [choose_bit c ip]) (take j ?x)"
          using that len by (auto simp: prefix_snoc_iff length_key)
        then show ?thesis using tmap_outside [OF sinv] by blast
      qed
      have "longest_match (tmap ?t) ?x = (case longest_match (tmap s) ?x of None \<Rightarrow> p | Some v \<Rightarrow> Some v)"
        unfolding longest_match_def
        by (rule match_upto_override [of c]) (use lt up down at below Node.prems(2) in \<open>auto simp del: tmap.simps\<close>)
      moreover have "lookup_from f s ip =
          (case longest_match (tmap s) ?x of None \<Rightarrow> f | Some v \<Rightarrow> Some v)" for f
        using Node.IH [OF _ Node.prems(2,3) spre] sinv by (cases "choose_bit c ip") (simp_all add: s_def)
      ultimately show ?thesis using hit ne \<open>prefix (key bs c) ?x\<close>
        by (auto simp: Let_def s_def [symmetric] simp del: tmap.simps split: option.splits)
    qed
  qed
qed

section \<open>Removal\<close>

lemma subtree_Nilp [simp]: "subtree path Nilp = Nilp"
  by (induction path) auto

lemma child_set_child [simp]: "t \<noteq> Nilp \<Longrightarrow> child b (set_child b x t) = x"
  by (cases t) auto

lemma child_set_child_other: "child (\<not> b) (set_child b x t) = child (\<not> b) t"
  by (cases t) auto

lemma set_child_set_child [simp]: "set_child b x (set_child b y t) = set_child b x t"
  by (cases t) auto

lemma set_child_eq_Nilp [simp]: "(set_child b x t = Nilp) = (t = Nilp)"
  by (cases t) auto

lemma peer_set_child: "t \<noteq> Nilp \<Longrightarrow> peer (set_child b x t) = peer t"
  by (cases t) auto

lemma remove_node_Cons:
  "path \<noteq> [] \<Longrightarrow> t \<noteq> Nilp \<Longrightarrow> remove_node (b # path) t = set_child b (remove_node path (child b t)) t"
  by (simp add: remove_node_def Let_def)

lemma remove_node_child:
  assumes "t \<noteq> Nilp"
  shows "remove_node [b] t =
    (if child False (child b t) = Nilp \<and> child True (child b t) = Nilp \<and> peer t = None then child (\<not> b) t else set_child b (remove_node [] (child b t)) t)"
  using assms by (auto simp: remove_node_def Let_def peer_set_child child_set_child_other)

lemma set_child_inv:
  assumes "trie_inv n pre (Node q bs c l r)" "trie_inv n (key bs c @ [b]) x" "q = None \<longrightarrow> x \<noteq> Nilp"
  shows "trie_inv n pre (set_child b x (Node q bs c l r))"
  using assms by (cases b) auto

lemma set_child_tmap:
  assumes "c \<le> 8 * length bs" "tmap x = (tmap (child b (Node q bs c l r)))(k := None)"
    "prefix (key bs c @ [b]) k"
  shows "tmap (set_child b x (Node q bs c l r)) = (tmap (Node q bs c l r))(k := None)"
proof
  fix y
  have "k \<noteq> key bs c" "prefix (key bs c) k" "k ! c = b"
    using assms(1,3) by (auto simp: prefix_snoc_iff length_key)
  then show "tmap (set_child b x (Node q bs c l r)) y = ((tmap (Node q bs c l r))(k := None)) y"
    using assms(2) by (cases b) auto
qed

lemma inv_child: "trie_inv n pre (Node q bs c l r) \<Longrightarrow> trie_inv n (key bs c @ [b]) (child b (Node q bs c l r))"
  by (cases b) auto

lemma tmap_child:
  assumes inv: "trie_inv n pre (Node q bs c l r)" and other: "tmap (child (\<not> b) (Node q bs c l r)) = Map.empty"
  shows "tmap (child b (Node q bs c l r)) = (tmap (Node q bs c l r))(key bs c := None)"
proof
  fix x
  have len: "length (key bs c) = c" using inv by (auto simp: length_key)
  have out: "tmap (child b (Node q bs c l r)) x = None" if "\<not> prefix (key bs c @ [b]) x"
    using tmap_outside [OF inv_child [OF inv]] that .
  show "tmap (child b (Node q bs c l r)) x = ((tmap (Node q bs c l r))(key bs c := None)) x"
  proof (cases "prefix (key bs c) x \<and> x \<noteq> key bs c")
    case True
    then have "c < length x" using strict_prefix_length [of "key bs c" x] len by auto
    then show ?thesis using True out other len by (cases b; cases "x ! c") (auto simp: prefix_snoc_iff)
  next
    case False
    then have "\<not> prefix (key bs c @ [b]) x" by (auto simp: prefix_snoc_iff)
    then show ?thesis using out False by auto
  qed
qed

lemma remove_root_correct:
  assumes inv: "trie_inv n pre (Node (Some p) bs c l r)"
  shows "trie_inv n pre (remove_node [] (Node (Some p) bs c l r)) \<and>
    tmap (remove_node [] (Node (Some p) bs c l r)) = (tmap (Node (Some p) bs c l r))(key bs c := None)"
proof (cases "l \<noteq> Nilp \<and> r \<noteq> Nilp")
  case True
  then show ?thesis using inv by (auto simp: remove_node_def Let_def fun_eq_iff)
next
  case False
  let ?b = "l = Nilp"
  have rm: "remove_node [] (Node (Some p) bs c l r) = child ?b (Node (Some p) bs c l r)"
    using False by (auto simp: remove_node_def Let_def)
  have "tmap (child (\<not> ?b) (Node (Some p) bs c l r)) = Map.empty" using False by auto
  then have "tmap (remove_node [] (Node (Some p) bs c l r)) = (tmap (Node (Some p) bs c l r))(key bs c := None)"
    unfolding rm by (rule tmap_child [OF inv])
  moreover have "prefix pre (key bs c @ [?b])" using inv by auto
  then have "trie_inv n pre (remove_node [] (Node (Some p) bs c l r))"
    unfolding rm using trie_inv_weaken [OF inv_child [OF inv, of ?b]] by blast
  ultimately show ?thesis by blast
qed

lemma subtree_key:
  "trie_inv n pre t \<Longrightarrow> subtree path t = Node p bs c l r \<Longrightarrow>
   prefix pre (key bs c) \<and> length bs = n \<and> c \<le> 8 * n \<and> maskSelf c bs = bs \<and> tmap t (key bs c) = p"
proof (induction path arbitrary: pre t)
  case Nil
  then show ?case by auto
next
  case (Cons b path)
  then obtain q bs' c' l' r' where t: "t = Node q bs' c' l' r'" by (cases t) auto
  have len: "length (key bs' c') = c'" using Cons.prems by (auto simp: t length_key)
  have "trie_inv n (key bs' c' @ [b]) (child b t)" using Cons.prems(1) by (simp only: t inv_child)
  then have *: "prefix (key bs' c' @ [b]) (key bs c) \<and> length bs = n \<and> c \<le> 8 * n \<and> maskSelf c bs = bs \<and>
      tmap (child b t) (key bs c) = p"
    using Cons.IH Cons.prems by auto
  then have "tmap t (key bs c) = tmap (child b t) (key bs c)"
    using len by (cases b) (auto simp: t prefix_snoc_iff)
  then show ?case using * Cons.prems(1) by (auto simp: t prefix_snoc_iff dest: prefix_order.trans)
qed

lemma remove_node_correct:
  "trie_inv n pre t \<Longrightarrow> subtree path t = Node (Some p) bs c l r \<Longrightarrow>
   trie_inv n pre (remove_node path t) \<and> tmap (remove_node path t) = (tmap t)(key bs c := None) \<and>
   (path \<noteq> [] \<longrightarrow> remove_node path t \<noteq> Nilp)"
proof (induction path arbitrary: pre t)
  case Nil
  then show ?case using remove_root_correct [of n pre p bs c l r]
    by (simp del: tmap.simps trie_inv.simps)
next
  case (Cons b path)
  then obtain q bs' c' l' r' where t: "t = Node q bs' c' l' r'" by (cases t) auto
  have inv: "trie_inv n pre (Node q bs' c' l' r')" using Cons.prems t by simp
  have tn: "t \<noteq> Nilp" by (simp add: t)
  have cinv: "trie_inv n (key bs' c' @ [b]) (child b t)" unfolding t by (rule inv_child [OF inv])
  have sub: "subtree path (child b t) = Node (Some p) bs c l r" using Cons.prems by simp
  have ih: "trie_inv n (key bs' c' @ [b]) (remove_node path (child b t))"
    "tmap (remove_node path (child b t)) = (tmap (child b t))(key bs c := None)"
    "path \<noteq> [] \<longrightarrow> remove_node path (child b t) \<noteq> Nilp"
    using Cons.IH [OF cinv sub] by auto
  have pk: "prefix (key bs' c' @ [b]) (key bs c)" using subtree_key [OF cinv sub] by simp
  have step: "trie_inv n pre (set_child b (remove_node path (child b t)) t) \<and>
      tmap (set_child b (remove_node path (child b t)) t) = (tmap t)(key bs c := None)"
    if "q = None \<longrightarrow> remove_node path (child b t) \<noteq> Nilp"
    using set_child_inv [OF inv ih(1) that] set_child_tmap [of c' bs' _ b q l' r' "key bs c"] ih(2) pk inv
    by (auto simp: t)
  show ?case
  proof (cases "path = []")
    case False
    then show ?thesis using step ih(3) remove_node_Cons [OF False tn, of b] tn by simp
  next
    case True
    then have ch: "child b t = Node (Some p) bs c l r" using sub by simp
    show ?thesis
    proof (cases "l = Nilp \<and> r = Nilp \<and> q = None")
      case leaf: True
      have rm: "remove_node (b # path) t = child (\<not> b) t"
        using True leaf remove_node_child [of t b] ch t by simp
      have "tmap (child (\<not> b) t) = (tmap t)(key bs c := None)"
      proof
        fix x
        have len: "length (key bs' c') = c'" using inv by (auto simp: length_key)
        have out: "tmap (child (\<not> b) t) x = None" if "\<not> prefix (key bs' c' @ [\<not> b]) x"
          using tmap_outside [OF inv_child [OF inv, of "\<not> b"]] that by (simp add: t)
        have K: "key bs c ! c' = b" "tmap (child b t) y = None" if "y \<noteq> key bs c" for y
          using pk len leaf that by (auto simp: ch prefix_snoc_iff)
        have tx: "tmap t x = (if prefix (key bs' c') x \<and> x \<noteq> key bs' c' then tmap (child (x ! c') t) x else None)"
          using leaf by (auto simp: t)
        show "tmap (child (\<not> b) t) x = ((tmap t)(key bs c := None)) x"
        proof (cases "prefix (key bs' c') x \<and> x \<noteq> key bs' c' \<and> x ! c' = (\<not> b)")
          case True
          then have "x \<noteq> key bs c" using pk len by (auto simp: prefix_snoc_iff)
          then show ?thesis using True tx by simp
        next
          case False
          then have "\<not> prefix (key bs' c' @ [\<not> b]) x" using len by (auto simp: prefix_snoc_iff)
          then show ?thesis using out tx False K(2) [of x] by auto
        qed
      qed
      moreover have "trie_inv n pre (child (\<not> b) t)"
        using trie_inv_weaken [OF inv_child [OF inv, of "\<not> b"], of pre] inv by (simp add: t)
      moreover have "child (\<not> b) t \<noteq> Nilp" using inv leaf by (auto simp: t)
      ultimately show ?thesis using rm by simp
    next
      case False
      have "remove_node (b # path) t = set_child b (remove_node [] (child b t)) t"
        using True False remove_node_child [of t b] ch t by auto
      moreover have "q = None \<longrightarrow> remove_node [] (child b t) \<noteq> Nilp"
        using False ch by (auto simp: remove_node_def Let_def)
      ultimately show ?thesis using step True tn by simp
    qed
  qed
qed

section \<open>The table against its routes\<close>

text \<open>The routes of the table: for an address length, the map from prefixes to peers.\<close>

definition trie_of :: "'p AllowedIPs \<Rightarrow> nat \<Rightarrow> 'p trieEntry" where
  "trie_of a n = (if n = 16 then IPv6 a else IPv4 a)"

definition routes :: "'p AllowedIPs \<Rightarrow> nat \<Rightarrow> bool list \<Rightarrow> 'p option" where
  "routes a n = tmap (trie_of a n)"

definition entry_node :: "bytes \<Rightarrow> nat \<Rightarrow> bool" where
  "entry_node bs c = (addr_len (length bs) \<and> c \<le> 8 * length bs \<and> maskSelf c bs = bs)"

text \<open>The peer of a node.\<close>

definition owner :: "'p AllowedIPs \<Rightarrow> bytes \<times> nat \<Rightarrow> 'p option" where
  "owner a node = (case node of (bs, c) \<Rightarrow>
     if entry_node bs c then routes a (length bs) (key bs c) else None)"

text \<open>The lists hold every node of a peer once, and nothing else.\<close>

definition entries_ok :: "('p \<Rightarrow> 'k list) \<Rightarrow> ('k \<Rightarrow> 'p option) \<Rightarrow> bool" where
  "entries_ok es R = (\<forall>p. distinct (es p) \<and> set (es p) = {k. R k = Some p})"

definition allowed_inv :: "'p AllowedIPs \<Rightarrow> bool" where
  "allowed_inv a =
     (trie_inv 4 [] (IPv4 a) \<and> trie_inv 16 [] (IPv6 a) \<and> entries_ok (trieEntries a) (owner a))"

lemma entries_ok_iff: "entries_ok es R \<Longrightarrow> k \<in> set (es p) \<longleftrightarrow> R k = Some p"
  by (simp add: entries_ok_def)

lemma entries_ok_move:
  "entries_ok es R \<Longrightarrow>
   entries_ok (addToPeerEntries p k (removeFromPeerEntries (R k) k es)) (R(k \<mapsto> p))"
  unfolding entries_ok_def addToPeerEntries_def removeFromPeerEntries_def
  by (auto split: option.splits)

lemma entries_ok_remove:
  "entries_ok es R \<Longrightarrow> R k = Some p \<Longrightarrow>
   entries_ok (removeFromPeerEntries (Some p) k es) (R(k := None))"
  unfolding entries_ok_def removeFromPeerEntries_def by auto

lemma trie_of_inv: "allowed_inv a \<Longrightarrow> addr_len n \<Longrightarrow> trie_inv n [] (trie_of a n)"
  by (auto simp: allowed_inv_def trie_of_def addr_len_def)

lemma node_path_exists:
  "trie_inv n pre t \<Longrightarrow> tmap t (key bs c) = Some p \<Longrightarrow> length bs = n \<Longrightarrow> c \<le> 8 * n \<Longrightarrow>
   maskSelf c bs = bs \<Longrightarrow>
   \<exists>path l r. node_path t bs c = Some path \<and> subtree path t = Node (Some p) bs c l r"
proof (induction t arbitrary: pre)
  case Nilp
  then show ?case by simp
next
  case (Node q bs' c' l r)
  have len: "length bs' = n" "c' \<le> 8 * n" "maskSelf c' bs' = bs'" using Node.prems by auto
  show ?case
  proof (cases "key bs c = key bs' c'")
    case True
    then have "c = c'" using len Node.prems by (metis length_key)
    then have "bs' = bs" using True maskSelf_eq_iff [of bs bs' c] len Node.prems by simp
    then show ?thesis using \<open>c = c'\<close> Node.prems True by auto
  next
    case False
    then have pk: "prefix (key bs' c') (key bs c)"
      and ch: "tmap (if key bs c ! c' then r else l) (key bs c) = Some p"
      using Node.prems by (auto split: if_splits)
    have lt: "c' < c"
      using strict_prefix_length [OF pk] False len Node.prems by (auto simp: length_key)
    then have b: "key bs c ! c' = choose_bit c' bs" using Node.prems by (simp add: nth_key)
    let ?s = "if choose_bit c' bs then r else l"
    have sinv: "trie_inv n (key bs' c' @ [choose_bit c' bs]) ?s"
      using Node.prems(1) by auto
    have "\<exists>path l' r'. node_path ?s bs c = Some path \<and> subtree path ?s = Node (Some p) bs c l' r'"
      using Node.IH [OF _ _ Node.prems(3,4,5)] sinv ch b by (cases "choose_bit c' bs") auto
    then obtain path l' r' where path: "node_path ?s bs c = Some path"
      "subtree path ?s = Node (Some p) bs c l' r'" by blast
    then have "node_path (Node q bs' c' l r) bs c = Some (choose_bit c' bs # path)"
      using lt by simp
    then show ?thesis using path(2) by auto
  qed
qed

text \<open>The node that an insertion finds in place is the node of the same prefix.\<close>

lemma nodePlacement_exact:
  "trie_inv n pre t \<Longrightarrow> length ip = n \<Longrightarrow> addr_len n \<Longrightarrow> c \<le> 8 * n \<Longrightarrow>
   nodePlacement t ip c = (Some path, True) \<Longrightarrow>
   \<exists>l r. subtree path t = Node (tmap t (key ip c)) (maskSelf c ip) c l r"
proof (induction t arbitrary: pre path)
  case Nilp
  then show ?case by simp
next
  case (Node q bs cn l r)
  have len: "length bs = n" "cn \<le> 8 * n" "maskSelf cn bs = bs" using Node.prems by auto
  have on: "cn \<le> c" "commonBits bs ip \<ge> cn" using Node.prems(5) by (auto split: if_splits)
  then have keq: "key bs cn = key ip cn" using commonBits_key [of bs n ip cn] len Node.prems by simp
  show ?case
  proof (cases "cn = c")
    case True
    then have "bs = maskSelf c ip"
      using maskSelf_eq_iff [of bs "maskSelf c ip" c] len keq Node.prems
      by (simp add: maskSelf_idem key_maskSelf)
    then show ?thesis using True on Node.prems keq by auto
  next
    case False
    then have lt: "cn < c" using on by simp
    define b where "b = choose_bit cn ip"
    define s where "s = (if b then r else l)"
    obtain path' where p': "nodePlacement s ip c = (Some path', True)" "path = b # path'"
    proof -
      obtain par ex where np: "nodePlacement s ip c = (par, ex)" by fastforce
      then have "par \<noteq> None \<or> \<not> ex"
        by (cases s) (auto simp: Let_def split: if_splits prod.splits option.splits)
      then show ?thesis using that Node.prems(5) False on np
        by (auto simp: b_def s_def Let_def split: option.splits if_splits)
    qed
    have sinv: "trie_inv n (key bs cn @ [b]) s" using Node.prems by (cases b) (simp_all add: s_def)
    have pk: "prefix (key bs cn) (key ip c)" "key ip c \<noteq> key bs cn" "key ip c ! cn = b"
      using lt Node.prems prefix_key [of cn c ip] keq length_key [of c ip] length_key [of cn bs] len
      by (auto simp: nth_key b_def)
    have "\<exists>l r. subtree path' s = Node (tmap s (key ip c)) (maskSelf c ip) c l r"
      using Node.IH [OF _ Node.prems(2,3,4)] sinv p'(1) by (cases b) (auto simp: s_def)
    then show ?thesis using pk p'(2) by (simp add: s_def)
  qed
qed

lemma nodePlacement_not_exact:
  "trie_inv n pre t \<Longrightarrow> length ip = n \<Longrightarrow> addr_len n \<Longrightarrow> c \<le> 8 * n \<Longrightarrow>
   \<not> snd (nodePlacement t ip c) \<Longrightarrow> tmap t (key ip c) = None"
proof (induction t arbitrary: pre)
  case Nilp
  then show ?case by simp
next
  case (Node q bs cn l r)
  have len: "length bs = n" "cn \<le> 8 * n" using Node.prems by auto
  show ?case
  proof (cases "cn \<le> c \<and> commonBits bs ip \<ge> cn")
    case False
    have "\<not> prefix (key bs cn) (key ip c)"
    proof
      assume pk: "prefix (key bs cn) (key ip c)"
      then have "cn \<le> c" using prefix_length_le len Node.prems by (fastforce simp: length_key)
      moreover have "key bs cn = key ip cn"
        using prefix_take_eq [OF pk] len \<open>cn \<le> c\<close> by (simp add: length_key key_take)
      ultimately show False using False commonBits_key [of bs n ip cn] len Node.prems by simp
    qed
    then show ?thesis by auto
  next
    case True
    then have keq: "key bs cn = key ip cn" using commonBits_key [of bs n ip cn] len Node.prems by simp
    have lt: "cn < c" using True Node.prems(5) by (cases "cn = c") auto
    define b where "b = choose_bit cn ip"
    define s where "s = (if b then r else l)"
    have sinv: "trie_inv n (key bs cn @ [b]) s" using Node.prems by (cases b) (simp_all add: s_def)
    have "\<not> snd (nodePlacement s ip c)"
      using Node.prems(5) True lt
      by (auto simp: b_def s_def Let_def split: option.splits prod.splits if_splits)
    then have "tmap s (key ip c) = None"
      using Node.IH [OF _ Node.prems(2,3,4)] sinv by (cases b) (auto simp: s_def)
    moreover have "key ip c \<noteq> key bs cn" "key ip c ! cn = b"
      using lt Node.prems length_key [of c ip] length_key [of cn bs] len by (auto simp: nth_key b_def)
    ultimately show ?thesis by (auto simp: s_def)
  qed
qed

lemma nodePlacement_None: "nodePlacement t ip c = (None, ex) \<Longrightarrow> \<not> ex"
  by (cases t) (auto simp: Let_def split: if_splits prod.splits option.splits)

lemma insert_entries_move:
  assumes "trie_inv n [] t" "length ip = n" "addr_len n" "c \<le> 8 * n"
  shows "insert_entries t ip c p es =
    addToPeerEntries p (maskSelf c ip, c) (removeFromPeerEntries (tmap t (key ip c)) (maskSelf c ip, c) es)"
proof (cases "nodePlacement t ip c")
  case (Pair par ex)
  show ?thesis
  proof (cases ex)
    case True
    then obtain path where p: "par = Some path" using nodePlacement_None Pair by (cases par) auto
    then have "nodePlacement t ip c = (Some path, True)" using Pair True by simp
    then obtain l r where "subtree path t = Node (tmap t (key ip c)) (maskSelf c ip) c l r"
      using nodePlacement_exact [OF assms] by blast
    then show ?thesis using Pair True p by (simp add: insert_entries_def)
  next
    case False
    then have "tmap t (key ip c) = None" using nodePlacement_not_exact [OF assms] Pair by simp
    then show ?thesis using Pair False
      by (auto simp: insert_entries_def removeFromPeerEntries_def split: option.splits)
  qed
qed

lemma entry_node_eq:
  assumes "entry_node bs c" "entry_node bs' c'" "length bs = length bs'" "key bs c = key bs' c'"
  shows "bs = bs' \<and> c = c'"
proof -
  have "c = c'" using assms by (metis entry_node_def length_key)
  then show ?thesis using assms maskSelf_eq_iff [of bs bs' c] by (simp add: entry_node_def)
qed

lemma trie_insert_correct:
  assumes "trie_inv n [] t" "length ip = n" "addr_len n" "c \<le> 8 * n"
  shows "trie_inv n [] (trie_insert t ip c p)" "tmap (trie_insert t ip c p) = (tmap t)(key ip c \<mapsto> p)"
  using ins_correct [OF assms, of p] trie_insert_ins [OF assms, of p] by simp_all

lemma Insert_correct:
  assumes inv: "allowed_inv a" and ok: "prefix_ok pfx"
  defines "ip \<equiv> AsSlice (pAddr pfx)" and "c \<equiv> pBits pfx"
  shows "\<exists>a'. Insert pfx p a = Some a' \<and> allowed_inv a' \<and>
    (\<forall>n. addr_len n \<longrightarrow>
       routes a' n = (if n = length ip then (routes a n)(key ip c \<mapsto> p) else routes a n))"
proof -
  have n: "addr_len (length ip)" "c \<le> 8 * length ip"
    using ok by (cases "pAddr pfx"; simp add: prefix_ok_def ip_def c_def addr_len_def)+
  let ?t = "trie_of a (length ip)"
  have t: "trie_inv (length ip) [] ?t" using trie_of_inv [OF inv n(1)] .
  define a' where "a' = (if length ip = 16 then a\<lparr>IPv6 := trie_insert ?t ip c p\<rparr>
      else a\<lparr>IPv4 := trie_insert ?t ip c p\<rparr>)\<lparr>trieEntries := insert_entries ?t ip c p (trieEntries a)\<rparr>"
  have ins: "Insert pfx p a = Some a'"
    using ok by (cases "pAddr pfx") (auto simp: Insert_def a'_def ip_def c_def trie_of_def prefix_ok_def)
  have rt: "routes a' n = (if n = length ip then (routes a n)(key ip c \<mapsto> p) else routes a n)"
    if "addr_len n" for n
  proof -
    have "trie_of a' n = (if n = length ip then trie_insert ?t ip c p else trie_of a n)"
      using that n(1) unfolding addr_len_def by (elim disjE) (simp_all add: a'_def trie_of_def)
    then show ?thesis using trie_insert_correct(2) [OF t refl n, of p]
      by (cases "n = length ip") (simp_all only: routes_def if_True if_False refl)
  qed
  have own: "owner a' = (owner a)(((maskSelf c ip, c)) \<mapsto> p)"
  proof
    fix k :: "bytes \<times> nat"
    obtain bs d where k: "k = (bs, d)" by fastforce
    have en: "entry_node (maskSelf c ip) c" using n by (simp add: entry_node_def maskSelf_idem)
    show "owner a' k = ((owner a)(((maskSelf c ip, c)) \<mapsto> p)) k"
    proof (cases "entry_node bs d")
      case True
      then have "addr_len (length bs)" by (simp add: entry_node_def)
      then have new: "routes a' (length bs) (key bs d) =
          (if length bs = length ip \<and> key bs d = key ip c then Some p else routes a (length bs) (key bs d))"
        using rt [of "length bs"] by simp
      have same: "(length bs = length ip \<and> key bs d = key ip c) = (k = (maskSelf c ip, c))"
        using entry_node_eq [OF True en] n by (auto simp: k key_maskSelf)
      show ?thesis using True new unfolding same by (simp add: k owner_def)
    next
      case False
      then show ?thesis using en by (auto simp: k owner_def)
    qed
  qed
  have old: "owner a (maskSelf c ip, c) = tmap ?t (key ip c)"
    using n by (simp add: owner_def entry_node_def maskSelf_idem routes_def key_maskSelf)
  have "entries_ok (trieEntries a') (owner a')"
    using entries_ok_move [of "trieEntries a" "owner a" p "(maskSelf c ip, c)"] inv
    unfolding own by (simp add: a'_def allowed_inv_def insert_entries_move [OF t refl n] old)
  moreover have "trie_inv 4 [] (IPv4 a') \<and> trie_inv 16 [] (IPv6 a')"
    using trie_insert_correct(1) [OF t refl n, of p] inv n(1) unfolding addr_len_def
    by (elim disjE) (simp_all add: a'_def allowed_inv_def trie_of_def)
  ultimately have "allowed_inv a'" by (simp add: allowed_inv_def)
  then show ?thesis using ins rt by blast
qed

lemma tmap_entry:
  "trie_inv n pre t \<Longrightarrow> tmap t k = Some p \<Longrightarrow>
   \<exists>bs c. length bs = n \<and> c \<le> 8 * n \<and> maskSelf c bs = bs \<and> k = key bs c"
proof (induction t arbitrary: pre)
  case Nilp
  then show ?case by simp
next
  case (Node q bs c l r)
  show ?case
  proof (cases "k = key bs c")
    case True
    then show ?thesis using Node.prems by auto
  next
    case False
    then have "tmap (if k ! c then r else l) k = Some p"
      using Node.prems(2) by (auto split: if_splits)
    moreover have "trie_inv n (key bs c @ [False]) l" "trie_inv n (key bs c @ [True]) r"
      using Node.prems(1) by simp_all
    ultimately show ?thesis using Node.IH(1) [of "key bs c @ [False]"] Node.IH(2) [of "key bs c @ [True]"]
      by (cases "k ! c") (simp_all only: if_True if_False)
  qed
qed

lemma remove_entry_correct:
  assumes inv: "allowed_inv a" and own: "owner a (bs, c) = Some p"
  shows "allowed_inv (remove_entry p (bs, c) a) \<and>
    owner (remove_entry p (bs, c) a) = (owner a)((bs, c) := None) \<and>
    (\<forall>n. addr_len n \<longrightarrow> routes (remove_entry p (bs, c) a) n =
       (if n = length bs then (routes a n)(key bs c := None) else routes a n)) \<and>
    trieEntries (remove_entry p (bs, c) a) = (trieEntries a)(p := remove1 (bs, c) (trieEntries a p))"
proof -
  have en: "entry_node bs c" and rt: "routes a (length bs) (key bs c) = Some p"
    using own by (auto simp: owner_def split: if_splits)
  have n: "addr_len (length bs)" "c \<le> 8 * length bs" "maskSelf c bs = bs"
    using en by (auto simp: entry_node_def)
  let ?t = "trie_of a (length bs)"
  have t: "trie_inv (length bs) [] ?t" using trie_of_inv [OF inv n(1)] .
  obtain path l r where path: "node_path ?t bs c = Some path" "subtree path ?t = Node (Some p) bs c l r"
    using node_path_exists [OF t rt [unfolded routes_def] refl n(2,3)] by blast
  have rm: "trie_inv (length bs) [] (remove_node path ?t)"
    "tmap (remove_node path ?t) = (tmap ?t)(key bs c := None)"
    using remove_node_correct [OF t path(2)] by blast+
  define a' where "a' = remove_entry p (bs, c) a"
  have es: "trieEntries a' = removeFromPeerEntries (Some p) (bs, c) (trieEntries a)"
    by (simp add: a'_def remove_entry_def Let_def)
  have tr: "trie_of a' n = (if n = length bs then remove_node path ?t else trie_of a n)"
    if "addr_len n" for n
    using that n(1) path(1) unfolding addr_len_def
    by (elim disjE) (simp_all add: a'_def remove_entry_def trie_of_def Let_def)
  have rt': "routes a' n = (if n = length bs then (routes a n)(key bs c := None) else routes a n)"
    if "addr_len n" for n
    using rm(2) tr [OF that] by (cases "n = length bs") (simp_all only: routes_def if_True if_False refl)
  have own': "owner a' = (owner a)((bs, c) := None)"
  proof
    fix k :: "bytes \<times> nat"
    obtain bs' d where k: "k = (bs', d)" by fastforce
    show "owner a' k = ((owner a)((bs, c) := None)) k"
    proof (cases "entry_node bs' d")
      case True
      then have "addr_len (length bs')" by (simp add: entry_node_def)
      then have new: "routes a' (length bs') (key bs' d) =
          (if length bs' = length bs \<and> key bs' d = key bs c then None else routes a (length bs') (key bs' d))"
        using rt' [of "length bs'"] by simp
      have same: "(length bs' = length bs \<and> key bs' d = key bs c) = (k = (bs, c))"
        using entry_node_eq [OF True en] by (auto simp: k)
      show ?thesis using True new unfolding same by (simp add: k owner_def)
    next
      case False
      then show ?thesis using en by (auto simp: k owner_def)
    qed
  qed
  have "entries_ok (trieEntries a') (owner a')"
    unfolding es own' using entries_ok_remove own inv by (auto simp: allowed_inv_def)
  moreover have ti: "trie_inv m [] (trie_of a' m)" if "addr_len m" for m
    using tr [OF that] rm(1) trie_of_inv [OF inv that] by simp
  have "trie_inv 4 [] (IPv4 a')" "trie_inv 16 [] (IPv6 a')"
    using ti [of 4] ti [of 16] by (simp_all add: addr_len_def trie_of_def)
  ultimately have "allowed_inv a'" by (simp add: allowed_inv_def)
  moreover have "\<forall>n. addr_len n \<longrightarrow> routes a' n =
      (if n = length bs then (routes a n)(key bs c := None) else routes a n)"
    using rt' by blast
  ultimately show ?thesis using own' es
    by (simp only: a'_def [symmetric] removeFromPeerEntries_def option.case simp_thms)
qed

lemma RemoveByPeer_fold:
  "allowed_inv a \<Longrightarrow> trieEntries a p = es \<Longrightarrow>
   allowed_inv (fold (remove_entry p) es a) \<and>
   trieEntries (fold (remove_entry p) es a) p = [] \<and>
   (\<forall>n k. addr_len n \<longrightarrow> routes (fold (remove_entry p) es a) n k =
      (if \<exists>bs c. (bs, c) \<in> set es \<and> length bs = n \<and> k = key bs c then None else routes a n k))"
proof (induction es arbitrary: a)
  case Nil
  then show ?case by simp
next
  case (Cons e es)
  obtain bs c where e: "e = (bs, c)" by fastforce
  have "owner a (bs, c) = Some p"
    using Cons.prems entries_ok_iff [of "trieEntries a" "owner a" "(bs, c)" p]
    by (simp add: allowed_inv_def e)
  note re = remove_entry_correct [OF Cons.prems(1) this]
  have "trieEntries (remove_entry p (bs, c) a) p = es" using re Cons.prems by (simp add: e)
  then show ?case using Cons.IH [of "remove_entry p (bs, c) a"] re by (simp add: e) blast
qed

lemma RemoveByPeer_correct:
  assumes inv: "allowed_inv a"
  shows "allowed_inv (RemoveByPeer p a) \<and> trieEntries (RemoveByPeer p a) p = [] \<and>
    (\<forall>n k. addr_len n \<longrightarrow>
       routes (RemoveByPeer p a) n k = (if routes a n k = Some p then None else routes a n k))"
proof -
  note f = RemoveByPeer_fold [OF inv refl, of p, folded RemoveByPeer_def]
  have "(\<exists>bs c. (bs, c) \<in> set (trieEntries a p) \<and> length bs = n \<and> k = key bs c) =
      (routes a n k = Some p)" if n: "addr_len n" for n k
  proof
    assume "routes a n k = Some p"
    then have "tmap (trie_of a n) k = Some p" by (simp add: routes_def)
    then obtain bs c where "length bs = n" "k = key bs c" "entry_node bs c"
      using tmap_entry [OF trie_of_inv [OF inv n], of k p] n by (auto simp: entry_node_def)
    then have "owner a (bs, c) = Some p"
      using \<open>routes a n k = Some p\<close> by (simp add: owner_def)
    then have "(bs, c) \<in> set (trieEntries a p)"
      using inv entries_ok_iff by (metis allowed_inv_def)
    then show "\<exists>bs c. (bs, c) \<in> set (trieEntries a p) \<and> length bs = n \<and> k = key bs c"
      using \<open>length bs = n\<close> \<open>k = key bs c\<close> by blast
  next
    assume "\<exists>bs c. (bs, c) \<in> set (trieEntries a p) \<and> length bs = n \<and> k = key bs c"
    then obtain bs c where "(bs, c) \<in> set (trieEntries a p)" "length bs = n" "k = key bs c" by blast
    moreover from this have "owner a (bs, c) = Some p"
      using inv entries_ok_iff by (metis allowed_inv_def)
    ultimately show "routes a n k = Some p" by (auto simp: owner_def split: if_splits)
  qed
  then show ?thesis using f by simp
qed

lemma Lookup_correct:
  "allowed_inv a \<Longrightarrow> addr_len (length ip) \<Longrightarrow>
   Lookup ip a = Some (longest_match (routes a (length ip)) (ip_bits ip))"
  using lookup_from_correct [OF trie_of_inv refl, of a ip None] unfolding addr_len_def
  by (elim disjE) (simp_all add: Lookup_def lookup_def routes_def trie_of_def addr_len_def split: option.splits)

lemma allowed_inv_zero: "allowed_inv zero_AllowedIPs"
  by (auto simp: allowed_inv_def zero_AllowedIPs_def entries_ok_def owner_def routes_def trie_of_def)

section \<open>The interface of cryptokey routing\<close>

text \<open>Configuration commands, and the routes a sequence of them specifies.\<close>

datatype 'p route_cmd = AddRoute Prefix 'p | DropPeer 'p

fun spec_step :: "'p route_cmd \<Rightarrow> (nat \<Rightarrow> bool list \<Rightarrow> 'p option) \<Rightarrow> nat \<Rightarrow> bool list \<Rightarrow> 'p option" where
  "spec_step (AddRoute pfx p) R =
     (let ip = AsSlice (pAddr pfx) in R(length ip := (R (length ip))(key ip (pBits pfx) \<mapsto> p)))"
| "spec_step (DropPeer p) R = (\<lambda>n k. if R n k = Some p then None else R n k)"

fun cmd_ok :: "'p route_cmd \<Rightarrow> bool" where
  "cmd_ok (AddRoute pfx p) = prefix_ok pfx"
| "cmd_ok (DropPeer p) = True"

fun run_cmds :: "(Prefix \<Rightarrow> 'p \<Rightarrow> 'a \<Rightarrow> 'a option) \<Rightarrow> ('p \<Rightarrow> 'a \<Rightarrow> 'a) \<Rightarrow> 'p route_cmd list \<Rightarrow> 'a \<Rightarrow> 'a option" where
  "run_cmds addr dropp [] a = Some a"
| "run_cmds addr dropp (AddRoute pfx p # cs) a =
     (case addr pfx p a of None \<Rightarrow> None | Some a' \<Rightarrow> run_cmds addr dropp cs a')"
| "run_cmds addr dropp (DropPeer p # cs) a = run_cmds addr dropp cs (dropp p a)"

definition same_routes :: "(nat \<Rightarrow> bool list \<Rightarrow> 'p option) \<Rightarrow> (nat \<Rightarrow> bool list \<Rightarrow> 'p option) \<Rightarrow> bool" where
  "same_routes R S = (\<forall>n. addr_len n \<longrightarrow> R n = S n)"

locale routing_table =
  fixes addr :: "Prefix \<Rightarrow> 'p \<Rightarrow> 'a \<Rightarrow> 'a option"
    and dropp :: "'p \<Rightarrow> 'a \<Rightarrow> 'a"
    and look :: "bytes \<Rightarrow> 'a \<Rightarrow> 'p option option"
    and abst :: "'a \<Rightarrow> nat \<Rightarrow> bool list \<Rightarrow> 'p option"
    and invar :: "'a \<Rightarrow> bool"
  assumes ins_law: "invar a \<Longrightarrow> prefix_ok pfx \<Longrightarrow>
      \<exists>a'. addr pfx p a = Some a' \<and> invar a' \<and> same_routes (abst a') (spec_step (AddRoute pfx p) (abst a))"
    and rem_law: "invar a \<Longrightarrow> invar (dropp p a) \<and> same_routes (abst (dropp p a)) (spec_step (DropPeer p) (abst a))"
    and look_law: "invar a \<Longrightarrow> addr_len (length ip) \<Longrightarrow>
      look ip a = Some (longest_match (abst a (length ip)) (ip_bits ip))"
begin

lemma same_routes_step: "same_routes R S \<Longrightarrow> same_routes (spec_step cmd R) (spec_step cmd S)"
  by (cases cmd) (auto simp: same_routes_def Let_def)

lemma run_refines:
  "invar a \<Longrightarrow> list_all cmd_ok cs \<Longrightarrow> same_routes (abst a) R \<Longrightarrow>
   \<exists>a'. run_cmds addr dropp cs a = Some a' \<and> invar a' \<and> same_routes (abst a') (fold spec_step cs R)"
proof (induction cs arbitrary: a R)
  case Nil
  then show ?case by simp
next
  case (Cons cmd cs)
  show ?case
  proof (cases cmd)
    case (AddRoute pfx p)
    then obtain a' where a': "addr pfx p a = Some a'" "invar a'"
      "same_routes (abst a') (spec_step (AddRoute pfx p) (abst a))"
      using ins_law [OF Cons.prems(1), of pfx p] Cons.prems(2) by auto
    have "same_routes (abst a') (spec_step cmd R)"
      using a'(3) same_routes_step [OF Cons.prems(3), of cmd] AddRoute
      by (simp add: same_routes_def del: spec_step.simps)
    then show ?thesis using Cons.IH [OF a'(2)] Cons.prems(2) a'(1) AddRoute by simp
  next
    case (DropPeer p)
    have "same_routes (abst (dropp p a)) (spec_step cmd R)"
      using rem_law [OF Cons.prems(1), of p] same_routes_step [OF Cons.prems(3), of cmd] DropPeer
      by (simp add: same_routes_def del: spec_step.simps)
    then show ?thesis using Cons.IH rem_law [OF Cons.prems(1), of p] Cons.prems(2) DropPeer by simp
  qed
qed

lemma run_lookup:
  assumes "invar a" "list_all cmd_ok cs" "same_routes (abst a) R" "addr_len (length ip)"
  shows "\<exists>a'. run_cmds addr dropp cs a = Some a' \<and>
    look ip a' = Some (longest_match (fold spec_step cs R (length ip)) (ip_bits ip))"
  using run_refines [OF assms(1-3)] look_law [OF _ assms(4)] assms(4)
  by (auto simp: same_routes_def)

end

interpretation aip: routing_table Insert RemoveByPeer Lookup routes allowed_inv
proof (unfold_locales, goal_cases)
  case (1 a pfx p)
  then show ?case using Insert_correct [OF 1, of p] by (auto simp: same_routes_def Let_def)
next
  case (2 a p)
  then show ?case using RemoveByPeer_correct [OF 2, of p] by (auto simp: same_routes_def fun_eq_iff)
next
  case (3 a ip)
  then show ?case by (rule Lookup_correct)
qed

section \<open>Properties\<close>

text \<open>C8: Configured by any sequence of insertions of valid prefixes and removals of peers, the
  table answers every lookup of an IPv4 or IPv6 address with the peer of the longest prefix
  that covers it among the routes the commands specify (later insertions of a prefix replace
  earlier ones, a removed peer loses all its routes), and no command panics.\<close>

theorem AllowedIPs_longest_match:
  assumes "list_all cmd_ok cs" "length ip = 4 \<or> length ip = 16"
  shows "\<exists>a. run_cmds Insert RemoveByPeer cs zero_AllowedIPs = Some a \<and>
    Lookup ip a = Some (longest_match (fold spec_step cs (\<lambda>_ _. None) (length ip)) (ip_bits ip))"
proof -
  have "same_routes (routes zero_AllowedIPs) (\<lambda>_ _. None)"
    by (auto simp: same_routes_def routes_def trie_of_def zero_AllowedIPs_def)
  then show ?thesis
    using aip.run_lookup [OF allowed_inv_zero assms(1)] assms(2) by (simp add: addr_len_def)
qed

theorem AllowedIPs_longest_match_witness:
  "\<exists>a. run_cmds Insert RemoveByPeer
      [AddRoute \<lparr>pAddr = Addr4 [10, 0, 0, 0], pBits = 8\<rparr> (1::nat),
       AddRoute \<lparr>pAddr = Addr4 [10, 1, 0, 0], pBits = 16\<rparr> 2, DropPeer 1] zero_AllowedIPs = Some a \<and>
    Lookup [10, 1, 2, 3] a = Some (longest_match (fold spec_step
      [AddRoute \<lparr>pAddr = Addr4 [10, 0, 0, 0], pBits = 8\<rparr> (1::nat),
       AddRoute \<lparr>pAddr = Addr4 [10, 1, 0, 0], pBits = 16\<rparr> 2, DropPeer 1]
      (\<lambda>_ _. None) (length [10, 1, 2, 3 :: byte])) (ip_bits [10, 1, 2, 3]))"
  by (rule AllowedIPs_longest_match) (simp_all add: prefix_ok_def)

text \<open>C9: The list kept with a peer is the list of its routes: after any sequence of valid
  commands \<open>EntriesForPeer\<close> reports every prefix routed to the peer exactly once, in
  masked form, and no other prefix; a removed peer has none.\<close>

theorem EntriesForPeer_exact:
  assumes "list_all cmd_ok cs"
  shows "\<exists>a. run_cmds Insert RemoveByPeer cs zero_AllowedIPs = Some a \<and>
    distinct (EntriesForPeer p a) \<and>
    set (EntriesForPeer p a) =
      {pfx. prefix_ok pfx \<and> maskSelf (pBits pfx) (AsSlice (pAddr pfx)) = AsSlice (pAddr pfx) \<and>
         fold spec_step cs (\<lambda>_ _. None) (length (AsSlice (pAddr pfx)))
           (key (AsSlice (pAddr pfx)) (pBits pfx)) = Some p}"
proof -
  let ?R = "fold spec_step cs (\<lambda>_ _. None)"
  have "same_routes (routes zero_AllowedIPs) (\<lambda>_ _. None)"
    by (auto simp: same_routes_def routes_def trie_of_def zero_AllowedIPs_def)
  then obtain a where run: "run_cmds Insert RemoveByPeer cs zero_AllowedIPs = Some a" "allowed_inv a"
    "same_routes (routes a) ?R"
    using aip.run_refines [OF allowed_inv_zero assms] by blast
  let ?f = "\<lambda>(bs, c). \<lparr>pAddr = (if length bs = 4 then Addr4 bs else Addr6 bs), pBits = c\<rparr> :: Prefix"
  have es: "distinct (trieEntries a p)" "set (trieEntries a p) = {k. owner a k = Some p}"
    using run(2) by (auto simp: allowed_inv_def entries_ok_def)
  have "distinct (EntriesForPeer p a)"
    unfolding EntriesForPeer_def distinct_map using es(1)
    by (auto simp: inj_on_def split: if_splits)
  moreover have "?f ` {k. owner a k = Some p} =
      {pfx. prefix_ok pfx \<and> maskSelf (pBits pfx) (AsSlice (pAddr pfx)) = AsSlice (pAddr pfx) \<and>
         ?R (length (AsSlice (pAddr pfx))) (key (AsSlice (pAddr pfx)) (pBits pfx)) = Some p}" (is "_ = ?S")
  proof (intro set_eqI iffI)
    fix pfx :: Prefix
    assume "pfx \<in> ?f ` {k. owner a k = Some p}"
    then obtain bs c where k: "owner a (bs, c) = Some p" "pfx = ?f (bs, c)" by auto
    then have "entry_node bs c" "routes a (length bs) (key bs c) = Some p"
      by (auto simp: owner_def split: if_splits)
    then show "pfx \<in> ?S" using k(2) run(3)
      by (auto simp: entry_node_def addr_len_def prefix_ok_def same_routes_def)
  next
    fix pfx :: Prefix
    assume pfx: "pfx \<in> ?S"
    let ?bs = "AsSlice (pAddr pfx)" and ?c = "pBits pfx"
    have al: "addr_len (length ?bs)" "pfx = ?f (?bs, ?c)"
      using pfx by (cases pfx; cases "pAddr pfx"; auto simp: prefix_ok_def addr_len_def)+
    then have "owner a (?bs, ?c) = Some p"
      using pfx run(3) by (simp add: owner_def entry_node_def prefix_ok_def same_routes_def)
    then show "pfx \<in> ?f ` {k. owner a k = Some p}" using al(2) by blast
  qed
  ultimately show ?thesis using run(1) es(2) by (auto simp: EntriesForPeer_def)
qed

theorem EntriesForPeer_exact_witness:
  "\<exists>a. run_cmds Insert RemoveByPeer [AddRoute \<lparr>pAddr = Addr4 [10, 1, 2, 3], pBits = 8\<rparr> (1::nat)]
      zero_AllowedIPs = Some a \<and> distinct (EntriesForPeer 1 a)"
  using EntriesForPeer_exact [of "[AddRoute \<lparr>pAddr = Addr4 [10, 1, 2, 3], pBits = 8\<rparr> (1::nat)]" 1]
  by (auto simp: prefix_ok_def)

fun node_count :: "'p trieEntry \<Rightarrow> nat" where
  "node_count Nilp = 0"
| "node_count (Node p bs c l r) = Suc (node_count l + node_count r)"

fun route_count :: "'p trieEntry \<Rightarrow> nat" where
  "route_count Nilp = 0"
| "route_count (Node p bs c l r) = (if p = None then 0 else 1) + route_count l + route_count r"

lemma node_count_bound: "trie_inv n pre t \<Longrightarrow> t \<noteq> Nilp \<Longrightarrow> node_count t < 2 * route_count t"
proof (induction t arbitrary: pre)
  case Nilp
  then show ?case by simp
next
  case (Node p bs c l r)
  have "node_count l < 2 * route_count l" if "l \<noteq> Nilp" using Node that by auto
  moreover have "node_count r < 2 * route_count r" if "r \<noteq> Nilp" using Node that by auto
  ultimately show ?case using Node.prems by (cases "l = Nilp"; cases "r = Nilp") auto
qed

text \<open>C10: Pruning works: after any sequence of valid commands neither trie has more than twice
  as many nodes as it has routes, so removing peers gives the memory of their routes back.\<close>

theorem AllowedIPs_compact:
  assumes "list_all cmd_ok cs"
  shows "\<exists>a. run_cmds Insert RemoveByPeer cs zero_AllowedIPs = Some a \<and>
    node_count (IPv4 a) \<le> 2 * route_count (IPv4 a) \<and> node_count (IPv6 a) \<le> 2 * route_count (IPv6 a)"
proof -
  have "same_routes (routes zero_AllowedIPs) (\<lambda>_ _. None)"
    by (auto simp: same_routes_def routes_def trie_of_def zero_AllowedIPs_def)
  then obtain a where run: "run_cmds Insert RemoveByPeer cs zero_AllowedIPs = Some a" "allowed_inv a"
    using aip.run_refines [OF allowed_inv_zero assms] by blast
  have le: "node_count t \<le> 2 * route_count t" if "trie_inv n [] t" for n and t :: "'a trieEntry"
    using node_count_bound [OF that] by (cases "t = Nilp") auto
  show ?thesis using run le by (auto simp: allowed_inv_def)
qed

theorem AllowedIPs_compact_witness:
  "\<exists>a. run_cmds Insert RemoveByPeer
      [AddRoute \<lparr>pAddr = Addr4 [10, 1, 2, 3], pBits = 8\<rparr> (1::nat), DropPeer 1] zero_AllowedIPs = Some a \<and>
    node_count (IPv4 a) \<le> 2 * route_count (IPv4 a)"
  using AllowedIPs_compact [of "[AddRoute \<lparr>pAddr = Addr4 [10, 1, 2, 3], pBits = 8\<rparr> (1::nat), DropPeer 1]"]
  by (auto simp: prefix_ok_def)

end
