(* ===== verification/IndexTable.thy ===== *)
theory IndexTable
  imports Vwarp_Prelude
begin

text \<open>
  \<open>wireguard/device/indextable.go\<close>: the table from 32-bit receiver indices to handshakes
  and keypairs. Pointers to peers, handshakes and keypairs are opaque values of the type
  parameters. The readings of the random source that one call of \<open>NewIndexForHandshake\<close> may
  take are a list; \<open>None\<close> as its result means that the loop is still running when they are
  used up.
\<close>

section \<open>The table\<close>

record ('p, 'h, 'k) IndexTableEntry =
  it_peer :: "'p option"
  it_handshake :: "'h option"
  it_keypair :: "'k option"

type_synonym ('p, 'h, 'k) index_map = "u32 \<rightharpoonup> ('p, 'h, 'k) IndexTableEntry"

definition zero_entry :: "('p, 'h, 'k) IndexTableEntry" where
  "zero_entry = \<lparr>it_peer = None, it_handshake = None, it_keypair = None\<rparr>"

text \<open>A reading of four random bytes, or a failure of the source.\<close>

definition randUint32 :: "bytes option \<Rightarrow> u32 \<times> bool" where
  "randUint32 rd = (case rd of None \<Rightarrow> (0, False) | Some b \<Rightarrow> (of_nat (le_nat b), True))"

definition idx_Init :: "('p, 'h, 'k) index_map" where
  "idx_Init = Map.empty"

definition idx_Delete :: "u32 \<Rightarrow> ('p, 'h, 'k) index_map \<Rightarrow> ('p, 'h, 'k) index_map" where
  "idx_Delete i tbl = tbl(i := None)"

definition SwapIndexForKeypair :: "u32 \<Rightarrow> 'k \<Rightarrow> ('p, 'h, 'k) index_map \<Rightarrow> ('p, 'h, 'k) index_map" where
  "SwapIndexForKeypair i keypair tbl =
     (case tbl i of
        None \<Rightarrow> tbl
      | Some entry \<Rightarrow>
          tbl(i \<mapsto> \<lparr>it_peer = it_peer entry, it_handshake = None, it_keypair = Some keypair\<rparr>))"

fun NewIndexForHandshake ::
  "'p \<Rightarrow> 'h \<Rightarrow> bytes option list \<Rightarrow> ('p, 'h, 'k) index_map \<Rightarrow> (u32 \<times> bool \<times> ('p, 'h, 'k) index_map) option" where
  "NewIndexForHandshake p h [] tbl = None"
| "NewIndexForHandshake p h (rd # rds) tbl =
     (let (i, ok) = randUint32 rd in
      if \<not> ok then Some (i, False, tbl)
      else if tbl i \<noteq> None then NewIndexForHandshake p h rds tbl
      else Some (i, True, tbl(i \<mapsto> \<lparr>it_peer = Some p, it_handshake = Some h, it_keypair = None\<rparr>)))"

definition idx_Lookup :: "u32 \<Rightarrow> ('p, 'h, 'k) index_map \<Rightarrow> ('p, 'h, 'k) IndexTableEntry" where
  "idx_Lookup i tbl = (case tbl i of None \<Rightarrow> zero_entry | Some e \<Rightarrow> e)"

section \<open>Operations\<close>

lemma NewIndex_fresh:
  "NewIndexForHandshake p h rds tbl = Some (i, True, tbl') \<Longrightarrow>
   tbl i = None \<and> tbl' = tbl(i \<mapsto> \<lparr>it_peer = Some p, it_handshake = Some h, it_keypair = None\<rparr>)"
  by (induction p h rds tbl rule: NewIndexForHandshake.induct)
    (auto simp: Let_def split: prod.splits if_splits)

lemma NewIndex_error:
  "NewIndexForHandshake p h rds tbl = Some (i, False, tbl') \<Longrightarrow> i = 0 \<and> tbl' = tbl"
  by (induction p h rds tbl rule: NewIndexForHandshake.induct)
    (auto simp: Let_def randUint32_def split: prod.splits if_splits option.splits)

lemma NewIndex_returns:
  "rd \<in> set rds \<Longrightarrow> (case rd of None \<Rightarrow> True | Some b \<Rightarrow> tbl (of_nat (le_nat b)) = None) \<Longrightarrow>
   \<exists>r. NewIndexForHandshake p h rds tbl = Some r"
  by (induction p h rds tbl rule: NewIndexForHandshake.induct)
    (auto simp: Let_def randUint32_def split: option.splits)

section \<open>The interface of an index table\<close>

text \<open>Operations on the table, as the handshake and the sessions perform them.\<close>

datatype ('p, 'h, 'k) idx_op =
    Op_New 'p 'h "bytes option list"
  | Op_Swap u32 'k
  | Op_Delete u32

text \<open>Whether an operation names an index; an allocation picks its own.\<close>

fun names_index :: "u32 \<Rightarrow> ('p, 'h, 'k) idx_op \<Rightarrow> bool" where
  "names_index i (Op_New p h rds) = False"
| "names_index i (Op_Swap j k) = (i = j)"
| "names_index i (Op_Delete j) = (i = j)"

locale index_table =
  fixes look :: "u32 \<Rightarrow> 't \<Rightarrow> ('p, 'h, 'k) IndexTableEntry"
    and used :: "u32 \<Rightarrow> 't \<Rightarrow> bool"
    and new :: "'p \<Rightarrow> 'h \<Rightarrow> bytes option list \<Rightarrow> 't \<Rightarrow> (u32 \<times> bool \<times> 't) option"
    and swap :: "u32 \<Rightarrow> 'k \<Rightarrow> 't \<Rightarrow> 't"
    and del :: "u32 \<Rightarrow> 't \<Rightarrow> 't"
  assumes new_fresh: "new p h rds t = Some (i, True, t') \<Longrightarrow> \<not> used i t"
    and new_look: "new p h rds t = Some (i, True, t') \<Longrightarrow> look j t' =
      (if j = i then \<lparr>it_peer = Some p, it_handshake = Some h, it_keypair = None\<rparr> else look j t)"
    and new_used: "new p h rds t = Some (i, True, t') \<Longrightarrow> used j t' = (j = i \<or> used j t)"
    and new_fail: "new p h rds t = Some (i, False, t') \<Longrightarrow> t' = t"
    and swap_look: "look j (swap i k t) =
      (if j = i \<and> used i t
       then \<lparr>it_peer = it_peer (look i t), it_handshake = None, it_keypair = Some k\<rparr> else look j t)"
    and swap_used: "used j (swap i k t) = used j t"
    and del_look: "look j (del i t) = (if j = i then zero_entry else look j t)"
    and del_used: "used j (del i t) = (j \<noteq> i \<and> used j t)"
begin

definition apply_op :: "('p, 'h, 'k) idx_op \<Rightarrow> 't \<Rightarrow> 't" where
  "apply_op opn t =
     (case opn of
        Op_New p h rds \<Rightarrow> (case new p h rds t of None \<Rightarrow> t | Some (i, ok, t') \<Rightarrow> t')
      | Op_Swap i k \<Rightarrow> swap i k t
      | Op_Delete i \<Rightarrow> del i t)"

text \<open>An index in use keeps its entry through every operation that does not name it.\<close>

lemma entry_stable_step:
  assumes "used i t" "\<not> names_index i opn"
  shows "look i (apply_op opn t) = look i t \<and> used i (apply_op opn t)"
proof (cases opn)
  case (Op_New p h rds)
  show ?thesis
  proof (cases "new p h rds t")
    case None
    then show ?thesis using Op_New assms by (simp add: apply_op_def)
  next
    case (Some r)
    then obtain j ok t' where r: "new p h rds t = Some (j, ok, t')" by (cases r) auto
    show ?thesis
    proof (cases ok)
      case True
      then show ?thesis using r new_fresh [of p h rds t j t'] new_look [of p h rds t j t' i]
          new_used [of p h rds t j t' i] assms Op_New by (auto simp: apply_op_def)
    next
      case False
      then show ?thesis using r new_fail [of p h rds t j t'] assms Op_New by (simp add: apply_op_def)
    qed
  qed
qed (use assms in \<open>auto simp: apply_op_def swap_look swap_used del_look del_used\<close>)

lemma entry_stable_run:
  "used i t \<Longrightarrow> \<not> list_ex (names_index i) ops \<Longrightarrow>
   look i (fold apply_op ops t) = look i t \<and> used i (fold apply_op ops t)"
  by (induction ops arbitrary: t) (auto simp: entry_stable_step)

end

definition idx_used :: "u32 \<Rightarrow> ('p, 'h, 'k) index_map \<Rightarrow> bool" where
  "idx_used i tbl = (tbl i \<noteq> None)"

interpretation it: index_table idx_Lookup idx_used NewIndexForHandshake SwapIndexForKeypair idx_Delete
  by unfold_locales
    (auto simp: idx_Lookup_def idx_used_def SwapIndexForKeypair_def idx_Delete_def
      dest!: NewIndex_fresh NewIndex_error split: option.splits)

section \<open>Properties\<close>

definition idx_apply :: "('p, 'h, 'k) idx_op \<Rightarrow> ('p, 'h, 'k) index_map \<Rightarrow> ('p, 'h, 'k) index_map" where
  "idx_apply opn tbl =
     (case opn of
        Op_New p h rds \<Rightarrow> (case NewIndexForHandshake p h rds tbl of None \<Rightarrow> tbl | Some (i, ok, t') \<Rightarrow> t')
      | Op_Swap i k \<Rightarrow> SwapIndexForKeypair i k tbl
      | Op_Delete i \<Rightarrow> idx_Delete i tbl)"

lemma idx_apply_eq: "it.apply_op = idx_apply"
  by (simp add: fun_eq_iff it.apply_op_def idx_apply_def)

text \<open>C11: An index handed out for a handshake was free, resolves to that handshake while other
  peers allocate, swap and delete other indices, and once the session is derived it resolves
  to the keypair of the same peer and no longer to the handshake.\<close>

theorem index_life_cycle:
  assumes "NewIndexForHandshake p h rds tbl = Some (i, True, tbl1)"
    and "\<not> list_ex (names_index i) ops1" "\<not> list_ex (names_index i) ops2"
  shows "tbl i = None \<and>
    idx_Lookup i (fold idx_apply ops1 tbl1) =
      \<lparr>it_peer = Some p, it_handshake = Some h, it_keypair = None\<rparr> \<and>
    idx_Lookup i (fold idx_apply ops2 (SwapIndexForKeypair i k (fold idx_apply ops1 tbl1))) =
      \<lparr>it_peer = Some p, it_handshake = None, it_keypair = Some k\<rparr>"
proof -
  define tbl2 where "tbl2 = fold idx_apply ops1 tbl1"
  have new: "tbl i = None" "idx_Lookup i tbl1 = \<lparr>it_peer = Some p, it_handshake = Some h, it_keypair = None\<rparr>"
    "idx_used i tbl1"
    using NewIndex_fresh [OF assms(1)] by (auto simp: idx_Lookup_def idx_used_def)
  have u2: "idx_Lookup i tbl2 = idx_Lookup i tbl1 \<and> idx_used i tbl2"
    unfolding tbl2_def idx_apply_eq [symmetric] using it.entry_stable_run [OF new(3) assms(2)] .
  then have "idx_used i (SwapIndexForKeypair i k tbl2)" by (simp add: it.swap_used)
  then have "idx_Lookup i (fold idx_apply ops2 (SwapIndexForKeypair i k tbl2)) =
      idx_Lookup i (SwapIndexForKeypair i k tbl2)"
    unfolding idx_apply_eq [symmetric] using it.entry_stable_run assms(3) by blast
  then show ?thesis using new u2 by (simp add: it.swap_look tbl2_def)
qed

theorem index_life_cycle_witness:
  "idx_Lookup 0x04030201 (fold idx_apply [Op_Delete 7] (SwapIndexForKeypair 0x04030201 (30::nat)
      (fold idx_apply [Op_New (11::nat) (21::nat) [Some [9, 9, 9, 9]]]
        [0x04030201 \<mapsto> \<lparr>it_peer = Some 10, it_handshake = Some 20, it_keypair = None\<rparr>]))) =
    \<lparr>it_peer = Some 10, it_handshake = None, it_keypair = Some 30\<rparr>"
proof -
  have i: "(of_nat (le_nat [1, 2, 3, 4]) :: u32) = 0x04030201" by (simp add: le_nat_def)
  have "NewIndexForHandshake (10::nat) (20::nat) [Some [1, 2, 3, 4]] Map.empty =
      Some (0x04030201, True, [0x04030201 \<mapsto> \<lparr>it_peer = Some 10, it_handshake = Some 20, it_keypair = (None :: nat option)\<rparr>])"
    by (simp add: randUint32_def i)
  from index_life_cycle [OF this, of "[Op_New 11 21 [Some [9, 9, 9, 9]]]" "[Op_Delete 7]" 30]
  show ?thesis by simp
qed



end
