(* ===== verification/Noise_Base.thy ===== *)
theory Noise_Base
  imports Vwarp_Prelude
begin

text \<open>
  \<open>wireguard/device/noise-types.go\<close>, \<open>noise-helpers.go\<close> and the message formats of
  \<open>noise-protocol.go\<close>. The third-party primitives (BLAKE2s, X25519, ChaCha20-Poly1305) are the
  fields of a record \<open>Crypto\<close>, an argument of every definition that uses them; \<open>crypto_ok\<close>
  states their documented behaviour. HMAC is built from the hash as \<open>crypto/hmac\<close> builds it.
\<close>

section \<open>Primitives\<close>

record Crypto =
  sum256 :: "bytes \<Rightarrow> bytes"
  mac128 :: "bytes \<Rightarrow> bytes \<Rightarrow> bytes"
  scalarBaseMult :: "bytes \<Rightarrow> bytes"
  scalarMult :: "bytes \<Rightarrow> bytes \<Rightarrow> bytes"
  aeadSeal :: "bytes \<Rightarrow> bytes \<Rightarrow> bytes \<Rightarrow> bytes \<Rightarrow> bytes"
  aeadOpen :: "bytes \<Rightarrow> bytes \<Rightarrow> bytes \<Rightarrow> bytes \<Rightarrow> bytes option"
  xaeadSeal :: "bytes \<Rightarrow> bytes \<Rightarrow> bytes \<Rightarrow> bytes \<Rightarrow> bytes"
  xaeadOpen :: "bytes \<Rightarrow> bytes \<Rightarrow> bytes \<Rightarrow> bytes \<Rightarrow> bytes option"

text \<open>
  Output sizes, agreement of the Diffie-Hellman function on the public keys of two secrets,
  and decryption of what was encrypted under the same key, nonce and associated data.
\<close>

definition crypto_ok :: "Crypto \<Rightarrow> bool" where
  "crypto_ok C =
     ((\<forall>x. length (sum256 C x) = 32) \<and>
      (\<forall>k x. length (mac128 C k x) = 16) \<and>
      (\<forall>a. length (scalarBaseMult C a) = 32) \<and>
      (\<forall>a b. length (scalarMult C a b) = 32) \<and>
      (\<forall>a b. scalarMult C a (scalarBaseMult C b) = scalarMult C b (scalarBaseMult C a)) \<and>
      (\<forall>k n p ad. length (aeadSeal C k n p ad) = length p + 16) \<and>
      (\<forall>k n p ad. aeadOpen C k n (aeadSeal C k n p ad) ad = Some p) \<and>
      (\<forall>k n p ad. length (xaeadSeal C k n p ad) = length p + 16) \<and>
      (\<forall>k n p ad. xaeadOpen C k n (xaeadSeal C k n p ad) ad = Some p))"

lemma crypto_okD:
  assumes "crypto_ok C"
  shows "length (sum256 C x) = 32" "length (mac128 C k x) = 16"
    "length (scalarBaseMult C a) = 32" "length (scalarMult C a b) = 32"
    "scalarMult C a (scalarBaseMult C b) = scalarMult C b (scalarBaseMult C a)"
    "length (aeadSeal C k n p ad) = length p + 16" "aeadOpen C k n (aeadSeal C k n p ad) ad = Some p"
    "length (xaeadSeal C k n p ad) = length p + 16" "xaeadOpen C k n (xaeadSeal C k n p ad) ad = Some p"
  using assms by (auto simp: crypto_ok_def)

section \<open>Keys\<close>

definition NoisePublicKeySize :: nat where "NoisePublicKeySize = 32"
definition NoisePrivateKeySize :: nat where "NoisePrivateKeySize = 32"
definition NoisePresharedKeySize :: nat where "NoisePresharedKeySize = 32"

type_synonym NoisePublicKey = bytes
type_synonym NoisePrivateKey = bytes
type_synonym NoisePresharedKey = bytes

definition setZero :: "bytes \<Rightarrow> bytes" where
  "setZero arr = map (\<lambda>_. 0) arr"

definition ConstantTimeByteEq :: "byte \<Rightarrow> byte \<Rightarrow> int" where
  "ConstantTimeByteEq a b = (if a = b then 1 else 0)"

definition isZero :: "bytes \<Rightarrow> bool" where
  "isZero val = (fold (\<lambda>b acc. acc AND ConstantTimeByteEq b 0) val (1 :: int) = 1)"

definition ConstantTimeCompare :: "bytes \<Rightarrow> bytes \<Rightarrow> int" where
  "ConstantTimeCompare x y =
     (if length x \<noteq> length y then 0
      else if fold (\<lambda>(a, b) v. v OR (a XOR b)) (zip x y) 0 = 0 then 1 else 0)"

definition key_Equals :: "bytes \<Rightarrow> bytes \<Rightarrow> bool" where
  "key_Equals key tar = (ConstantTimeCompare key tar = 1)"

definition key_IsZero :: "bytes \<Rightarrow> bool" where
  "key_IsZero key = key_Equals key (replicate 32 0)"

definition clamp :: "NoisePrivateKey \<Rightarrow> NoisePrivateKey" where
  "clamp sk = (let sk1 = sk[0 := sk ! 0 AND 248] in sk1[31 := (sk1 ! 31 AND 127) OR 64])"

text \<open>\<open>hex.DecodeString\<close> on an ASCII string: pairs of hexadecimal digits.\<close>

definition hexDigit :: "char \<Rightarrow> nat option" where
  "hexDigit c =
     (let n = of_char c in
      if 48 \<le> n \<and> n \<le> 57 then Some (n - 48)
      else if 97 \<le> n \<and> n \<le> 102 then Some (n - 87)
      else if 65 \<le> n \<and> n \<le> 70 then Some (n - 55)
      else None)"

fun hexDecode :: "string \<Rightarrow> bytes option" where
  "hexDecode [] = Some []"
| "hexDecode [c] = None"
| "hexDecode (c # d # s) =
     (case (hexDigit c, hexDigit d, hexDecode s) of
        (Some h, Some l, Some bs) \<Rightarrow> Some (of_nat (16 * h + l) # bs)
      | _ \<Rightarrow> None)"

definition hexChar :: "nat \<Rightarrow> char" where
  "hexChar n = char_of (if n < 10 then 48 + n else 87 + n)"

fun hexEncode :: "bytes \<Rightarrow> string" where
  "hexEncode [] = []"
| "hexEncode (b # bs) = hexChar (unat b div 16) # hexChar (unat b mod 16) # hexEncode bs"

text \<open>\<open>loadExactHex\<close> leaves the destination as it is on an error; the flag says whether it succeeded.\<close>

definition loadExactHex :: "bytes \<Rightarrow> string \<Rightarrow> bool \<times> bytes" where
  "loadExactHex dst src =
     (case hexDecode src of
        None \<Rightarrow> (False, dst)
      | Some sl \<Rightarrow> if length sl \<noteq> length dst then (False, dst) else (True, sl))"

definition privateKey_FromHex :: "NoisePrivateKey \<Rightarrow> string \<Rightarrow> bool \<times> NoisePrivateKey" where
  "privateKey_FromHex key src = (let (ok, k) = loadExactHex key src in (ok, clamp k))"

definition FromMaybeZeroHex :: "NoisePrivateKey \<Rightarrow> string \<Rightarrow> bool \<times> NoisePrivateKey" where
  "FromMaybeZeroHex key src =
     (let (ok, k) = loadExactHex key src in if key_IsZero k then (ok, k) else (ok, clamp k))"

definition publicKey_FromHex :: "NoisePublicKey \<Rightarrow> string \<Rightarrow> bool \<times> NoisePublicKey" where
  "publicKey_FromHex key src = loadExactHex key src"

definition presharedKey_FromHex :: "NoisePresharedKey \<Rightarrow> string \<Rightarrow> bool \<times> NoisePresharedKey" where
  "presharedKey_FromHex key src = loadExactHex key src"

text \<open>A private key from 32 random bytes; \<open>None\<close> is a failure of the random source.\<close>

definition newPrivateKey :: "bytes option \<Rightarrow> NoisePrivateKey \<times> bool" where
  "newPrivateKey rd =
     (case rd of
        None \<Rightarrow> (clamp (replicate 32 0), False)
      | Some b \<Rightarrow> (clamp b, True))"

definition publicKey :: "Crypto \<Rightarrow> NoisePrivateKey \<Rightarrow> NoisePublicKey" where
  "publicKey C sk = scalarBaseMult C sk"

text \<open>The secret, or \<open>errInvalidPublicKey\<close>.\<close>

definition sharedSecret :: "Crypto \<Rightarrow> NoisePrivateKey \<Rightarrow> NoisePublicKey \<Rightarrow> bytes \<times> bool" where
  "sharedSecret C sk pk =
     (let ss = scalarMult C sk pk in if isZero ss then (ss, False) else (ss, True))"

section \<open>Key derivation\<close>

definition hmac_pad :: "Crypto \<Rightarrow> bytes \<Rightarrow> bytes" where
  "hmac_pad C key =
     (let k = (if length key > 64 then sum256 C key else key) in k @ replicate (64 - length k) 0)"

definition hmac :: "Crypto \<Rightarrow> bytes \<Rightarrow> bytes \<Rightarrow> bytes" where
  "hmac C key m =
     (let k = hmac_pad C key
      in sum256 C (map (\<lambda>b. b XOR 0x5c) k @ sum256 C (map (\<lambda>b. b XOR 0x36) k @ m)))"

definition HMAC1 :: "Crypto \<Rightarrow> bytes \<Rightarrow> bytes \<Rightarrow> bytes" where
  "HMAC1 C key in0 = hmac C key in0"

definition HMAC2 :: "Crypto \<Rightarrow> bytes \<Rightarrow> bytes \<Rightarrow> bytes \<Rightarrow> bytes" where
  "HMAC2 C key in0 in1 = hmac C key (in0 @ in1)"

definition KDF1 :: "Crypto \<Rightarrow> bytes \<Rightarrow> bytes \<Rightarrow> bytes" where
  "KDF1 C key input = (let t0 = HMAC1 C key input in HMAC1 C t0 [1])"

definition KDF2 :: "Crypto \<Rightarrow> bytes \<Rightarrow> bytes \<Rightarrow> bytes \<times> bytes" where
  "KDF2 C key input =
     (let prk = HMAC1 C key input;
          t0 = HMAC1 C prk [1];
          t1 = HMAC2 C prk t0 [2]
      in (t0, t1))"

definition KDF3 :: "Crypto \<Rightarrow> bytes \<Rightarrow> bytes \<Rightarrow> bytes \<times> bytes \<times> bytes" where
  "KDF3 C key input =
     (let prk = HMAC1 C key input;
          t0 = HMAC1 C prk [1];
          t1 = HMAC2 C prk t0 [2];
          t2 = HMAC2 C prk t1 [3]
      in (t0, t1, t2))"

definition mixKey :: "Crypto \<Rightarrow> bytes \<Rightarrow> bytes \<Rightarrow> bytes" where
  "mixKey C c data = KDF1 C c data"

definition mixHash :: "Crypto \<Rightarrow> bytes \<Rightarrow> bytes \<Rightarrow> bytes" where
  "mixHash C h data = sum256 C (h @ data)"

definition string_bytes :: "string \<Rightarrow> bytes" where
  "string_bytes s = map (\<lambda>c. of_nat (of_char c)) s"

definition NoiseConstruction :: string where
  "NoiseConstruction = ''Noise_IKpsk2_25519_ChaChaPoly_BLAKE2s''"
definition WGIdentifier :: string where
  "WGIdentifier = ''WireGuard v1 zx2c4 Jason@zx2c4.com''"
definition WGLabelMAC1 :: string where "WGLabelMAC1 = ''mac1----''"
definition WGLabelCookie :: string where "WGLabelCookie = ''cookie--''"

definition InitialChainKey :: "Crypto \<Rightarrow> bytes" where
  "InitialChainKey C = sum256 C (string_bytes NoiseConstruction)"

definition InitialHash :: "Crypto \<Rightarrow> bytes" where
  "InitialHash C = mixHash C (InitialChainKey C) (string_bytes WGIdentifier)"

definition ZeroNonce :: bytes where
  "ZeroNonce = replicate 12 0"

section \<open>Messages\<close>

definition MessageInitiationType :: u32 where "MessageInitiationType = 1"
definition MessageResponseType :: u32 where "MessageResponseType = 2"
definition MessageCookieReplyType :: u32 where "MessageCookieReplyType = 3"
definition MessageTransportType :: u32 where "MessageTransportType = 4"

lemmas message_types = MessageInitiationType_def MessageResponseType_def
  MessageCookieReplyType_def MessageTransportType_def

definition MessageInitiationSize :: nat where "MessageInitiationSize = 148"
definition MessageResponseSize :: nat where "MessageResponseSize = 92"
definition MessageCookieReplySize :: nat where "MessageCookieReplySize = 64"
definition MessageTransportHeaderSize :: nat where "MessageTransportHeaderSize = 16"
definition MessageTransportSize :: nat where "MessageTransportSize = MessageTransportHeaderSize + 16"
definition MessageKeepaliveSize :: nat where "MessageKeepaliveSize = MessageTransportSize"
definition MessageHandshakeSize :: nat where "MessageHandshakeSize = MessageInitiationSize"
definition MessageTransportOffsetReceiver :: nat where "MessageTransportOffsetReceiver = 4"
definition MessageTransportOffsetCounter :: nat where "MessageTransportOffsetCounter = 8"
definition MessageTransportOffsetContent :: nat where "MessageTransportOffsetContent = 16"

lemmas message_sizes = MessageInitiationSize_def MessageResponseSize_def MessageCookieReplySize_def
  MessageTransportHeaderSize_def MessageTransportSize_def MessageKeepaliveSize_def
  MessageHandshakeSize_def MessageTransportOffsetReceiver_def MessageTransportOffsetCounter_def
  MessageTransportOffsetContent_def

record MessageInitiation =
  mi_Type :: u32
  mi_Sender :: u32
  mi_Ephemeral :: NoisePublicKey
  mi_Static :: bytes
  mi_Timestamp :: bytes
  mi_MAC1 :: bytes
  mi_MAC2 :: bytes

record MessageResponse =
  mr_Type :: u32
  mr_Sender :: u32
  mr_Receiver :: u32
  mr_Ephemeral :: NoisePublicKey
  mr_Empty :: bytes
  mr_MAC1 :: bytes
  mr_MAC2 :: bytes

record MessageCookieReply =
  mc_Type :: u32
  mc_Receiver :: u32
  mc_Nonce :: bytes
  mc_Cookie :: bytes

record MessageTransport =
  mt_Type :: u32
  mt_Receiver :: u32
  mt_Counter :: u64
  mt_Content :: bytes

text \<open>
  The arrays of a message have fixed sizes; \<open>binary.Write\<close> and \<open>binary.Read\<close> lay the fields
  out in order, integers in little-endian.
\<close>

definition initiation_ok :: "MessageInitiation \<Rightarrow> bool" where
  "initiation_ok m = (length (mi_Ephemeral m) = 32 \<and> length (mi_Static m) = 48 \<and>
     length (mi_Timestamp m) = 28 \<and> length (mi_MAC1 m) = 16 \<and> length (mi_MAC2 m) = 16)"

definition response_ok :: "MessageResponse \<Rightarrow> bool" where
  "response_ok m = (length (mr_Ephemeral m) = 32 \<and> length (mr_Empty m) = 16 \<and>
     length (mr_MAC1 m) = 16 \<and> length (mr_MAC2 m) = 16)"

definition cookie_reply_ok :: "MessageCookieReply \<Rightarrow> bool" where
  "cookie_reply_ok m = (length (mc_Nonce m) = 24 \<and> length (mc_Cookie m) = 32)"

definition put_u32 :: "u32 \<Rightarrow> bytes" where "put_u32 w = le_bytes 4 (unat w)"
definition put_u64 :: "u64 \<Rightarrow> bytes" where "put_u64 w = le_bytes 8 (unat w)"
definition get_u32 :: "nat \<Rightarrow> bytes \<Rightarrow> u32" where "get_u32 i b = of_nat (le_nat (slice i (i + 4) b))"
definition get_u64 :: "nat \<Rightarrow> bytes \<Rightarrow> u64" where "get_u64 i b = of_nat (le_nat (slice i (i + 8) b))"

definition write_initiation :: "MessageInitiation \<Rightarrow> bytes" where
  "write_initiation m =
     put_u32 (mi_Type m) @ put_u32 (mi_Sender m) @ mi_Ephemeral m @ mi_Static m @ mi_Timestamp m @
     mi_MAC1 m @ mi_MAC2 m"

definition read_initiation :: "bytes \<Rightarrow> MessageInitiation" where
  "read_initiation b =
     \<lparr>mi_Type = get_u32 0 b, mi_Sender = get_u32 4 b, mi_Ephemeral = slice 8 40 b,
      mi_Static = slice 40 88 b, mi_Timestamp = slice 88 116 b,
      mi_MAC1 = slice 116 132 b, mi_MAC2 = slice 132 148 b\<rparr>"

definition write_response :: "MessageResponse \<Rightarrow> bytes" where
  "write_response m =
     put_u32 (mr_Type m) @ put_u32 (mr_Sender m) @ put_u32 (mr_Receiver m) @ mr_Ephemeral m @
     mr_Empty m @ mr_MAC1 m @ mr_MAC2 m"

definition read_response :: "bytes \<Rightarrow> MessageResponse" where
  "read_response b =
     \<lparr>mr_Type = get_u32 0 b, mr_Sender = get_u32 4 b, mr_Receiver = get_u32 8 b,
      mr_Ephemeral = slice 12 44 b, mr_Empty = slice 44 60 b,
      mr_MAC1 = slice 60 76 b, mr_MAC2 = slice 76 92 b\<rparr>"

definition write_cookie_reply :: "MessageCookieReply \<Rightarrow> bytes" where
  "write_cookie_reply m = put_u32 (mc_Type m) @ put_u32 (mc_Receiver m) @ mc_Nonce m @ mc_Cookie m"

definition read_cookie_reply :: "bytes \<Rightarrow> MessageCookieReply" where
  "read_cookie_reply b =
     \<lparr>mc_Type = get_u32 0 b, mc_Receiver = get_u32 4 b, mc_Nonce = slice 8 32 b,
      mc_Cookie = slice 32 64 b\<rparr>"

section \<open>Lemmas\<close>

lemma isZero_iff: "isZero val = (\<forall>b \<in> set val. b = 0)"
proof -
  have "fold (\<lambda>b acc. acc AND ConstantTimeByteEq b 0) val a = (if \<forall>b \<in> set val. b = 0 then a else 0)"
    if "a = 0 \<or> a = 1" for a :: int
    using that by (induction val arbitrary: a) (auto simp: ConstantTimeByteEq_def)
  then show ?thesis by (simp add: isZero_def)
qed

lemma ConstantTimeCompare_iff: "(ConstantTimeCompare x y = 1) = (x = y)"
proof -
  have zero: "(a OR b = 0) = (a = 0 \<and> b = 0)" for a b :: byte
    by (auto simp: bit_eq_iff bit_or_iff)
  have *: "length x = length y \<Longrightarrow>
      (fold (\<lambda>(a, b) v. v OR (a XOR b)) (zip x y) v = 0) = (v = 0 \<and> x = y)" for v :: byte
  proof (induction x y arbitrary: v rule: list_induct2)
    case Nil
    then show ?case by simp
  next
    case (Cons a as b bs)
    have "(a XOR b = 0) = (a = b)" by (simp add: bit_eq_iff bit_xor_iff)
    then show ?case using Cons.IH [of "v OR (a XOR b)"] by (auto simp: zero)
  qed
  show ?thesis using * [of 0] by (auto simp: ConstantTimeCompare_def)
qed

lemma key_Equals_iff [simp]: "key_Equals x y = (x = y)"
  by (simp add: key_Equals_def ConstantTimeCompare_iff)

lemma hexDigit_hexChar: "n < 16 \<Longrightarrow> hexDigit (hexChar n) = Some n"
  by (auto simp: hexDigit_def hexChar_def Let_def)

lemma hexDecode_hexEncode: "hexDecode (hexEncode bs) = Some bs"
proof (induction bs)
  case Nil
  then show ?case by simp
next
  case (Cons b bs)
  have "unat b div 16 < 16" "unat b mod 16 < 16" using unat_byte_less [of b] by linarith+
  moreover have "16 * (unat b div 16) + unat b mod 16 = unat b" by simp
  ultimately show ?case using Cons.IH by (simp add: hexDigit_hexChar)
qed

lemma hexDecode_length: "hexDecode s = Some bs \<Longrightarrow> length s = 2 * length bs"
  by (induction s arbitrary: bs rule: hexDecode.induct) (auto split: option.splits)

lemma KDF_lengths:
  assumes "crypto_ok C"
  shows "length (KDF1 C k x) = 32" "length (fst (KDF2 C k x)) = 32" "length (snd (KDF2 C k x)) = 32"
    "length (mixKey C k x) = 32" "length (mixHash C k x) = 32"
  by (simp_all add: KDF1_def KDF2_def HMAC1_def HMAC2_def hmac_def mixKey_def mixHash_def Let_def
      crypto_okD [OF assms])

lemma put_u32_length [simp]: "length (put_u32 w) = 4" by (simp add: put_u32_def)
lemma put_u64_length [simp]: "length (put_u64 w) = 8" by (simp add: put_u64_def)

lemma get_put_u32: "le_nat (put_u32 w) = unat w"
  using unsigned_less [of w, where ?'a = nat] by (simp add: put_u32_def le_nat_le_bytes)

lemma get_put_u64: "le_nat (put_u64 w) = unat w"
  using unsigned_less [of w, where ?'a = nat] by (simp add: put_u64_def le_nat_le_bytes)

lemmas message_codec = write_initiation_def read_initiation_def write_response_def read_response_def
  write_cookie_reply_def read_cookie_reply_def get_u32_def get_u64_def slice_def

lemma initiation_roundtrip:
  "initiation_ok m \<Longrightarrow> length (write_initiation m) = MessageInitiationSize \<and>
   read_initiation (write_initiation m) = m"
  by (cases m) (simp add: initiation_ok_def message_codec message_sizes get_put_u32)

lemma response_roundtrip:
  "response_ok m \<Longrightarrow> length (write_response m) = MessageResponseSize \<and>
   read_response (write_response m) = m"
  by (cases m) (simp add: response_ok_def message_codec message_sizes get_put_u32)

lemma cookie_reply_roundtrip:
  "cookie_reply_ok m \<Longrightarrow> length (write_cookie_reply m) = MessageCookieReplySize \<and>
   read_cookie_reply (write_cookie_reply m) = m"
  by (cases m) (simp add: cookie_reply_ok_def message_codec message_sizes get_put_u32)

section \<open>A concrete instance of the primitives\<close>

text \<open>
  Not secure, but with the documented behaviour; it is used to show that the hypotheses on the
  primitives can be met.
\<close>

definition pad :: "nat \<Rightarrow> bytes \<Rightarrow> bytes" where
  "pad n x = take n (x @ replicate n 0)"

definition plain_crypto :: Crypto where
  "plain_crypto =
     \<lparr>sum256 = pad 32, mac128 = (\<lambda>k x. pad 16 (k @ x)),
      scalarBaseMult = pad 32, scalarMult = (\<lambda>a b. map2 (+) (pad 32 a) (pad 32 b)),
      aeadSeal = (\<lambda>k n p ad. p @ replicate 16 0),
      aeadOpen = (\<lambda>k n c ad. if length c < 16 then None else Some (take (length c - 16) c)),
      xaeadSeal = (\<lambda>k n p ad. p @ replicate 16 0),
      xaeadOpen = (\<lambda>k n c ad. if length c < 16 then None else Some (take (length c - 16) c))\<rparr>"

lemma length_pad [simp]: "length (pad n x) = n"
  by (simp add: pad_def)

lemma pad_pad [simp]: "pad n (pad n x) = pad n x"
  using length_pad [of n x] unfolding pad_def [of n "pad n x"] by simp

lemma plain_crypto_ok: "crypto_ok plain_crypto"
proof -
  have "map2 (+) x y = map2 (+) y x" for x y :: bytes
    by (induction x y rule: list_induct2') (auto simp: add.commute)
  then show ?thesis by (simp add: crypto_ok_def plain_crypto_def)
qed

end
