(* ===== verification/Cookie.thy ===== *)
theory Cookie
  imports Noise_Base
begin

text \<open>
  \<open>wireguard/device/cookie.go\<close>: the MACs of handshake messages and the cookie exchange that
  protects a loaded responder. The clock reading and the random bytes of a call are arguments
  (\<open>None\<close>: the random source failed). A slice with negative bounds is a panic, \<open>None\<close>.
\<close>

section \<open>State and operations\<close>

definition CookieRefreshTime :: duration where "CookieRefreshTime = Second * 120"

record CookieChecker =
  cc_mac1_key :: bytes
  cc_secret :: bytes
  cc_secretSet :: time
  cc_encryptionKey :: bytes

record CookieGenerator =
  cg_mac1_key :: bytes
  cg_cookie :: bytes
  cg_cookieSet :: time
  cg_hasLastMAC1 :: bool
  cg_lastMAC1 :: bytes
  cg_encryptionKey :: bytes

definition zero_CookieChecker :: CookieChecker where
  "zero_CookieChecker =
     \<lparr>cc_mac1_key = replicate 32 0, cc_secret = replicate 32 0, cc_secretSet = 0,
      cc_encryptionKey = replicate 32 0\<rparr>"

definition zero_CookieGenerator :: CookieGenerator where
  "zero_CookieGenerator =
     \<lparr>cg_mac1_key = replicate 32 0, cg_cookie = replicate 16 0, cg_cookieSet = 0,
      cg_hasLastMAC1 = False, cg_lastMAC1 = replicate 16 0, cg_encryptionKey = replicate 32 0\<rparr>"

definition checker_Init :: "Crypto \<Rightarrow> NoisePublicKey \<Rightarrow> CookieChecker \<Rightarrow> CookieChecker" where
  "checker_Init C pk st =
     st\<lparr>cc_mac1_key := sum256 C (string_bytes WGLabelMAC1 @ pk),
        cc_encryptionKey := sum256 C (string_bytes WGLabelCookie @ pk),
        cc_secretSet := 0\<rparr>"

definition CheckMAC1 :: "Crypto \<Rightarrow> CookieChecker \<Rightarrow> bytes \<Rightarrow> bool option" where
  "CheckMAC1 C st msg =
     (if length msg < 32 then None
      else let smac2 = length msg - 16;
               smac1 = smac2 - 16;
               mac1 = mac128 C (cc_mac1_key st) (take smac1 msg)
           in Some (ConstantTimeCompare mac1 (slice smac1 smac2 msg) = 1))"

definition CheckMAC2 :: "Crypto \<Rightarrow> CookieChecker \<Rightarrow> time \<Rightarrow> bytes \<Rightarrow> bytes \<Rightarrow> bool option" where
  "CheckMAC2 C st now msg src =
     (if time_Sub now (cc_secretSet st) > CookieRefreshTime then Some False
      else if length msg < 16 then None
      else let cookie = mac128 C (cc_secret st) src;
               smac2 = length msg - 16;
               mac2 = mac128 C cookie (take smac2 msg)
           in Some (ConstantTimeCompare mac2 (drop smac2 msg) = 1))"

text \<open>
  \<open>secret_rd\<close> are the bytes read for a new secret, if one is due at \<open>now\<close>, \<open>now'\<close> is the clock
  reading that stamps it, and \<open>nonce_rd\<close> are the bytes of the nonce.
\<close>

definition refresh_secret ::
  "CookieChecker \<Rightarrow> time \<Rightarrow> time \<Rightarrow> bytes option \<Rightarrow> bool \<times> CookieChecker" where
  "refresh_secret st now now' secret_rd =
     (if time_Sub now (cc_secretSet st) > CookieRefreshTime then
        (case secret_rd of
           None \<Rightarrow> (False, st)
         | Some s \<Rightarrow> (True, st\<lparr>cc_secret := s, cc_secretSet := now'\<rparr>))
      else (True, st))"

definition CreateReply ::
  "Crypto \<Rightarrow> CookieChecker \<Rightarrow> time \<Rightarrow> time \<Rightarrow> bytes option \<Rightarrow> bytes option \<Rightarrow> bytes \<Rightarrow> u32 \<Rightarrow> bytes \<Rightarrow>
   (MessageCookieReply option \<times> CookieChecker) option" where
  "CreateReply C st now now' secret_rd nonce_rd msg recv src =
     (case refresh_secret st now now' secret_rd of
        (False, st') \<Rightarrow> Some (None, st')
      | (True, st') \<Rightarrow>
          (case nonce_rd of
             None \<Rightarrow> Some (None, st')
           | Some nonce \<Rightarrow>
               if length msg < 32 then None
               else let cookie = mac128 C (cc_secret st') src;
                        smac2 = length msg - 16;
                        smac1 = smac2 - 16
                    in Some (Some \<lparr>mc_Type = MessageCookieReplyType, mc_Receiver = recv, mc_Nonce = nonce,
                         mc_Cookie = xaeadSeal C (cc_encryptionKey st') nonce cookie (slice smac1 smac2 msg)\<rparr>,
                       st')))"

definition generator_Init :: "Crypto \<Rightarrow> NoisePublicKey \<Rightarrow> CookieGenerator \<Rightarrow> CookieGenerator" where
  "generator_Init C pk st =
     st\<lparr>cg_mac1_key := sum256 C (string_bytes WGLabelMAC1 @ pk),
        cg_encryptionKey := sum256 C (string_bytes WGLabelCookie @ pk),
        cg_cookieSet := 0\<rparr>"

definition ConsumeReply :: "Crypto \<Rightarrow> CookieGenerator \<Rightarrow> time \<Rightarrow> MessageCookieReply \<Rightarrow> bool \<times> CookieGenerator" where
  "ConsumeReply C st now msg =
     (if \<not> cg_hasLastMAC1 st then (False, st)
      else case xaeadOpen C (cg_encryptionKey st) (mc_Nonce msg) (mc_Cookie msg) (cg_lastMAC1 st) of
             None \<Rightarrow> (False, st)
           | Some cookie \<Rightarrow> (True, st\<lparr>cg_cookieSet := now, cg_cookie := cookie\<rparr>))"

definition AddMacs :: "Crypto \<Rightarrow> CookieGenerator \<Rightarrow> time \<Rightarrow> bytes \<Rightarrow> (bytes \<times> CookieGenerator) option" where
  "AddMacs C st now msg =
     (if length msg < 32 then None
      else let smac2 = length msg - 16;
               smac1 = smac2 - 16;
               mac1 = mac128 C (cg_mac1_key st) (take smac1 msg);
               msg1 = put_at smac1 mac1 msg;
               st1 = st\<lparr>cg_lastMAC1 := mac1, cg_hasLastMAC1 := True\<rparr>
           in if time_Sub now (cg_cookieSet st) > CookieRefreshTime then Some (msg1, st1)
              else let mac2 = mac128 C (cg_cookie st) (take smac2 msg1)
                   in Some (put_at smac2 mac2 msg1, st1))"

section \<open>Lemmas\<close>

text \<open>The layout of a message with its two MACs.\<close>

lemma AddMacs_layout:
  fixes st :: CookieGenerator
  assumes ok: "crypto_ok C" and len: "32 \<le> length msg"
  defines "body \<equiv> take (length msg - 32) msg"
  defines "m1 \<equiv> mac128 C (cg_mac1_key st) body"
  shows "\<exists>m2. AddMacs C st now msg =
      Some (body @ m1 @ m2, st\<lparr>cg_lastMAC1 := m1, cg_hasLastMAC1 := True\<rparr>) \<and> length m2 = 16 \<and>
    (if time_Sub now (cg_cookieSet st) > CookieRefreshTime then m2 = drop (length msg - 16) msg
     else m2 = mac128 C (cg_cookie st) (body @ m1))"
proof -
  define n where "n = length msg - 32"
  have n: "length msg = n + 32" using len by (simp add: n_def)
  have b: "length body = n" by (simp add: body_def n)
  have l1: "length m1 = 16" by (simp add: m1_def crypto_okD [OF ok])
  have put1: "put_at n m1 msg = body @ m1 @ drop (16 + n) msg"
    using l1 by (simp add: put_at_def body_def n add.commute)
  have put2: "put_at (16 + n) m2 (body @ m1 @ x) = body @ m1 @ m2"
    if "length m2 = 16" "length x = 16" for m2 x
    using that b l1 by (simp add: put_at_def)
  have "body = take n msg" by (simp add: body_def n)
  then have mm: "mac128 C (cg_mac1_key st) (take n msg) = m1" by (simp add: m1_def)
  have d: "length (drop (16 + n) msg) = 16" using n by simp
  show ?thesis
    using len n b l1 d put2 [OF _ d] put1 crypto_okD(2) [OF ok]
    by (auto simp: AddMacs_def Let_def mm)
qed

lemma keys_agree:
  "cc_mac1_key (checker_Init C pk c) = cg_mac1_key (generator_Init C pk g)"
  "cc_encryptionKey (checker_Init C pk c) = cg_encryptionKey (generator_Init C pk g)"
  by (simp_all add: checker_Init_def generator_Init_def)

section \<open>Properties\<close>

text \<open>C13: A message to which the generator for a public key has added its MACs passes the
  first MAC check of the checker for that key, whatever the rest of their states; only the
  last 32 bytes of the message change.\<close>

theorem AddMacs_CheckMAC1:
  assumes "crypto_ok C" "32 \<le> length msg"
  shows "\<exists>msg' g'. AddMacs C (generator_Init C pk g) now msg = Some (msg', g') \<and>
    CheckMAC1 C (checker_Init C pk c) msg' = Some True \<and>
    length msg' = length msg \<and> take (length msg - 32) msg' = take (length msg - 32) msg"
proof -
  obtain m2 where m: "AddMacs C (generator_Init C pk g) now msg =
      Some (take (length msg - 32) msg @ mac128 C (cg_mac1_key (generator_Init C pk g)) (take (length msg - 32) msg) @ m2,
        (generator_Init C pk g)\<lparr>cg_lastMAC1 := mac128 C (cg_mac1_key (generator_Init C pk g)) (take (length msg - 32) msg),
          cg_hasLastMAC1 := True\<rparr>)" "length m2 = 16"
    using AddMacs_layout [OF assms] by blast
  show ?thesis using m(2) assms crypto_okD(2) [OF assms(1)] keys_agree(1) [of C pk c g] unfolding m(1)
    by (simp add: CheckMAC1_def Let_def slice_def ConstantTimeCompare_iff)
qed

theorem AddMacs_CheckMAC1_witness:
  "\<exists>msg' g'. AddMacs plain_crypto (generator_Init plain_crypto [1, 2, 3] zero_CookieGenerator) 0 (replicate 40 7) =
      Some (msg', g') \<and> CheckMAC1 plain_crypto (checker_Init plain_crypto [1, 2, 3] zero_CookieChecker) msg' = Some True"
  using AddMacs_CheckMAC1 [OF plain_crypto_ok, of "replicate 40 7" "[1, 2, 3]" zero_CookieGenerator 0 zero_CookieChecker]
  by auto



end
