(* ===== verification/Device_State.thy ===== *)
theory Device_State
  imports Noise_Base Cookie IndexTable Replay AllowedIPs Ratelimiter
begin

text \<open>
  The state of a WireGuard device: \<open>device.go\<close>, \<open>peer.go\<close>, \<open>keypair.go\<close>, \<open>constants.go\<close>, the queue
  elements of \<open>send.go\<close> and \<open>receive.go\<close> and the handshake state of \<open>noise-protocol.go\<close>. Pointers to
  peers and keypairs are natural numbers into the heaps \<open>peer_heap\<close> and \<open>kp_heap\<close>, so that the index
  table, the keypair slots of a peer and the packets in flight share the objects as they do in the
  code. A \<open>cipher.AEAD\<close> is its key. A timer is its deadline, \<open>None\<close> when it is not pending. The map
  of peers is an association list, whose order is the order in which a \<open>range\<close> loop visits them.
  What the device hands to the network and to the TUN device is appended to \<open>net_out\<close> and \<open>tun_out\<close>.

  A queue that two routines share, one in order and the workers in any order, is the list of the
  ordered one; the lock of a container says whether a worker still has to process it.

  What a handler reads from outside (clock, random source, results of sending) is a record \<open>Env\<close>
  that its definition takes as an argument: one clock reading for each place of the code that
  reads the clock, and random bytes for each peer.
\<close>

section \<open>Constants\<close>

definition RekeyAfterMessages :: u64 where "RekeyAfterMessages = push_bit 60 1"
definition RejectAfterMessages :: u64 where "RejectAfterMessages = 0 - push_bit 13 1 - 1"
definition RekeyAfterTime :: duration where "RekeyAfterTime = Second * 120"
definition RekeyAttemptTime :: duration where "RekeyAttemptTime = Second * 90"
definition RekeyTimeout :: duration where "RekeyTimeout = Second * 10"
definition MaxTimerHandshakes :: u32 where "MaxTimerHandshakes = 90 div 5"
definition RekeyTimeoutJitterMaxMs :: nat where "RekeyTimeoutJitterMaxMs = 334"
definition RejectAfterTime :: duration where "RejectAfterTime = Second * 180"
definition KeepaliveTimeout :: duration where "KeepaliveTimeout = Second * 5"
definition HandshakeInitationRate :: duration where "HandshakeInitationRate = Second div 50"
definition PaddingMultiple :: int where "PaddingMultiple = 16"
definition MinMessageSize :: nat where "MinMessageSize = MessageKeepaliveSize"
definition UnderLoadAfterTime :: duration where "UnderLoadAfterTime = Second"
definition MaxPeers :: nat where "MaxPeers = 65536"
definition QueueStagedSize :: nat where "QueueStagedSize = 128"
definition QueueHandshakeSize :: nat where "QueueHandshakeSize = 1024"

lemmas device_times = RekeyAfterTime_def RekeyAttemptTime_def RekeyTimeout_def RejectAfterTime_def
  KeepaliveTimeout_def HandshakeInitationRate_def UnderLoadAfterTime_def Second_def

section \<open>Handshakes and keypairs\<close>

datatype handshakeState =
    handshakeZeroed
  | handshakeInitiationCreated
  | handshakeInitiationConsumed
  | handshakeResponseCreated
  | handshakeResponseConsumed

record Handshake =
  hs_state :: handshakeState
  hs_hash :: bytes
  hs_chainKey :: bytes
  hs_presharedKey :: NoisePresharedKey
  hs_localEphemeral :: NoisePrivateKey
  hs_localIndex :: u32
  hs_remoteIndex :: u32
  hs_remoteStatic :: NoisePublicKey
  hs_remoteEphemeral :: NoisePublicKey
  hs_precomputedStaticStatic :: bytes
  hs_lastTimestamp :: bytes
  hs_lastInitiationConsumption :: time
  hs_lastSentHandshake :: time

definition zero_Handshake :: Handshake where
  "zero_Handshake =
     \<lparr>hs_state = handshakeZeroed, hs_hash = replicate 32 0, hs_chainKey = replicate 32 0,
      hs_presharedKey = replicate 32 0, hs_localEphemeral = replicate 32 0, hs_localIndex = 0,
      hs_remoteIndex = 0, hs_remoteStatic = replicate 32 0, hs_remoteEphemeral = replicate 32 0,
      hs_precomputedStaticStatic = replicate 32 0, hs_lastTimestamp = replicate 12 0,
      hs_lastInitiationConsumption = 0, hs_lastSentHandshake = 0\<rparr>"

definition handshake_Clear :: "Handshake \<Rightarrow> Handshake" where
  "handshake_Clear h =
     h\<lparr>hs_localEphemeral := setZero (hs_localEphemeral h),
       hs_remoteEphemeral := setZero (hs_remoteEphemeral h),
       hs_chainKey := setZero (hs_chainKey h),
       hs_hash := setZero (hs_hash h),
       hs_localIndex := 0,
       hs_state := handshakeZeroed\<rparr>"

definition hs_mixHash :: "Crypto \<Rightarrow> bytes \<Rightarrow> Handshake \<Rightarrow> Handshake" where
  "hs_mixHash C data h = h\<lparr>hs_hash := mixHash C (hs_hash h) data\<rparr>"

definition hs_mixKey :: "Crypto \<Rightarrow> bytes \<Rightarrow> Handshake \<Rightarrow> Handshake" where
  "hs_mixKey C data h = h\<lparr>hs_chainKey := mixKey C (hs_chainKey h) data\<rparr>"

record Keypair =
  kp_sendNonce :: u64
  kp_send :: bytes
  kp_receive :: bytes
  kp_replayFilter :: Filter
  kp_isInitiator :: bool
  kp_created :: time
  kp_localIndex :: u32
  kp_remoteIndex :: u32

record Keypairs =
  kps_current :: "nat option"
  kps_previous :: "nat option"
  kps_next :: "nat option"

definition zero_Keypairs :: Keypairs where
  "zero_Keypairs = \<lparr>kps_current = None, kps_previous = None, kps_next = None\<rparr>"

section \<open>Peers\<close>

record Timers =
  tm_retransmitHandshake :: "time option"
  tm_sendKeepalive :: "time option"
  tm_newHandshake :: "time option"
  tm_zeroKeyMaterial :: "time option"
  tm_persistentKeepalive :: "time option"
  tm_handshakeAttempts :: u32
  tm_needAnotherKeepalive :: bool
  tm_sentLastMinuteHandshake :: bool

definition zero_Timers :: Timers where
  "zero_Timers =
     \<lparr>tm_retransmitHandshake = None, tm_sendKeepalive = None, tm_newHandshake = None,
      tm_zeroKeyMaterial = None, tm_persistentKeepalive = None, tm_handshakeAttempts = 0,
      tm_needAnotherKeepalive = False, tm_sentLastMinuteHandshake = False\<rparr>"

text \<open>
  A UDP endpoint: the address and port datagrams are sent to, and the sticky source, empty
  when there is none.
\<close>

record Endpoint =
  ep_addr :: Addr
  ep_port :: u16
  ep_src :: bytes

definition ClearSrc :: "Endpoint \<Rightarrow> Endpoint" where
  "ClearSrc e = e\<lparr>ep_src := []\<rparr>"

definition DstIP :: "Endpoint \<Rightarrow> Addr" where
  "DstIP e = ep_addr e"

text \<open>\<open>AddrPort.MarshalBinary\<close>: the bytes of the address, then the port in little-endian.\<close>

definition DstToBytes :: "Endpoint \<Rightarrow> bytes" where
  "DstToBytes e = AsSlice (ep_addr e) @ le_bytes 2 (unat (ep_port e))"

record QueueOutboundElement =
  oe_packet :: bytes
  oe_nonce :: u64
  oe_keypair :: "nat option"

record QueueOutboundElementsContainer =
  oc_locked :: bool
  oc_elems :: "QueueOutboundElement list"

text \<open>The datagram of an inbound element is kept as it was received; \<open>None\<close>: decryption failed.\<close>

record QueueInboundElement =
  ie_packet :: "bytes option"
  ie_counter :: u64
  ie_keypair :: nat
  ie_endpoint :: Endpoint

record QueueInboundElementsContainer =
  ic_locked :: bool
  ic_elems :: "QueueInboundElement list"

record QueueHandshakeElement =
  he_msgType :: u32
  he_packet :: bytes
  he_endpoint :: Endpoint

record Peer =
  p_isRunning :: bool
  p_keypairs :: Keypairs
  p_handshake :: Handshake
  p_txBytes :: u64
  p_rxBytes :: u64
  p_lastHandshakeNano :: int
  p_endpoint :: "Endpoint option"
  p_clearSrcOnTx :: bool
  p_disableRoaming :: bool
  p_timers :: Timers
  p_staged :: "QueueOutboundElement list list"
  p_outbound :: "QueueOutboundElementsContainer list"
  p_inbound :: "QueueInboundElementsContainer list"
  p_trick :: string
  p_reserved :: bytes
  p_cookieGenerator :: CookieGenerator
  p_persistentKeepaliveInterval :: u32

definition zero_Peer :: Peer where
  "zero_Peer =
     \<lparr>p_isRunning = False, p_keypairs = zero_Keypairs, p_handshake = zero_Handshake, p_txBytes = 0,
      p_rxBytes = 0, p_lastHandshakeNano = 0, p_endpoint = None, p_clearSrcOnTx = False,
      p_disableRoaming = False, p_timers = zero_Timers, p_staged = [], p_outbound = [], p_inbound = [],
      p_trick = [], p_reserved = [0, 0, 0], p_cookieGenerator = zero_CookieGenerator,
      p_persistentKeepaliveInterval = 0\<rparr>"

section \<open>The device\<close>

datatype deviceState = deviceStateDown | deviceStateUp | deviceStateClosed

record Device =
  d_state :: deviceState
  d_port :: u16
  d_fwmark :: u32
  d_brokenRoaming :: bool
  d_receivers :: nat
  d_privateKey :: NoisePrivateKey
  d_publicKey :: NoisePublicKey
  d_keyMap :: "(NoisePublicKey \<times> nat) list"
  peer_heap :: "nat \<Rightarrow> Peer"
  next_peer :: nat
  kp_heap :: "nat \<Rightarrow> Keypair"
  next_kp :: nat
  d_underLoadUntil :: int
  d_limiter :: "Addr Ratelimiter"
  d_allowedips :: "nat AllowedIPs"
  d_indexTable :: "(nat, nat, nat) index_map"
  d_cookieChecker :: CookieChecker
  d_handshakeq :: "QueueHandshakeElement list"
  d_mtu :: int
  net_out :: "(Endpoint \<times> bytes list) list"
  tun_out :: "bytes list"

definition zero_Keypair :: Keypair where
  "zero_Keypair =
     \<lparr>kp_sendNonce = 0, kp_send = replicate 32 0, kp_receive = replicate 32 0,
      kp_replayFilter = zero_Filter, kp_isInitiator = False, kp_created = 0, kp_localIndex = 0,
      kp_remoteIndex = 0\<rparr>"

definition zero_Device :: Device where
  "zero_Device =
     \<lparr>d_state = deviceStateDown, d_port = 0, d_fwmark = 0, d_brokenRoaming = False, d_receivers = 0,
      d_privateKey = replicate 32 0, d_publicKey = replicate 32 0, d_keyMap = [],
      peer_heap = (\<lambda>_. zero_Peer), next_peer = 0, kp_heap = (\<lambda>_. zero_Keypair), next_kp = 0,
      d_underLoadUntil = 0, d_limiter = zero_Ratelimiter, d_allowedips = zero_AllowedIPs,
      d_indexTable = Map.empty, d_cookieChecker = zero_CookieChecker, d_handshakeq = [], d_mtu = 0,
      net_out = [], tun_out = []\<rparr>"

definition isClosed :: "Device \<Rightarrow> bool" where
  "isClosed d = (d_state d = deviceStateClosed)"

definition isUp :: "Device \<Rightarrow> bool" where
  "isUp d = (d_state d = deviceStateUp)"

text \<open>Updates of one peer or one keypair in place.\<close>

definition upd_peer :: "nat \<Rightarrow> (Peer \<Rightarrow> Peer) \<Rightarrow> Device \<Rightarrow> Device" where
  "upd_peer p f d = d\<lparr>peer_heap := (peer_heap d)(p := f (peer_heap d p))\<rparr>"

definition upd_hs :: "nat \<Rightarrow> (Handshake \<Rightarrow> Handshake) \<Rightarrow> Device \<Rightarrow> Device" where
  "upd_hs p f = upd_peer p (\<lambda>x. x\<lparr>p_handshake := f (p_handshake x)\<rparr>)"

definition upd_kps :: "nat \<Rightarrow> (Keypairs \<Rightarrow> Keypairs) \<Rightarrow> Device \<Rightarrow> Device" where
  "upd_kps p f = upd_peer p (\<lambda>x. x\<lparr>p_keypairs := f (p_keypairs x)\<rparr>)"

definition upd_kp :: "nat \<Rightarrow> (Keypair \<Rightarrow> Keypair) \<Rightarrow> Device \<Rightarrow> Device" where
  "upd_kp k f d = d\<lparr>kp_heap := (kp_heap d)(k := f (kp_heap d k))\<rparr>"

abbreviation hs_of :: "Device \<Rightarrow> nat \<Rightarrow> Handshake" where
  "hs_of d p \<equiv> p_handshake (peer_heap d p)"

abbreviation kps_of :: "Device \<Rightarrow> nat \<Rightarrow> Keypairs" where
  "kps_of d p \<equiv> p_keypairs (peer_heap d p)"

definition LookupPeer :: "NoisePublicKey \<Rightarrow> Device \<Rightarrow> nat option" where
  "LookupPeer pk d = map_of (d_keyMap d) pk"

definition DeleteKeypair :: "nat option \<Rightarrow> Device \<Rightarrow> Device" where
  "DeleteKeypair kpo d =
     (case kpo of
        None \<Rightarrow> d
      | Some k \<Rightarrow> d\<lparr>d_indexTable := idx_Delete (kp_localIndex (kp_heap d k)) (d_indexTable d)\<rparr>)"

definition kps_Current :: "Keypairs \<Rightarrow> nat option" where
  "kps_Current kps = kps_current kps"

section \<open>What a handler reads from outside\<close>

text \<open>The places of the code that read the clock.\<close>

datatype clock_point =
    At_SinceSent1 | At_SinceSent2 | At_Sent | At_Responded | At_Stamp | At_AddMacs
  | At_Flood | At_Consumed | At_Session | At_Complete
  | At_KeyAge | At_Fresh | At_LastMinute | At_Expiry | At_Keepalives
  | At_Load | At_CheckMAC2 | At_CookieAge | At_CookieNew | At_Limiter | At_Reply
  | At_Timer | At_Start | At_Expire

text \<open>
  The outcome of \<open>bind.Send\<close>; \<open>SendGSO r\<close> is the error \<open>ErrUDPGSODisabled\<close>, whose retry without
  offload succeeded if \<open>r\<close>.
\<close>

datatype send_result = SendOk | SendErr | SendGSO bool

text \<open>
  Readings of the random packets a peer sends before a handshake: the number, the choice of the
  first byte and eight bytes of the header, and for each packet its size and its content.
\<close>

record Tricks =
  tr_num :: nat
  tr_first :: nat
  tr_head :: "(nat \<Rightarrow> byte) option"
  tr_pkts :: "nat \<Rightarrow> nat \<times> (nat \<Rightarrow> byte) option"
  tr_send :: "nat \<Rightarrow> send_result"

record Env =
  e_clock :: "clock_point \<Rightarrow> time"
  e_ephemeral :: "nat \<Rightarrow> bytes option"
  e_index :: "nat \<Rightarrow> bytes option list"
  e_jitter :: "nat \<Rightarrow> nat"
  e_send :: "nat \<Rightarrow> send_result"
  e_secret :: "bytes option"
  e_nonce :: "bytes option"
  e_tricks :: "nat \<Rightarrow> Tricks"

text \<open>Nanoseconds since 1970 of an instant counted from the zero time.\<close>

definition UnixNano :: "time \<Rightarrow> int" where
  "UnixNano t = t - 62135596800 * Second"

text \<open>Readings used in examples: a stopped clock and a random source that works.\<close>

definition example_env :: "time \<Rightarrow> Env" where
  "example_env t =
     \<lparr>e_clock = (\<lambda>_. t), e_ephemeral = (\<lambda>_. Some (replicate 32 3)), e_index = (\<lambda>_. [Some [1, 0, 0, 0]]),
      e_jitter = (\<lambda>_. 0), e_send = (\<lambda>_. SendOk), e_secret = Some (replicate 32 5),
      e_nonce = Some (replicate 24 6),
      e_tricks = (\<lambda>_. \<lparr>tr_num = 0, tr_first = 0, tr_head = Some (\<lambda>_. 0), tr_pkts = (\<lambda>_. (0, Some (\<lambda>_. 0))),
        tr_send = (\<lambda>_. SendOk)\<rparr>)\<rparr>"

section \<open>Reading updated states\<close>

lemma upd_peer_heap [simp]: "peer_heap (upd_peer p f d) = (peer_heap d)(p := f (peer_heap d p))"
  by (simp add: upd_peer_def)

lemma upd_peer_other [simp]:
  "d_handshakeq (upd_peer p f d) = d_handshakeq d" "d_receivers (upd_peer p f d) = d_receivers d"
  "d_state (upd_peer p f d) = d_state d" "d_publicKey (upd_peer p f d) = d_publicKey d"
  "d_privateKey (upd_peer p f d) = d_privateKey d" "d_keyMap (upd_peer p f d) = d_keyMap d"
  "kp_heap (upd_peer p f d) = kp_heap d" "next_kp (upd_peer p f d) = next_kp d"
  "d_allowedips (upd_peer p f d) = d_allowedips d" "d_indexTable (upd_peer p f d) = d_indexTable d"
  "d_cookieChecker (upd_peer p f d) = d_cookieChecker d" "net_out (upd_peer p f d) = net_out d"
  "tun_out (upd_peer p f d) = tun_out d" "d_mtu (upd_peer p f d) = d_mtu d"
  "next_peer (upd_peer p f d) = next_peer d" "d_limiter (upd_peer p f d) = d_limiter d"
  by (simp_all add: upd_peer_def)

lemma upd_hs_heap [simp]:
  "peer_heap (upd_hs p f d) = (peer_heap d)(p := (peer_heap d p)\<lparr>p_handshake := f (hs_of d p)\<rparr>)"
  by (simp add: upd_hs_def)

lemma upd_kps_heap [simp]:
  "peer_heap (upd_kps p f d) = (peer_heap d)(p := (peer_heap d p)\<lparr>p_keypairs := f (kps_of d p)\<rparr>)"
  by (simp add: upd_kps_def)

lemma upd_hs_other [simp]:
  "d_state (upd_hs p f d) = d_state d" "d_publicKey (upd_hs p f d) = d_publicKey d"
  "d_privateKey (upd_hs p f d) = d_privateKey d" "d_keyMap (upd_hs p f d) = d_keyMap d"
  "kp_heap (upd_hs p f d) = kp_heap d" "next_kp (upd_hs p f d) = next_kp d"
  "d_indexTable (upd_hs p f d) = d_indexTable d" "d_allowedips (upd_hs p f d) = d_allowedips d"
  "net_out (upd_hs p f d) = net_out d" "d_cookieChecker (upd_hs p f d) = d_cookieChecker d"
  by (simp_all add: upd_hs_def)

lemma upd_kps_other [simp]:
  "d_state (upd_kps p f d) = d_state d" "d_publicKey (upd_kps p f d) = d_publicKey d"
  "d_privateKey (upd_kps p f d) = d_privateKey d" "d_keyMap (upd_kps p f d) = d_keyMap d"
  "kp_heap (upd_kps p f d) = kp_heap d" "next_kp (upd_kps p f d) = next_kp d"
  "d_indexTable (upd_kps p f d) = d_indexTable d" "d_allowedips (upd_kps p f d) = d_allowedips d"
  by (simp_all add: upd_kps_def)

lemma DeleteKeypair_other [simp]:
  "peer_heap (DeleteKeypair k d) = peer_heap d" "kp_heap (DeleteKeypair k d) = kp_heap d"
  "next_kp (DeleteKeypair k d) = next_kp d" "d_keyMap (DeleteKeypair k d) = d_keyMap d"
  "d_privateKey (DeleteKeypair k d) = d_privateKey d" "d_publicKey (DeleteKeypair k d) = d_publicKey d"
  "d_allowedips (DeleteKeypair k d) = d_allowedips d" "d_state (DeleteKeypair k d) = d_state d"
  by (auto simp: DeleteKeypair_def split: option.splits)

lemma DeleteKeypair_table:
  "d_indexTable (DeleteKeypair k d) =
     (case k of None \<Rightarrow> d_indexTable d | Some j \<Rightarrow> (d_indexTable d)(kp_localIndex (kp_heap d j) := None))"
  by (auto simp: DeleteKeypair_def idx_Delete_def split: option.splits)

end
