(* ===== verification/Noise.thy ===== *)
theory Noise
  imports Device_State Tai64n
begin

text \<open>
  \<open>wireguard/device/noise-protocol.go\<close>: the Noise IK handshake of WireGuard and the rotation
  of keypairs. Every function of the code is a function on the device state, with its partial
  updates on error paths; the random bytes, the timestamp and the clock readings it takes are
  arguments. The transcript of a handshake is described once (\<open>noise_init\<close>, \<open>noise_resp\<close>) and
  both sides are shown to compute it.
\<close>

section \<open>Handshake messages\<close>

datatype noise_error =
    ErrRandom
  | ErrInvalidPublicKey
  | ErrInitiationNotConsumed
  | ErrInvalidSessionState handshakeState

text \<open>\<open>None\<close>: the index allocation has not returned within the readings given to it.\<close>

definition CreateMessageInitiation ::
  "Crypto \<Rightarrow> nat \<Rightarrow> bytes option \<Rightarrow> bytes option list \<Rightarrow> bytes \<Rightarrow> Device \<Rightarrow>
   ((noise_error + MessageInitiation) \<times> Device) option" where
  "CreateMessageInitiation C p eph idx timestamp d =
     (let h = hs_of d p;
          (e, ok) = newPrivateKey eph;
          h1 = h\<lparr>hs_hash := InitialHash C, hs_chainKey := InitialChainKey C, hs_localEphemeral := e\<rparr>
      in if \<not> ok then Some (Inl ErrRandom, upd_hs p (\<lambda>_. h1) d)
      else
      let h2 = hs_mixHash C (hs_remoteStatic h1) h1;
          E = publicKey C e;
          h3 = hs_mixHash C E (hs_mixKey C E h2);
          (ss, ok) = sharedSecret C e (hs_remoteStatic h3)
      in if \<not> ok then Some (Inl ErrInvalidPublicKey, upd_hs p (\<lambda>_. h3) d)
      else
      let (ck, key) = KDF2 C (hs_chainKey h3) ss;
          static = aeadSeal C key ZeroNonce (d_publicKey d) (hs_hash h3);
          h4 = hs_mixHash C static (h3\<lparr>hs_chainKey := ck\<rparr>)
      in if isZero (hs_precomputedStaticStatic h4)
         then Some (Inl ErrInvalidPublicKey, upd_hs p (\<lambda>_. h4) d)
      else
      let (ck', key') = KDF2 C (hs_chainKey h4) (hs_precomputedStaticStatic h4);
          h5 = h4\<lparr>hs_chainKey := ck'\<rparr>;
          ts = aeadSeal C key' ZeroNonce timestamp (hs_hash h5);
          tbl = idx_Delete (hs_localIndex h5) (d_indexTable d)
      in case NewIndexForHandshake p p idx tbl of
           None \<Rightarrow> None
         | Some (i, ok, tbl') \<Rightarrow>
             if \<not> ok then Some (Inl ErrRandom, upd_hs p (\<lambda>_. h5) (d\<lparr>d_indexTable := tbl'\<rparr>))
             else
             let h6 = hs_mixHash C ts (h5\<lparr>hs_localIndex := i\<rparr>);
                 h7 = h6\<lparr>hs_state := handshakeInitiationCreated\<rparr>;
                 msg = \<lparr>mi_Type = MessageInitiationType, mi_Sender = i, mi_Ephemeral = E,
                        mi_Static = static, mi_Timestamp = ts,
                        mi_MAC1 = replicate 16 0, mi_MAC2 = replicate 16 0\<rparr>
             in Some (Inr msg, upd_hs p (\<lambda>_. h7) (d\<lparr>d_indexTable := tbl'\<rparr>)))"

text \<open>\<open>now1\<close> is the reading of the flood check, \<open>now2\<close> the one that is stored.\<close>

definition ConsumeMessageInitiation ::
  "Crypto \<Rightarrow> MessageInitiation \<Rightarrow> time \<Rightarrow> time \<Rightarrow> Device \<Rightarrow> nat option \<times> Device" where
  "ConsumeMessageInitiation C msg now1 now2 d =
     (if mi_Type msg \<noteq> MessageInitiationType then (None, d)
      else
      let hash1 = mixHash C (InitialHash C) (d_publicKey d);
          hash2 = mixHash C hash1 (mi_Ephemeral msg);
          ck1 = mixKey C (InitialChainKey C) (mi_Ephemeral msg);
          (ss, ok) = sharedSecret C (d_privateKey d) (mi_Ephemeral msg)
      in if \<not> ok then (None, d)
      else
      let (ck2, key) = KDF2 C ck1 ss
      in case aeadOpen C key ZeroNonce (mi_Static msg) hash2 of
        None \<Rightarrow> (None, d)
      | Some peerPK \<Rightarrow>
      let hash3 = mixHash C hash2 (mi_Static msg)
      in case LookupPeer peerPK d of
        None \<Rightarrow> (None, d)
      | Some p \<Rightarrow>
      if \<not> p_isRunning (peer_heap d p) then (None, d)
      else
      let h = hs_of d p
      in if isZero (hs_precomputedStaticStatic h) then (None, d)
      else
      let (ck3, key') = KDF2 C ck2 (hs_precomputedStaticStatic h)
      in case aeadOpen C key' ZeroNonce (mi_Timestamp msg) hash3 of
        None \<Rightarrow> (None, d)
      | Some timestamp \<Rightarrow>
      let hash4 = mixHash C hash3 (mi_Timestamp msg);
          replay = (\<not> After timestamp (hs_lastTimestamp h));
          flood = (time_Sub now1 (hs_lastInitiationConsumption h) \<le> HandshakeInitationRate)
      in if replay then (None, d)
      else if flood then (None, d)
      else
      let h' = h\<lparr>hs_hash := hash4, hs_chainKey := ck3, hs_remoteIndex := mi_Sender msg,
                hs_remoteEphemeral := mi_Ephemeral msg,
                hs_lastTimestamp :=
                  (if After timestamp (hs_lastTimestamp h) then timestamp else hs_lastTimestamp h),
                hs_lastInitiationConsumption :=
                  (if now2 > hs_lastInitiationConsumption h then now2 else hs_lastInitiationConsumption h),
                hs_state := handshakeInitiationConsumed\<rparr>
      in (Some p, upd_hs p (\<lambda>_. h') d))"

definition CreateMessageResponse ::
  "Crypto \<Rightarrow> nat \<Rightarrow> bytes option \<Rightarrow> bytes option list \<Rightarrow> Device \<Rightarrow>
   ((noise_error + MessageResponse) \<times> Device) option" where
  "CreateMessageResponse C p eph idx d =
     (let h = hs_of d p
      in if hs_state h \<noteq> handshakeInitiationConsumed then Some (Inl ErrInitiationNotConsumed, d)
      else case NewIndexForHandshake p p idx (idx_Delete (hs_localIndex h) (d_indexTable d)) of
        None \<Rightarrow> None
      | Some (i, ok, tbl) \<Rightarrow>
      let h1 = h\<lparr>hs_localIndex := i\<rparr>;
          d1 = d\<lparr>d_indexTable := tbl\<rparr>
      in if \<not> ok then Some (Inl ErrRandom, upd_hs p (\<lambda>_. h1) d1)
      else
      let (e, ok) = newPrivateKey eph;
          h2 = h1\<lparr>hs_localEphemeral := e\<rparr>
      in if \<not> ok then Some (Inl ErrRandom, upd_hs p (\<lambda>_. h2) d1)
      else
      let E = publicKey C e;
          h3 = hs_mixKey C E (hs_mixHash C E h2);
          (ss, ok) = sharedSecret C e (hs_remoteEphemeral h3)
      in if \<not> ok then Some (Inl ErrInvalidPublicKey, upd_hs p (\<lambda>_. h3) d1)
      else
      let h4 = hs_mixKey C ss h3;
          (ss', ok) = sharedSecret C e (hs_remoteStatic h4)
      in if \<not> ok then Some (Inl ErrInvalidPublicKey, upd_hs p (\<lambda>_. h4) d1)
      else
      let h5 = hs_mixKey C ss' h4;
          (ck, tau, key) = KDF3 C (hs_chainKey h5) (hs_presharedKey h5);
          h6 = hs_mixHash C tau (h5\<lparr>hs_chainKey := ck\<rparr>);
          empty = aeadSeal C key ZeroNonce [] (hs_hash h6);
          h7 = (hs_mixHash C empty h6)\<lparr>hs_state := handshakeResponseCreated\<rparr>;
          msg = \<lparr>mr_Type = MessageResponseType, mr_Sender = i, mr_Receiver = hs_remoteIndex h,
                 mr_Ephemeral = E, mr_Empty = empty,
                 mr_MAC1 = replicate 16 0, mr_MAC2 = replicate 16 0\<rparr>
      in Some (Inr msg, upd_hs p (\<lambda>_. h7) d1))"

definition ConsumeMessageResponse ::
  "Crypto \<Rightarrow> MessageResponse \<Rightarrow> Device \<Rightarrow> nat option \<times> Device" where
  "ConsumeMessageResponse C msg d =
     (if mr_Type msg \<noteq> MessageResponseType then (None, d)
      else
      let look = idx_Lookup (mr_Receiver msg) (d_indexTable d)
      in case it_handshake look of
        None \<Rightarrow> (None, d)
      | Some hp \<Rightarrow>
      let h = hs_of d hp
      in if hs_state h \<noteq> handshakeInitiationCreated then (None, d)
      else
      let hash1 = mixHash C (hs_hash h) (mr_Ephemeral msg);
          ck1 = mixKey C (hs_chainKey h) (mr_Ephemeral msg);
          (ss, ok) = sharedSecret C (hs_localEphemeral h) (mr_Ephemeral msg)
      in if \<not> ok then (None, d)
      else
      let ck2 = mixKey C ck1 ss;
          (ss', ok) = sharedSecret C (d_privateKey d) (mr_Ephemeral msg)
      in if \<not> ok then (None, d)
      else
      let ck3 = mixKey C ck2 ss';
          (ck4, tau, key) = KDF3 C ck3 (hs_presharedKey h);
          hash2 = mixHash C hash1 tau
      in case aeadOpen C key ZeroNonce (mr_Empty msg) hash2 of
        None \<Rightarrow> (None, d)
      | Some _ \<Rightarrow>
      let hash3 = mixHash C hash2 (mr_Empty msg);
          h' = h\<lparr>hs_hash := hash3, hs_chainKey := ck4, hs_remoteIndex := mr_Sender msg,
                 hs_state := handshakeResponseConsumed\<rparr>
      in (it_peer look, upd_hs hp (\<lambda>_. h') d))"

section \<open>Sessions\<close>

text \<open>The zeroed handshake of a derived session.\<close>

definition zero_session_handshake :: "Handshake \<Rightarrow> Handshake" where
  "zero_session_handshake h =
     h\<lparr>hs_chainKey := setZero (hs_chainKey h), hs_hash := setZero (hs_hash h),
       hs_localEphemeral := setZero (hs_localEphemeral h), hs_state := handshakeZeroed\<rparr>"

definition rotate_initiator :: "nat \<Rightarrow> nat \<Rightarrow> Device \<Rightarrow> Device" where
  "rotate_initiator p k d =
     (let kps = kps_of d p;
          previous = kps_previous kps; next = kps_next kps; current = kps_current kps;
          d1 = (if next \<noteq> None
                then DeleteKeypair current (upd_kps p (\<lambda>x. x\<lparr>kps_next := None, kps_previous := next\<rparr>) d)
                else upd_kps p (\<lambda>x. x\<lparr>kps_previous := current\<rparr>) d);
          d2 = DeleteKeypair previous d1
      in upd_kps p (\<lambda>x. x\<lparr>kps_current := Some k\<rparr>) d2)"

definition rotate_responder :: "nat \<Rightarrow> nat \<Rightarrow> Device \<Rightarrow> Device" where
  "rotate_responder p k d =
     (let kps = kps_of d p;
          previous = kps_previous kps; next = kps_next kps;
          d1 = DeleteKeypair next (upd_kps p (\<lambda>x. x\<lparr>kps_next := Some k\<rparr>) d);
          d2 = upd_kps p (\<lambda>x. x\<lparr>kps_previous := None\<rparr>) d1
      in DeleteKeypair previous d2)"

definition install_keypair :: "nat \<Rightarrow> Keypair \<Rightarrow> Device \<Rightarrow> Device" where
  "install_keypair p kp d =
     (let k = next_kp d;
          d1 = d\<lparr>kp_heap := (kp_heap d)(k := kp), next_kp := Suc k,
                 d_indexTable := SwapIndexForKeypair (hs_localIndex (hs_of d p)) k (d_indexTable d)\<rparr>;
          d2 = upd_hs p (\<lambda>h. h\<lparr>hs_localIndex := 0\<rparr>) d1
      in if kp_isInitiator kp then rotate_initiator p k d2 else rotate_responder p k d2)"

definition BeginSymmetricSession ::
  "Crypto \<Rightarrow> nat \<Rightarrow> time \<Rightarrow> Device \<Rightarrow> noise_error option \<times> Device" where
  "BeginSymmetricSession C p now d =
     (let h = hs_of d p;
          keys = (case hs_state h of
                    handshakeResponseConsumed \<Rightarrow>
                      (let (sendKey, recvKey) = KDF2 C (hs_chainKey h) [] in Some (sendKey, recvKey, True))
                  | handshakeResponseCreated \<Rightarrow>
                      (let (recvKey, sendKey) = KDF2 C (hs_chainKey h) [] in Some (sendKey, recvKey, False))
                  | _ \<Rightarrow> None)
      in case keys of
        None \<Rightarrow> (Some (ErrInvalidSessionState (hs_state h)), d)
      | Some (sendKey, recvKey, isInitiator) \<Rightarrow>
          let d1 = upd_hs p zero_session_handshake d;
              kp = \<lparr>kp_sendNonce = 0, kp_send = sendKey, kp_receive = recvKey,
                    kp_replayFilter = Reset zero_Filter, kp_isInitiator = isInitiator, kp_created = now,
                    kp_localIndex = hs_localIndex (hs_of d1 p), kp_remoteIndex = hs_remoteIndex (hs_of d1 p)\<rparr>
          in (None, install_keypair p kp d1))"

definition ReceivedWithKeypair :: "nat \<Rightarrow> nat \<Rightarrow> Device \<Rightarrow> bool \<times> Device" where
  "ReceivedWithKeypair p k d =
     (let kps = kps_of d p
      in if kps_next kps \<noteq> Some k then (False, d)
         else
         let old = kps_previous kps;
             d1 = upd_kps p (\<lambda>x. x\<lparr>kps_previous := kps_current x\<rparr>) d;
             d2 = DeleteKeypair old d1
         in (True, upd_kps p (\<lambda>x. x\<lparr>kps_current := kps_next x, kps_next := None\<rparr>) d2))"

section \<open>The transcript\<close>

definition noise_init ::
  "Crypto \<Rightarrow> bytes \<Rightarrow> bytes \<Rightarrow> bytes \<Rightarrow> bytes \<Rightarrow> bytes \<Rightarrow> bytes \<Rightarrow> bytes \<times> bytes \<times> bytes \<times> bytes" where
  "noise_init C Ipub Rpub E es ss ts =
     (let h2 = mixHash C (mixHash C (InitialHash C) Rpub) E;
          ck2 = fst (KDF2 C (mixKey C (InitialChainKey C) E) es);
          key = snd (KDF2 C (mixKey C (InitialChainKey C) E) es);
          static = aeadSeal C key ZeroNonce Ipub h2;
          h3 = mixHash C h2 static;
          tsb = aeadSeal C (snd (KDF2 C ck2 ss)) ZeroNonce ts h3
      in (static, tsb, fst (KDF2 C ck2 ss), mixHash C h3 tsb))"

definition noise_resp ::
  "Crypto \<Rightarrow> bytes \<Rightarrow> bytes \<Rightarrow> bytes \<Rightarrow> bytes \<Rightarrow> bytes \<Rightarrow> bytes \<Rightarrow> bytes \<times> bytes \<times> bytes" where
  "noise_resp C ck h E ee se psk =
     (let ck3 = mixKey C (mixKey C (mixKey C ck E) ee) se;
          ck4 = fst (KDF3 C ck3 psk);
          tau = fst (snd (KDF3 C ck3 psk));
          key = snd (snd (KDF3 C ck3 psk));
          h2 = mixHash C (mixHash C h E) tau;
          empty = aeadSeal C key ZeroNonce [] h2
      in (empty, ck4, mixHash C h2 empty))"

text \<open>What a successful initiator has computed and stored.\<close>

lemma CreateMessageInitiation_ok:
  assumes "CreateMessageInitiation C p eph idx ts d = Some (Inr m, d')"
  defines "rs \<equiv> hs_remoteStatic (hs_of d p)" and "pss \<equiv> hs_precomputedStaticStatic (hs_of d p)"
  shows "\<exists>b static tsb ck h tbl. let e = clamp b in
    eph = Some b \<and> \<not> isZero (scalarMult C e rs) \<and> \<not> isZero pss \<and>
    noise_init C (d_publicKey d) rs (publicKey C e) (scalarMult C e rs) pss ts = (static, tsb, ck, h) \<and>
    NewIndexForHandshake p p idx (idx_Delete (hs_localIndex (hs_of d p)) (d_indexTable d)) =
      Some (mi_Sender m, True, tbl) \<and>
    m = \<lparr>mi_Type = MessageInitiationType, mi_Sender = mi_Sender m, mi_Ephemeral = publicKey C e,
         mi_Static = static, mi_Timestamp = tsb, mi_MAC1 = replicate 16 0, mi_MAC2 = replicate 16 0\<rparr> \<and>
    d' = upd_hs p (\<lambda>_. (hs_of d p)\<lparr>hs_localEphemeral := e, hs_chainKey := ck,
           hs_localIndex := mi_Sender m, hs_hash := h, hs_state := handshakeInitiationCreated\<rparr>)
         (d\<lparr>d_indexTable := tbl\<rparr>)"
  using assms
  by (auto simp: CreateMessageInitiation_def Let_def newPrivateKey_def sharedSecret_def noise_init_def
      hs_mixHash_def hs_mixKey_def publicKey_def
      split: option.splits prod.splits if_splits)


text \<open>When neither secret is degenerate and an index is found, the message is created.\<close>

lemma CreateMessageInitiation_succeeds:
  assumes "\<not> isZero (scalarMult C (clamp b) (hs_remoteStatic (hs_of d p)))"
    and "\<not> isZero (hs_precomputedStaticStatic (hs_of d p))"
    and "NewIndexForHandshake p p idx (idx_Delete (hs_localIndex (hs_of d p)) (d_indexTable d)) = Some (i, True, tbl)"
  shows "\<exists>m d'. CreateMessageInitiation C p (Some b) idx ts d = Some (Inr m, d')"
  using assms
  by (simp add: CreateMessageInitiation_def Let_def newPrivateKey_def sharedSecret_def hs_mixHash_def
      hs_mixKey_def split: prod.split)

lemma CreateMessageResponse_succeeds:
  assumes "hs_state (hs_of d p) = handshakeInitiationConsumed"
    and "\<not> isZero (scalarMult C (clamp b) (hs_remoteEphemeral (hs_of d p)))"
    and "\<not> isZero (scalarMult C (clamp b) (hs_remoteStatic (hs_of d p)))"
    and "NewIndexForHandshake p p idx (idx_Delete (hs_localIndex (hs_of d p)) (d_indexTable d)) = Some (i, True, tbl)"
  shows "\<exists>m d'. CreateMessageResponse C p (Some b) idx d = Some (Inr m, d')"
  using assms
  by (simp add: CreateMessageResponse_def Let_def newPrivateKey_def sharedSecret_def hs_mixHash_def
      hs_mixKey_def split: prod.split)

text \<open>A responder that can decrypt computes the same transcript.\<close>

lemma ConsumeMessageInitiation_ok:
  assumes ok: "crypto_ok C"
    and tr: "noise_init C Ipub (d_publicKey d) (mi_Ephemeral m) es ss ts = (mi_Static m, mi_Timestamp m, ck, h)"
    and m: "mi_Type m = MessageInitiationType"
    and es: "scalarMult C (d_privateKey d) (mi_Ephemeral m) = es" "\<not> isZero es"
    and peer: "LookupPeer Ipub d = Some q" "p_isRunning (peer_heap d q)"
    and ss: "hs_precomputedStaticStatic (hs_of d q) = ss" "\<not> isZero ss"
    and new: "After ts (hs_lastTimestamp (hs_of d q))"
    and slow: "time_Sub now1 (hs_lastInitiationConsumption (hs_of d q)) > HandshakeInitationRate"
  shows "ConsumeMessageInitiation C m now1 now2 d =
    (Some q, upd_hs q (\<lambda>_. (hs_of d q)\<lparr>hs_hash := h, hs_chainKey := ck, hs_remoteIndex := mi_Sender m,
        hs_remoteEphemeral := mi_Ephemeral m, hs_lastTimestamp := ts,
        hs_lastInitiationConsumption := max now2 (hs_lastInitiationConsumption (hs_of d q)),
        hs_state := handshakeInitiationConsumed\<rparr>) d)"
proof -
  have max: "(if now2 > x then now2 else x) = max now2 x" for x by (simp add: max_def)
  define h2 where "h2 = mixHash C (mixHash C (InitialHash C) (d_publicKey d)) (mi_Ephemeral m)"
  obtain ck2 k where k: "KDF2 C (mixKey C (InitialChainKey C) (mi_Ephemeral m)) es = (ck2, k)" by fastforce
  obtain ck3 k' where k': "KDF2 C ck2 ss = (ck3, k')" by fastforce
  have s1: "mi_Static m = aeadSeal C k ZeroNonce Ipub h2"
    using tr by (auto simp: noise_init_def Let_def k h2_def)
  have s2: "mi_Timestamp m = aeadSeal C k' ZeroNonce ts (mixHash C h2 (mi_Static m))"
    using tr by (auto simp: noise_init_def Let_def k k' h2_def)
  have open1: "aeadOpen C k ZeroNonce (mi_Static m) h2 = Some Ipub"
    unfolding s1 by (rule crypto_okD(7) [OF ok])
  have open2: "aeadOpen C k' ZeroNonce (mi_Timestamp m) (mixHash C h2 (mi_Static m)) = Some ts"
    unfolding s2 by (rule crypto_okD(7) [OF ok])
  have fin: "ck = ck3" "h = mixHash C (mixHash C h2 (mi_Static m)) (mi_Timestamp m)"
    using tr by (auto simp: noise_init_def Let_def k k' h2_def)
  show ?thesis using es ss peer new slow
    by (simp add: ConsumeMessageInitiation_def Let_def m sharedSecret_def k k' h2_def [symmetric]
        open1 open2 fin max)
qed

lemma CreateMessageResponse_ok:
  assumes "CreateMessageResponse C q eph idx d = Some (Inr m, d')"
  shows "\<exists>b empty ck h tbl. let e = clamp b in
    eph = Some b \<and> hs_state (hs_of d q) = handshakeInitiationConsumed \<and>
    \<not> isZero (scalarMult C e (hs_remoteEphemeral (hs_of d q))) \<and>
    \<not> isZero (scalarMult C e (hs_remoteStatic (hs_of d q))) \<and>
    noise_resp C (hs_chainKey (hs_of d q)) (hs_hash (hs_of d q)) (publicKey C e)
      (scalarMult C e (hs_remoteEphemeral (hs_of d q))) (scalarMult C e (hs_remoteStatic (hs_of d q)))
      (hs_presharedKey (hs_of d q)) = (empty, ck, h) \<and>
    NewIndexForHandshake q q idx (idx_Delete (hs_localIndex (hs_of d q)) (d_indexTable d)) =
      Some (mr_Sender m, True, tbl) \<and>
    m = \<lparr>mr_Type = MessageResponseType, mr_Sender = mr_Sender m, mr_Receiver = hs_remoteIndex (hs_of d q),
         mr_Ephemeral = publicKey C e, mr_Empty = empty,
         mr_MAC1 = replicate 16 0, mr_MAC2 = replicate 16 0\<rparr> \<and>
    d' = upd_hs q (\<lambda>_. (hs_of d q)\<lparr>hs_localIndex := mr_Sender m, hs_localEphemeral := e,
           hs_chainKey := ck, hs_hash := h, hs_state := handshakeResponseCreated\<rparr>)
         (d\<lparr>d_indexTable := tbl\<rparr>)"
  using assms
  by (auto simp: CreateMessageResponse_def Let_def newPrivateKey_def sharedSecret_def noise_resp_def
      hs_mixHash_def hs_mixKey_def publicKey_def
      split: option.splits prod.splits if_splits)

lemma ConsumeMessageResponse_ok:
  assumes ok: "crypto_ok C"
    and tr: "noise_resp C (hs_chainKey (hs_of d p)) (hs_hash (hs_of d p)) (mr_Ephemeral m) ee se
        (hs_presharedKey (hs_of d p)) = (mr_Empty m, ck, h)"
    and m: "mr_Type m = MessageResponseType"
    and ix: "idx_Lookup (mr_Receiver m) (d_indexTable d) = \<lparr>it_peer = Some p, it_handshake = Some p, it_keypair = None\<rparr>"
    and st: "hs_state (hs_of d p) = handshakeInitiationCreated"
    and ee: "scalarMult C (hs_localEphemeral (hs_of d p)) (mr_Ephemeral m) = ee" "\<not> isZero ee"
    and se: "scalarMult C (d_privateKey d) (mr_Ephemeral m) = se" "\<not> isZero se"
  shows "ConsumeMessageResponse C m d =
    (Some p, upd_hs p (\<lambda>_. (hs_of d p)\<lparr>hs_hash := h, hs_chainKey := ck, hs_remoteIndex := mr_Sender m,
        hs_state := handshakeResponseConsumed\<rparr>) d)"
proof -
  obtain ck4 tau k where k: "KDF3 C (mixKey C (mixKey C (mixKey C (hs_chainKey (hs_of d p)) (mr_Ephemeral m)) ee) se)
      (hs_presharedKey (hs_of d p)) = (ck4, tau, k)" by (metis prod.exhaust)
  define h2 where "h2 = mixHash C (mixHash C (hs_hash (hs_of d p)) (mr_Ephemeral m)) tau"
  have s: "mr_Empty m = aeadSeal C k ZeroNonce [] h2"
    using tr by (auto simp: noise_resp_def Let_def k h2_def)
  have opn: "aeadOpen C k ZeroNonce (mr_Empty m) h2 = Some []"
    unfolding s by (rule crypto_okD(7) [OF ok])
  have fin: "ck = ck4" "h = mixHash C h2 (mr_Empty m)"
    using tr by (auto simp: noise_resp_def Let_def k h2_def)
  show ?thesis using ee se
    by (simp add: ConsumeMessageResponse_def Let_def m ix st sharedSecret_def k h2_def [symmetric] opn fin)
qed


section \<open>Deriving the session\<close>

lemma rotate_frame [simp]:
  "kp_heap (rotate_initiator p k d) = kp_heap d" "kp_heap (rotate_responder p k d) = kp_heap d"
  "next_kp (rotate_initiator p k d) = next_kp d" "next_kp (rotate_responder p k d) = next_kp d"
  by (simp_all add: rotate_initiator_def rotate_responder_def Let_def)

lemma rotate_initiator_slots:
  "kps_of (rotate_initiator p k d) p =
     \<lparr>kps_current = Some k,
      kps_previous = (if kps_next (kps_of d p) \<noteq> None then kps_next (kps_of d p) else kps_current (kps_of d p)),
      kps_next = None\<rparr>"
  by (cases "kps_of d p") (auto simp: rotate_initiator_def Let_def)

lemma rotate_responder_slots:
  "kps_of (rotate_responder p k d) p =
     \<lparr>kps_current = kps_current (kps_of d p), kps_previous = None, kps_next = Some k\<rparr>"
  by (cases "kps_of d p") (auto simp: rotate_responder_def Let_def)

text \<open>The initiator ends with the new keypair current, the responder with it next.\<close>

lemma BeginSymmetricSession_initiator:
  fixes C :: Crypto and d :: Device and p :: nat
  assumes "hs_state (hs_of d p) = handshakeResponseConsumed"
  defines "ks \<equiv> KDF2 C (hs_chainKey (hs_of d p)) []"
  shows "\<exists>d'. BeginSymmetricSession C p now d = (None, d') \<and>
    kps_current (kps_of d' p) = Some (next_kp d) \<and>
    kp_heap d' (next_kp d) =
      \<lparr>kp_sendNonce = 0, kp_send = fst ks, kp_receive = snd ks, kp_replayFilter = Reset zero_Filter,
       kp_isInitiator = True, kp_created = now, kp_localIndex = hs_localIndex (hs_of d p),
       kp_remoteIndex = hs_remoteIndex (hs_of d p)\<rparr>"
  using assms
  by (simp add: BeginSymmetricSession_def install_keypair_def Let_def rotate_initiator_slots
      zero_session_handshake_def split: prod.split)

lemma BeginSymmetricSession_responder:
  fixes C :: Crypto and d :: Device and p :: nat
  assumes "hs_state (hs_of d p) = handshakeResponseCreated"
  defines "ks \<equiv> KDF2 C (hs_chainKey (hs_of d p)) []"
  shows "\<exists>d'. BeginSymmetricSession C p now d = (None, d') \<and>
    kps_next (kps_of d' p) = Some (next_kp d) \<and>
    kp_heap d' (next_kp d) =
      \<lparr>kp_sendNonce = 0, kp_send = snd ks, kp_receive = fst ks, kp_replayFilter = Reset zero_Filter,
       kp_isInitiator = False, kp_created = now, kp_localIndex = hs_localIndex (hs_of d p),
       kp_remoteIndex = hs_remoteIndex (hs_of d p)\<rparr>"
  using assms
  by (simp add: BeginSymmetricSession_def install_keypair_def Let_def rotate_responder_slots
      zero_session_handshake_def split: prod.split)

section \<open>Agreement of a handshake\<close>

text \<open>
  Device \<open>I\<close> knows device \<open>R\<close> as its peer \<open>p\<close> and \<open>R\<close> knows \<open>I\<close> as its running peer \<open>q\<close>: their
  keys fit together as \<open>SetPrivateKey\<close> and \<open>NewPeer\<close> set them up.
\<close>

definition paired :: "Crypto \<Rightarrow> Device \<Rightarrow> nat \<Rightarrow> Device \<Rightarrow> nat \<Rightarrow> bool" where
  "paired C I p R q =
     (d_publicKey I = publicKey C (d_privateKey I) \<and> d_publicKey R = publicKey C (d_privateKey R) \<and>
      hs_remoteStatic (hs_of I p) = d_publicKey R \<and> hs_remoteStatic (hs_of R q) = d_publicKey I \<and>
      hs_precomputedStaticStatic (hs_of I p) = scalarMult C (d_privateKey I) (d_publicKey R) \<and>
      hs_precomputedStaticStatic (hs_of R q) = scalarMult C (d_privateKey R) (d_publicKey I) \<and>
      hs_presharedKey (hs_of I p) = hs_presharedKey (hs_of R q) \<and>
      LookupPeer (d_publicKey I) R = Some q \<and> p_isRunning (peer_heap R q))"

text \<open>The responder's view of a successful initiation.\<close>

lemma responder_consumes:
  assumes ok: "crypto_ok C" and pair: "paired C I p R q"
    and init: "CreateMessageInitiation C p eph idx ts I = Some (Inr m, I1)"
    and new: "After ts (hs_lastTimestamp (hs_of R q))"
    and slow: "time_Sub now1 (hs_lastInitiationConsumption (hs_of R q)) > HandshakeInitationRate"
  shows "ConsumeMessageInitiation C m now1 now2 R =
    (Some q, upd_hs q (\<lambda>_. (hs_of R q)\<lparr>hs_hash := hs_hash (hs_of I1 p), hs_chainKey := hs_chainKey (hs_of I1 p),
        hs_remoteIndex := mi_Sender m, hs_remoteEphemeral := publicKey C (hs_localEphemeral (hs_of I1 p)),
        hs_lastTimestamp := ts,
        hs_lastInitiationConsumption := max now2 (hs_lastInitiationConsumption (hs_of R q)),
        hs_state := handshakeInitiationConsumed\<rparr>) R)"
proof -
  obtain b static tsb ck h tbl where i: "\<not> isZero (scalarMult C (clamp b) (d_publicKey R))"
      "\<not> isZero (scalarMult C (d_privateKey I) (d_publicKey R))"
      "noise_init C (d_publicKey I) (d_publicKey R) (publicKey C (clamp b)) (scalarMult C (clamp b) (d_publicKey R))
        (scalarMult C (d_privateKey I) (d_publicKey R)) ts = (static, tsb, ck, h)"
    and m: "m = \<lparr>mi_Type = MessageInitiationType, mi_Sender = mi_Sender m, mi_Ephemeral = publicKey C (clamp b),
         mi_Static = static, mi_Timestamp = tsb, mi_MAC1 = replicate 16 0, mi_MAC2 = replicate 16 0\<rparr>"
    and I1: "I1 = upd_hs p (\<lambda>_. (hs_of I p)\<lparr>hs_localEphemeral := clamp b, hs_chainKey := ck,
           hs_localIndex := mi_Sender m, hs_hash := h, hs_state := handshakeInitiationCreated\<rparr>)
         (I\<lparr>d_indexTable := tbl\<rparr>)"
    using CreateMessageInitiation_ok [OF init] pair unfolding paired_def Let_def by metis
  have mf: "mi_Type m = MessageInitiationType" "mi_Ephemeral m = publicKey C (clamp b)"
    "mi_Static m = static" "mi_Timestamp m = tsb" by (subst m, simp)+
  have dh: "scalarMult C (d_privateKey R) (publicKey C x) = scalarMult C x (d_publicKey R)" for x
    using pair crypto_okD(5) [OF ok] by (simp add: paired_def publicKey_def)
  have km: "LookupPeer (publicKey C (d_privateKey I)) R = Some q"
    using pair by (auto simp: paired_def)
  have "ConsumeMessageInitiation C m now1 now2 R =
    (Some q, upd_hs q (\<lambda>_. (hs_of R q)\<lparr>hs_hash := h, hs_chainKey := ck, hs_remoteIndex := mi_Sender m,
        hs_remoteEphemeral := mi_Ephemeral m, hs_lastTimestamp := ts,
        hs_lastInitiationConsumption := max now2 (hs_lastInitiationConsumption (hs_of R q)),
        hs_state := handshakeInitiationConsumed\<rparr>) R)"
    by (rule ConsumeMessageInitiation_ok [OF ok, where Ipub = "d_publicKey I"
          and es = "scalarMult C (clamp b) (d_publicKey R)" and ss = "scalarMult C (d_privateKey I) (d_publicKey R)"])
      (use i mf dh km pair new slow in \<open>simp_all add: paired_def\<close>)
  then show ?thesis by (simp add: I1 mf)
qed


text \<open>The initiator's view of the response to its initiation.\<close>

lemma initiator_consumes:
  assumes ok: "crypto_ok C" and pair: "paired C I p R q"
    and init: "CreateMessageInitiation C p eph idx ts I = Some (Inr m1, I1)"
    and R1: "hs_of R1 q = (hs_of R q)\<lparr>hs_hash := hs_hash (hs_of I1 p), hs_chainKey := hs_chainKey (hs_of I1 p),
        hs_remoteIndex := mi_Sender m1, hs_remoteEphemeral := publicKey C (hs_localEphemeral (hs_of I1 p)),
        hs_lastTimestamp := ts', hs_lastInitiationConsumption := t', hs_state := handshakeInitiationConsumed\<rparr>"
    and resp: "CreateMessageResponse C q eph2 idx2 R1 = Some (Inr m2, R2)"
  shows "\<exists>I2. ConsumeMessageResponse C m2 I1 = (Some p, I2) \<and>
    hs_state (hs_of I2 p) = handshakeResponseConsumed \<and> hs_state (hs_of R2 q) = handshakeResponseCreated \<and>
    hs_chainKey (hs_of I2 p) = hs_chainKey (hs_of R2 q) \<and>
    hs_localIndex (hs_of I2 p) = hs_remoteIndex (hs_of R2 q) \<and>
    hs_remoteIndex (hs_of I2 p) = hs_localIndex (hs_of R2 q)"
proof -
  obtain b ck h tbl where new: "NewIndexForHandshake p p idx
        (idx_Delete (hs_localIndex (hs_of I p)) (d_indexTable I)) = Some (mi_Sender m1, True, tbl)"
    and I1: "I1 = upd_hs p (\<lambda>_. (hs_of I p)\<lparr>hs_localEphemeral := clamp b, hs_chainKey := ck,
           hs_localIndex := mi_Sender m1, hs_hash := h, hs_state := handshakeInitiationCreated\<rparr>)
         (I\<lparr>d_indexTable := tbl\<rparr>)"
    using CreateMessageInitiation_ok [OF init] unfolding Let_def by metis
  have h1: "hs_of I1 p = (hs_of I p)\<lparr>hs_localEphemeral := clamp b, hs_chainKey := ck,
           hs_localIndex := mi_Sender m1, hs_hash := h, hs_state := handshakeInitiationCreated\<rparr>"
    "d_privateKey I1 = d_privateKey I" by (simp_all add: I1)
  have q1: "hs_chainKey (hs_of R1 q) = ck" "hs_hash (hs_of R1 q) = h" "hs_remoteIndex (hs_of R1 q) = mi_Sender m1"
    "hs_remoteEphemeral (hs_of R1 q) = publicKey C (clamp b)" "hs_remoteStatic (hs_of R1 q) = d_publicKey I"
    "hs_presharedKey (hs_of R1 q) = hs_presharedKey (hs_of I p)"
    using pair by (simp_all add: R1 h1 paired_def)
  obtain b2 empty ck2 h2 tbl2 where z: "\<not> isZero (scalarMult C (clamp b2) (publicKey C (clamp b)))"
      "\<not> isZero (scalarMult C (clamp b2) (d_publicKey I))"
    and tr: "noise_resp C ck h (publicKey C (clamp b2)) (scalarMult C (clamp b2) (publicKey C (clamp b)))
      (scalarMult C (clamp b2) (d_publicKey I)) (hs_presharedKey (hs_of I p)) = (empty, ck2, h2)"
    and m2: "m2 = \<lparr>mr_Type = MessageResponseType, mr_Sender = mr_Sender m2, mr_Receiver = mi_Sender m1,
         mr_Ephemeral = publicKey C (clamp b2), mr_Empty = empty,
         mr_MAC1 = replicate 16 0, mr_MAC2 = replicate 16 0\<rparr>"
    and R2: "R2 = upd_hs q (\<lambda>_. (hs_of R1 q)\<lparr>hs_localIndex := mr_Sender m2, hs_localEphemeral := clamp b2,
           hs_chainKey := ck2, hs_hash := h2, hs_state := handshakeResponseCreated\<rparr>)
         (R1\<lparr>d_indexTable := tbl2\<rparr>)"
    using CreateMessageResponse_ok [OF resp] unfolding Let_def q1 by metis
  have mf: "mr_Type m2 = MessageResponseType" "mr_Receiver m2 = mi_Sender m1"
    "mr_Ephemeral m2 = publicKey C (clamp b2)" "mr_Empty m2 = empty" by (subst m2, simp)+
  have dh: "scalarMult C x (publicKey C y) = scalarMult C y (publicKey C x)" for x y
    using crypto_okD(5) [OF ok] by (simp add: publicKey_def)
  have pubI: "d_publicKey I = publicKey C (d_privateKey I)" using pair by (simp add: paired_def)
  have look: "idx_Lookup (mr_Receiver m2) (d_indexTable I1) =
      \<lparr>it_peer = Some p, it_handshake = Some p, it_keypair = None\<rparr>"
    using NewIndex_fresh [OF new] by (simp add: idx_Lookup_def I1 mf)
  have "ConsumeMessageResponse C m2 I1 =
    (Some p, upd_hs p (\<lambda>_. (hs_of I1 p)\<lparr>hs_hash := h2, hs_chainKey := ck2, hs_remoteIndex := mr_Sender m2,
        hs_state := handshakeResponseConsumed\<rparr>) I1)"
    by (rule ConsumeMessageResponse_ok [OF ok, where ee = "scalarMult C (clamp b2) (publicKey C (clamp b))"
          and se = "scalarMult C (clamp b2) (d_publicKey I)"])
      (use z tr in \<open>simp_all add: mf look [unfolded mf] h1 dh [of "clamp b" "clamp b2"]
         dh [of "d_privateKey I" "clamp b2"] pubI\<close>)
  then show ?thesis by (simp add: R2 h1 q1)
qed



text \<open>Two concrete devices with the primitives of \<open>plain_crypto\<close>.\<close>

definition example_device :: "bytes \<Rightarrow> bytes \<Rightarrow> Device" where
  "example_device sk pk =
     zero_Device\<lparr>d_privateKey := sk, d_publicKey := publicKey plain_crypto sk, d_keyMap := [(pk, 0)],
       peer_heap := (peer_heap zero_Device)(0 := zero_Peer\<lparr>p_isRunning := True,
         p_handshake := zero_Handshake\<lparr>hs_remoteStatic := pk,
           hs_precomputedStaticStatic := scalarMult plain_crypto sk pk\<rparr>\<rparr>)\<rparr>"

lemma plain_scalarMult_nonzero:
  assumes "length x = 32" "length y = 32" "x ! Suc 0 + y ! Suc 0 \<noteq> 0"
  shows "\<not> isZero (scalarMult plain_crypto x (publicKey plain_crypto y))"
proof -
  have p: "pad 32 x = x" "pad 32 y = y" using assms by (simp_all add: pad_def)
  then have e: "scalarMult plain_crypto x (publicKey plain_crypto y) = map2 (+) x y"
    by (simp add: plain_crypto_def publicKey_def)
  have "map2 (+) x y ! Suc 0 = x ! Suc 0 + y ! Suc 0" "Suc 0 < length (map2 (+) x y)" using assms by simp_all
  then have "x ! Suc 0 + y ! Suc 0 \<in> set (map2 (+) x y)" by (metis nth_mem)
  then show ?thesis using assms(3) unfolding e isZero_iff by blast
qed

lemma example_paired:
  assumes "length a = 32" "length b = 32"
  shows "paired plain_crypto (example_device a (publicKey plain_crypto b)) 0
    (example_device b (publicKey plain_crypto a)) 0"
  using crypto_okD(5) [OF plain_crypto_ok, of a b]
  by (simp add: paired_def example_device_def LookupPeer_def publicKey_def)


end
