(* ===== verification/Peer_Timers.thy ===== *)
theory Peer_Timers
  imports Device_State
begin

text \<open>
  \<open>wireguard/device/timers.go\<close>: the five timers of a peer and the hooks that set and clear
  them. A timer is the instant at which it expires, or \<open>None\<close> when it is not pending. The
  expiration functions that send are in the theory \<open>Send\<close>.
\<close>

section \<open>Timers\<close>

type_synonym Timer = "time option"

definition NewTimer :: Timer where
  "NewTimer = None"

definition timer_Mod :: "time \<Rightarrow> duration \<Rightarrow> Timer \<Rightarrow> Timer" where
  "timer_Mod now dur t = Some (now + dur)"

definition timer_Del :: "Timer \<Rightarrow> Timer" where
  "timer_Del t = None"

definition DelSync :: "Timer \<Rightarrow> Timer" where
  "DelSync t = timer_Del (timer_Del t)"

definition IsPending :: "Timer \<Rightarrow> bool" where
  "IsPending t = (t \<noteq> None)"

definition fastrandn :: "nat \<Rightarrow> nat \<Rightarrow> nat" where
  "fastrandn reading n = reading mod n"

definition upd_tm :: "nat \<Rightarrow> (Timers \<Rightarrow> Timers) \<Rightarrow> Device \<Rightarrow> Device" where
  "upd_tm p f = upd_peer p (\<lambda>x. x\<lparr>p_timers := f (p_timers x)\<rparr>)"

abbreviation tm_of :: "Device \<Rightarrow> nat \<Rightarrow> Timers" where
  "tm_of d p \<equiv> p_timers (peer_heap d p)"

definition timersActive :: "nat \<Rightarrow> Device \<Rightarrow> bool" where
  "timersActive p d = (p_isRunning (peer_heap d p) \<and> isUp d)"

section \<open>Hooks\<close>

definition jitter :: "Env \<Rightarrow> nat \<Rightarrow> duration" where
  "jitter E p = Millisecond * int (fastrandn (e_jitter E p) RekeyTimeoutJitterMaxMs)"

definition timersDataSent :: "Env \<Rightarrow> nat \<Rightarrow> Device \<Rightarrow> Device" where
  "timersDataSent E p d =
     (if timersActive p d \<and> \<not> IsPending (tm_newHandshake (tm_of d p))
      then upd_tm p (\<lambda>t. t\<lparr>tm_newHandshake :=
             timer_Mod (e_clock E At_Timer) (KeepaliveTimeout + RekeyTimeout + jitter E p) (tm_newHandshake t)\<rparr>) d
      else d)"

definition timersDataReceived :: "Env \<Rightarrow> nat \<Rightarrow> Device \<Rightarrow> Device" where
  "timersDataReceived E p d =
     (if timersActive p d then
        if \<not> IsPending (tm_sendKeepalive (tm_of d p))
        then upd_tm p (\<lambda>t. t\<lparr>tm_sendKeepalive :=
               timer_Mod (e_clock E At_Timer) KeepaliveTimeout (tm_sendKeepalive t)\<rparr>) d
        else upd_tm p (\<lambda>t. t\<lparr>tm_needAnotherKeepalive := True\<rparr>) d
      else d)"

definition timersAnyAuthenticatedPacketSent :: "nat \<Rightarrow> Device \<Rightarrow> Device" where
  "timersAnyAuthenticatedPacketSent p d =
     (if timersActive p d
      then upd_tm p (\<lambda>t. t\<lparr>tm_sendKeepalive := timer_Del (tm_sendKeepalive t)\<rparr>) d
      else d)"

definition timersAnyAuthenticatedPacketReceived :: "nat \<Rightarrow> Device \<Rightarrow> Device" where
  "timersAnyAuthenticatedPacketReceived p d =
     (if timersActive p d
      then upd_tm p (\<lambda>t. t\<lparr>tm_newHandshake := timer_Del (tm_newHandshake t)\<rparr>) d
      else d)"

definition timersHandshakeInitiated :: "Env \<Rightarrow> nat \<Rightarrow> Device \<Rightarrow> Device" where
  "timersHandshakeInitiated E p d =
     (if timersActive p d
      then upd_tm p (\<lambda>t. t\<lparr>tm_retransmitHandshake :=
             timer_Mod (e_clock E At_Timer) (RekeyTimeout + jitter E p) (tm_retransmitHandshake t)\<rparr>) d
      else d)"

definition timersHandshakeComplete :: "Env \<Rightarrow> nat \<Rightarrow> Device \<Rightarrow> Device" where
  "timersHandshakeComplete E p d =
     (let d1 = (if timersActive p d
                then upd_tm p (\<lambda>t. t\<lparr>tm_retransmitHandshake := timer_Del (tm_retransmitHandshake t)\<rparr>) d
                else d);
          d2 = upd_tm p (\<lambda>t. t\<lparr>tm_handshakeAttempts := 0, tm_sentLastMinuteHandshake := False\<rparr>) d1
      in upd_peer p (\<lambda>x. x\<lparr>p_lastHandshakeNano := UnixNano (e_clock E At_Complete)\<rparr>) d2)"

definition timersSessionDerived :: "Env \<Rightarrow> nat \<Rightarrow> Device \<Rightarrow> Device" where
  "timersSessionDerived E p d =
     (if timersActive p d
      then upd_tm p (\<lambda>t. t\<lparr>tm_zeroKeyMaterial :=
             timer_Mod (e_clock E At_Timer) (RejectAfterTime * 3) (tm_zeroKeyMaterial t)\<rparr>) d
      else d)"

definition timersAnyAuthenticatedPacketTraversal :: "Env \<Rightarrow> nat \<Rightarrow> Device \<Rightarrow> Device" where
  "timersAnyAuthenticatedPacketTraversal E p d =
     (let keepalive = p_persistentKeepaliveInterval (peer_heap d p)
      in if keepalive > 0 \<and> timersActive p d
         then upd_tm p (\<lambda>t. t\<lparr>tm_persistentKeepalive :=
                timer_Mod (e_clock E At_Timer) (uint keepalive * Second) (tm_persistentKeepalive t)\<rparr>) d
         else d)"

definition timersInit :: "nat \<Rightarrow> Device \<Rightarrow> Device" where
  "timersInit p =
     upd_tm p (\<lambda>t. t\<lparr>tm_retransmitHandshake := NewTimer, tm_sendKeepalive := NewTimer,
       tm_newHandshake := NewTimer, tm_zeroKeyMaterial := NewTimer, tm_persistentKeepalive := NewTimer\<rparr>)"

definition timersStart :: "nat \<Rightarrow> Device \<Rightarrow> Device" where
  "timersStart p =
     upd_tm p (\<lambda>t. t\<lparr>tm_handshakeAttempts := 0, tm_needAnotherKeepalive := False,
       tm_sentLastMinuteHandshake := False\<rparr>)"

definition timersStop :: "nat \<Rightarrow> Device \<Rightarrow> Device" where
  "timersStop p =
     upd_tm p (\<lambda>t. t\<lparr>tm_retransmitHandshake := DelSync (tm_retransmitHandshake t),
       tm_sendKeepalive := DelSync (tm_sendKeepalive t), tm_newHandshake := DelSync (tm_newHandshake t),
       tm_zeroKeyMaterial := DelSync (tm_zeroKeyMaterial t),
       tm_persistentKeepalive := DelSync (tm_persistentKeepalive t)\<rparr>)"

lemmas timer_ops = timer_Mod_def timer_Del_def DelSync_def IsPending_def NewTimer_def

lemmas timer_hooks = timersDataSent_def timersDataReceived_def timersAnyAuthenticatedPacketSent_def
  timersAnyAuthenticatedPacketReceived_def timersHandshakeInitiated_def timersHandshakeComplete_def
  timersSessionDerived_def timersAnyAuthenticatedPacketTraversal_def timersInit_def timersStart_def
  timersStop_def

section \<open>Frame\<close>

text \<open>
  A hook changes the timers of its own peer and, when a handshake completes, the time of that
  handshake. \<open>peer_core\<close> is everything else of a peer.
\<close>

definition peer_core :: "Peer \<Rightarrow> Peer" where
  "peer_core x = x\<lparr>p_timers := zero_Timers, p_lastHandshakeNano := 0\<rparr>"

text \<open>A function on devices that only changes the timers of peers.\<close>

definition timers_only :: "(Device \<Rightarrow> Device) \<Rightarrow> bool" where
  "timers_only f = (\<forall>d. \<exists>h. f d = d\<lparr>peer_heap := h\<rparr> \<and> (\<forall>q. peer_core (h q) = peer_core (peer_heap d q)))"

lemma peer_core_fields:
  assumes "peer_core x = peer_core y"
  shows "p_isRunning x = p_isRunning y" "p_keypairs x = p_keypairs y" "p_handshake x = p_handshake y"
    "p_endpoint x = p_endpoint y" "p_staged x = p_staged y" "p_outbound x = p_outbound y"
    "p_inbound x = p_inbound y" "p_txBytes x = p_txBytes y" "p_rxBytes x = p_rxBytes y"
    "p_reserved x = p_reserved y" "p_trick x = p_trick y" "p_disableRoaming x = p_disableRoaming y"
    "p_cookieGenerator x = p_cookieGenerator y" "p_clearSrcOnTx x = p_clearSrcOnTx y"
    "p_persistentKeepaliveInterval x = p_persistentKeepaliveInterval y"
  using assms by (cases x; cases y; simp add: peer_core_def)+

lemma timers_only_upd_tm: "timers_only (\<lambda>d. upd_tm p (f d) d)"
proof -
  have "upd_tm p (f d) d = d\<lparr>peer_heap := (peer_heap d)(p := (peer_heap d p)\<lparr>p_timers := f d (tm_of d p)\<rparr>)\<rparr>" for d
    by (simp add: upd_tm_def upd_peer_def)
  then show ?thesis unfolding timers_only_def by (fastforce simp: peer_core_def)
qed

lemma timers_only_id: "timers_only (\<lambda>d. d)"
proof -
  have "d = d\<lparr>peer_heap := peer_heap d\<rparr>" for d :: Device by simp
  then show ?thesis unfolding timers_only_def by blast
qed

lemma timers_only_comp:
  assumes "timers_only f" "timers_only g"
  shows "timers_only (\<lambda>d. g (f d))"
  unfolding timers_only_def
proof
  fix d
  obtain h where h: "f d = d\<lparr>peer_heap := h\<rparr>" "\<forall>q. peer_core (h q) = peer_core (peer_heap d q)"
    using assms(1) unfolding timers_only_def by blast
  obtain k where k: "g (f d) = (f d)\<lparr>peer_heap := k\<rparr>" "\<forall>q. peer_core (k q) = peer_core (peer_heap (f d) q)"
    using assms(2) unfolding timers_only_def by blast
  show "\<exists>h. g (f d) = d\<lparr>peer_heap := h\<rparr> \<and> (\<forall>q. peer_core (h q) = peer_core (peer_heap d q))"
    using h k by (intro exI [of _ k]) simp
qed

lemma timers_only_if:
  "timers_only f \<Longrightarrow> timers_only g \<Longrightarrow> timers_only (\<lambda>d. if P d then f d else g d)"
  unfolding timers_only_def by simp

lemma timers_only_nano: "timers_only (upd_peer p (\<lambda>x. x\<lparr>p_lastHandshakeNano := n\<rparr>))"
proof -
  have "upd_peer p (\<lambda>x. x\<lparr>p_lastHandshakeNano := n\<rparr>) d =
      d\<lparr>peer_heap := (peer_heap d)(p := (peer_heap d p)\<lparr>p_lastHandshakeNano := n\<rparr>)\<rparr>" for d
    by (simp add: upd_peer_def)
  then show ?thesis unfolding timers_only_def by (fastforce simp: peer_core_def)
qed

lemma hooks_timers_only:
  "timers_only (timersDataSent E p)" "timers_only (timersDataReceived E p)"
  "timers_only (timersAnyAuthenticatedPacketSent p)" "timers_only (timersAnyAuthenticatedPacketReceived p)"
  "timers_only (timersHandshakeInitiated E p)" "timers_only (timersSessionDerived E p)"
  "timers_only (timersAnyAuthenticatedPacketTraversal E p)"
  "timers_only (timersInit p)" "timers_only (timersStart p)" "timers_only (timersStop p)"
  unfolding timersDataSent_def [abs_def] timersDataReceived_def [abs_def]
    timersAnyAuthenticatedPacketSent_def [abs_def] timersAnyAuthenticatedPacketReceived_def [abs_def]
    timersHandshakeInitiated_def [abs_def] timersSessionDerived_def [abs_def]
    timersAnyAuthenticatedPacketTraversal_def [abs_def] timersInit_def timersStart_def timersStop_def Let_def
  by (intro timers_only_if timers_only_upd_tm timers_only_id)+

lemma complete_timers_only: "timers_only (timersHandshakeComplete E p)"
proof -
  let ?f = "\<lambda>d. if timersActive p d
    then upd_tm p (\<lambda>t. t\<lparr>tm_retransmitHandshake := timer_Del (tm_retransmitHandshake t)\<rparr>) d else d"
  let ?g = "upd_tm p (\<lambda>t. t\<lparr>tm_handshakeAttempts := 0, tm_sentLastMinuteHandshake := False\<rparr>)"
  let ?h = "upd_peer p (\<lambda>x. x\<lparr>p_lastHandshakeNano := UnixNano (e_clock E At_Complete)\<rparr>)"
  have "timers_only ?f" by (intro timers_only_if timers_only_upd_tm timers_only_id)
  from timers_only_comp [OF timers_only_comp [OF this timers_only_upd_tm] timers_only_nano]
  have "timers_only (\<lambda>d. ?h (?g (?f d)))" .
  then show ?thesis by (simp add: timersHandshakeComplete_def [abs_def] Let_def)
qed

end
