(* ===== verification/Peers.thy ===== *)
theory Peers
  imports Peer_Timers Noise
begin

text \<open>
  \<open>wireguard/device/peer.go\<close>: creation of peers, transmission of buffers to a peer's endpoint,
  and the operations that forget keys. \<open>Start\<close> and \<open>Stop\<close>, which run the routines of a peer, are
  in the theory \<open>Device_Ops\<close>.
\<close>

section \<open>Creation\<close>

datatype newpeer_error = ErrDeviceClosed | ErrTooManyPeers | ErrExistingPeer

definition new_peer_value :: "Crypto \<Rightarrow> NoisePublicKey \<Rightarrow> Device \<Rightarrow> Peer" where
  "new_peer_value C pk d =
     zero_Peer\<lparr>p_cookieGenerator := generator_Init C pk zero_CookieGenerator,
       p_staged := [], p_outbound := [], p_inbound := [],
       p_handshake := zero_Handshake\<lparr>
         hs_precomputedStaticStatic := fst (sharedSecret C (d_privateKey d) pk), hs_remoteStatic := pk\<rparr>,
       p_endpoint := None, p_disableRoaming := False, p_clearSrcOnTx := False\<rparr>"

definition NewPeer :: "Crypto \<Rightarrow> NoisePublicKey \<Rightarrow> Device \<Rightarrow> (newpeer_error + nat) \<times> Device" where
  "NewPeer C pk d =
     (if isClosed d then (Inl ErrDeviceClosed, d)
      else if length (d_keyMap d) \<ge> MaxPeers then (Inl ErrTooManyPeers, d)
      else if LookupPeer pk d \<noteq> None then (Inl ErrExistingPeer, d)
      else
      let p = next_peer d;
          d1 = d\<lparr>peer_heap := (peer_heap d)(p := new_peer_value C pk d), next_peer := Suc p\<rparr>;
          d2 = timersInit p d1
      in (Inr p, d2\<lparr>d_keyMap := d_keyMap d2 @ [(pk, p)]\<rparr>))"

section \<open>Transmission\<close>

datatype send_error = ErrNoEndpoint | ErrBindSend | ErrUDPGSODisabled bool

definition put_reserved :: "bytes \<Rightarrow> bytes \<Rightarrow> bytes" where
  "put_reserved reserved b =
     (if length b > 3 \<and> b ! 0 > 0 \<and> b ! 0 < 5 then put_at 1 reserved b else b)"

definition total_len :: "bytes list \<Rightarrow> u64" where
  "total_len buffers = foldl (\<lambda>n b. n + of_nat (length b)) 0 buffers"

definition SendBuffers ::
  "send_result \<Rightarrow> nat \<Rightarrow> bytes list \<Rightarrow> bool \<Rightarrow> Device \<Rightarrow> send_error option \<times> Device" where
  "SendBuffers res p buffers trick d =
     (if isClosed d then (None, d)
      else case p_endpoint (peer_heap d p) of
        None \<Rightarrow> (Some ErrNoEndpoint, d)
      | Some ep \<Rightarrow>
      let clear = p_clearSrcOnTx (peer_heap d p);
          endpoint = (if clear then ClearSrc ep else ep);
          d1 = (if clear then upd_peer p (\<lambda>x. x\<lparr>p_endpoint := Some endpoint, p_clearSrcOnTx := False\<rparr>) d else d);
          buffers' = (if \<not> trick then map (put_reserved (p_reserved (peer_heap d1 p))) buffers else buffers);
          d2 = d1\<lparr>net_out := net_out d1 @ [(endpoint, buffers')]\<rparr>
      in case res of
           SendOk \<Rightarrow> (None, upd_peer p (\<lambda>x. x\<lparr>p_txBytes := p_txBytes x + total_len buffers'\<rparr>) d2)
         | SendErr \<Rightarrow> (Some ErrBindSend, d2)
         | SendGSO r \<Rightarrow> (Some (ErrUDPGSODisabled r), d2))"

definition SetEndpointFromPacket :: "nat \<Rightarrow> Endpoint \<Rightarrow> Device \<Rightarrow> Device" where
  "SetEndpointFromPacket p endpoint d =
     (if p_disableRoaming (peer_heap d p) then d
      else upd_peer p (\<lambda>x. x\<lparr>p_endpoint := Some endpoint, p_clearSrcOnTx := False\<rparr>) d)"

definition markEndpointSrcForClearing :: "nat \<Rightarrow> Device \<Rightarrow> Device" where
  "markEndpointSrcForClearing p d =
     (if p_endpoint (peer_heap d p) = None then d
      else upd_peer p (\<lambda>x. x\<lparr>p_clearSrcOnTx := True\<rparr>) d)"

section \<open>Forgetting keys\<close>

text \<open>The loop of \<open>FlushStagedPackets\<close> receives until the queue is empty.\<close>

definition FlushStagedPackets :: "nat \<Rightarrow> Device \<Rightarrow> Device" where
  "FlushStagedPackets p = upd_peer p (\<lambda>x. x\<lparr>p_staged := []\<rparr>)"

definition ZeroAndFlushAll :: "nat \<Rightarrow> Device \<Rightarrow> Device" where
  "ZeroAndFlushAll p d =
     (let kps = kps_of d p;
          d1 = DeleteKeypair (kps_previous kps) d;
          d2 = DeleteKeypair (kps_current kps) d1;
          d3 = DeleteKeypair (kps_next kps) d2;
          d4 = upd_kps p (\<lambda>x. x\<lparr>kps_current := None, kps_previous := None, kps_next := None\<rparr>) d3;
          d5 = d4\<lparr>d_indexTable := idx_Delete (hs_localIndex (hs_of d4 p)) (d_indexTable d4)\<rparr>;
          d6 = upd_hs p handshake_Clear d5
      in FlushStagedPackets p d6)"

definition expire_keypair :: "nat option \<Rightarrow> Device \<Rightarrow> Device" where
  "expire_keypair ko d =
     (case ko of None \<Rightarrow> d | Some k \<Rightarrow> upd_kp k (\<lambda>kp. kp\<lparr>kp_sendNonce := RejectAfterMessages\<rparr>) d)"

definition ExpireCurrentKeypairs :: "Env \<Rightarrow> nat \<Rightarrow> Device \<Rightarrow> Device" where
  "ExpireCurrentKeypairs E p d =
     (let d1 = d\<lparr>d_indexTable := idx_Delete (hs_localIndex (hs_of d p)) (d_indexTable d)\<rparr>;
          d2 = upd_hs p (\<lambda>h. (handshake_Clear h)\<lparr>
                 hs_lastSentHandshake := e_clock E At_Expire - (RekeyTimeout + Second)\<rparr>) d1;
          kps = kps_of d2 p
      in expire_keypair (kps_next kps) (expire_keypair (kps_current kps) d2))"

section \<open>Lemmas\<close>

lemma LookupPeer_frame [simp]:
  "LookupPeer pk (upd_peer p f d) = LookupPeer pk d"
  by (simp add: LookupPeer_def)

lemma NewPeer_ok:
  assumes "NewPeer C pk d = (Inr p, d')"
  shows "p = next_peer d \<and> next_peer d' = Suc p \<and> LookupPeer pk d = None \<and> LookupPeer pk d' = Some p \<and>
    hs_remoteStatic (hs_of d' p) = pk \<and>
    hs_precomputedStaticStatic (hs_of d' p) = scalarMult C (d_privateKey d) pk \<and>
    (\<forall>q. q \<noteq> p \<longrightarrow> peer_heap d' q = peer_heap d q) \<and>
    (\<forall>k. k \<noteq> pk \<longrightarrow> LookupPeer k d' = LookupPeer k d)"
  using assms
  by (auto simp: NewPeer_def Let_def timersInit_def upd_tm_def new_peer_value_def sharedSecret_def
      LookupPeer_def map_add_def split: if_splits option.splits)

lemma NewPeer_error:
  "NewPeer C pk d = (Inl e, d') \<Longrightarrow> d' = d \<and>
     (case e of ErrDeviceClosed \<Rightarrow> isClosed d
      | ErrTooManyPeers \<Rightarrow> length (d_keyMap d) \<ge> MaxPeers
      | ErrExistingPeer \<Rightarrow> LookupPeer pk d \<noteq> None)"
  by (auto simp: NewPeer_def Let_def split: if_splits)

text \<open>
  The receiver clears bytes 1 to 3 of every datagram before it reads the type, so the reserved
  bytes of the sender do not change what it sees.
\<close>

definition clear_reserved :: "bytes \<Rightarrow> bytes" where
  "clear_reserved b = b[1 := 0, 2 := 0, 3 := 0]"

lemma put_reserved_length [simp]: "length r = 3 \<Longrightarrow> length (put_reserved r b) = length b"
  by (auto simp: put_reserved_def put_at_def)

lemma clear_put_reserved:
  assumes "length r = 3"
  shows "clear_reserved (put_reserved r b) = clear_reserved b"
proof (cases "length b > 3 \<and> b ! 0 > 0 \<and> b ! 0 < 5")
  case True
  then obtain a x y z bs where b: "b = a # x # y # z # bs"
    by (auto simp: less_eq_Suc_le Suc_le_length_iff numeral_3_eq_3)
  obtain r0 r1 r2 where r: "r = [r0, r1, r2]" using assms
    by (auto simp: length_Suc_conv numeral_3_eq_3)
  show ?thesis using True
    by (simp add: clear_reserved_def put_reserved_def put_at_def b r numeral_2_eq_2 numeral_3_eq_3)
next
  case False
  then show ?thesis by (auto simp: put_reserved_def)
qed

text \<open>What a transmission changes: the endpoint and byte counter of the peer, and the network.\<close>

lemma SendBuffers_state:
  "\<exists>ep c t out. snd (SendBuffers res p bufs trick d) =
     d\<lparr>peer_heap := (peer_heap d)(p := (peer_heap d p)\<lparr>p_txBytes := t, p_endpoint := ep, p_clearSrcOnTx := c\<rparr>),
       net_out := net_out d @ out\<rparr>"
proof -
  have id: "d = d\<lparr>peer_heap := (peer_heap d)(p := (peer_heap d p)\<lparr>p_txBytes := p_txBytes (peer_heap d p),
      p_endpoint := p_endpoint (peer_heap d p), p_clearSrcOnTx := p_clearSrcOnTx (peer_heap d p)\<rparr>),
      net_out := net_out d @ []\<rparr>" by simp
  show ?thesis
  proof (cases "isClosed d \<or> p_endpoint (peer_heap d p) = None")
    case True
    then have "snd (SendBuffers res p bufs trick d) = d" by (auto simp: SendBuffers_def)
    then show ?thesis using id by metis
  next
    case False
    then obtain ep where ep: "p_endpoint (peer_heap d p) = Some ep" by auto
    let ?x = "peer_heap d p"
    let ?e = "if p_clearSrcOnTx ?x then ClearSrc ep else ep"
    let ?b = "if trick then bufs else map (put_reserved (p_reserved ?x)) bufs"
    let ?t = "if res = SendOk then p_txBytes ?x + total_len ?b else p_txBytes ?x"
    have "snd (SendBuffers res p bufs trick d) =
       d\<lparr>peer_heap := (peer_heap d)(p := ?x\<lparr>p_txBytes := ?t, p_endpoint := Some ?e, p_clearSrcOnTx := False\<rparr>),
         net_out := net_out d @ [(?e, ?b)]\<rparr>"
      using False ep
      by (intro Device.equality; cases res; cases "p_clearSrcOnTx ?x")
        (simp_all add: SendBuffers_def Let_def upd_peer_def fun_eq_iff)
    then show ?thesis by blast
  qed
qed

end
