(* ===== verification/Send.thy ===== *)
theory Send
  imports Peers "HOL-Library.Monad_Syntax" "HOL-Library.Signed_Division"
begin

text \<open>
  \<open>wireguard/device/send.go\<close> and the expiration functions of \<open>timers.go\<close>: staging, nonce
  assignment, encryption and transmission. A handler is a function from the device to
  \<open>Device option\<close>; \<open>None\<close> means that it panics or that the loop that picks an index has not
  returned within the readings it was given. One call of a worker or of the sequential sender
  handles one container.
\<close>

section \<open>Random packets\<close>

text \<open>\<open>rand.Int\<close> yields a number below its positive argument, given here by a reading.\<close>

definition randomInt :: "nat \<Rightarrow> u64 \<Rightarrow> u64 \<Rightarrow> u64 option" where
  "randomInt rd mn mx =
     (let rangee = mx - mn
      in if rangee < 1 then Some 0
         else if sint rangee \<le> 0 then None
         else Some (mn + of_nat (rd mod unat rangee)))"

definition clist :: bytes where
  "clist = [0xDC, 0xDE, 0xD3, 0xD9, 0xD0, 0xEC, 0xEE, 0xE3]"

definition trick_header :: "Tricks \<Rightarrow> bytes option" where
  "trick_header t =
     do {
       k \<leftarrow> randomInt (tr_first t) 0 (of_nat (length clist - 1));
       rnd \<leftarrow> tr_head t;
       Some ([clist ! unat k, 0x00, 0x00, 0x00, 0x01, 0x08] @ map rnd [0..<8] @ [0x00, 0x00, 0x44, 0xD0])
     }"

text \<open>\<open>random_loop i n\<close> is the loop with counter \<open>i\<close> and \<open>n\<close> packets to go.\<close>

fun random_loop :: "Tricks \<Rightarrow> nat \<Rightarrow> bytes \<Rightarrow> nat \<Rightarrow> nat \<Rightarrow> Device \<Rightarrow> Device option" where
  "random_loop t p hdr i 0 d = Some d"
| "random_loop t p hdr i (Suc n) d =
     (if isClosed d \<or> \<not> p_isRunning (peer_heap d p) then Some d
      else do {
        packetSize \<leftarrow> randomInt (fst (tr_pkts t i)) (of_nat (length hdr + 10)) (of_nat (length hdr + 120));
        (case snd (tr_pkts t i) of
           None \<Rightarrow> Some d
         | Some content \<Rightarrow>
             (let packet = hdr @ map content [length hdr..<unat packetSize];
                  (err, d') = SendBuffers (tr_send t i) p [packet] True d
              in if err \<noteq> None then Some d' else random_loop t p hdr (Suc i) n d'))
      })"

definition sendRandomPackets :: "Env \<Rightarrow> nat \<Rightarrow> Device \<Rightarrow> Device option" where
  "sendRandomPackets E p d =
     (let t = e_tricks E p;
          trick = p_trick (peer_heap d p);
          run = (\<lambda>hdr. do { n \<leftarrow> randomInt (tr_num t) 20 50; random_loop t p hdr 0 (unat n) d })
      in if trick = ''t1'' then run []
         else if trick = ''t2'' then do { hdr \<leftarrow> trick_header t; run hdr }
         else Some d)"

definition run_tricks :: "Env \<Rightarrow> nat \<Rightarrow> Device \<Rightarrow> Device option" where
  "run_tricks E p d =
     (if p_trick (peer_heap d p) \<noteq> '''' \<and> p_trick (peer_heap d p) \<noteq> ''t0''
      then sendRandomPackets E p d else Some d)"

section \<open>Handshake messages\<close>

datatype handshake_error =
    HsCreate noise_error
  | HsSession noise_error
  | HsSend send_error

definition add_macs :: "Crypto \<Rightarrow> Env \<Rightarrow> nat \<Rightarrow> bytes \<Rightarrow> Device \<Rightarrow> (bytes \<times> Device) option" where
  "add_macs C E p packet d =
     do {
       (packet', g) \<leftarrow> AddMacs C (p_cookieGenerator (peer_heap d p)) (e_clock E At_AddMacs) packet;
       Some (packet', upd_peer p (\<lambda>x. x\<lparr>p_cookieGenerator := g\<rparr>) d)
     }"

definition SendHandshakeInitiation ::
  "Crypto \<Rightarrow> Env \<Rightarrow> bool \<Rightarrow> nat \<Rightarrow> Device \<Rightarrow> (handshake_error option \<times> Device) option" where
  "SendHandshakeInitiation C E isRetry p d =
     (let d0 = (if \<not> isRetry then upd_tm p (\<lambda>t. t\<lparr>tm_handshakeAttempts := 0\<rparr>) d else d);
          lastSent = hs_lastSentHandshake (hs_of d0 p)
      in if time_Sub (e_clock E At_SinceSent1) lastSent < RekeyTimeout then Some (None, d0)
      else if time_Sub (e_clock E At_SinceSent2) lastSent < RekeyTimeout then Some (None, d0)
      else do {
        d1 \<leftarrow> run_tricks E p d0;
        let d2 = upd_hs p (\<lambda>h. h\<lparr>hs_lastSentHandshake := e_clock E At_Sent\<rparr>) d1;
        (r, d3) \<leftarrow> CreateMessageInitiation C p (e_ephemeral E p) (e_index E p)
                     (stamp (UnixNano (e_clock E At_Stamp))) d2;
        (case r of
           Inl e \<Rightarrow> Some (Some (HsCreate e), d3)
         | Inr msg \<Rightarrow> do {
             (packet, d4) \<leftarrow> add_macs C E p (write_initiation msg) d3;
             let d5 = timersAnyAuthenticatedPacketTraversal E p d4;
             let d6 = timersAnyAuthenticatedPacketSent p d5;
             let (err, d7) = SendBuffers (e_send E p) p [packet] False d6;
             let d8 = timersHandshakeInitiated E p d7;
             Some (map_option HsSend err, d8)
           })
      })"

definition SendHandshakeResponse ::
  "Crypto \<Rightarrow> Env \<Rightarrow> nat \<Rightarrow> Device \<Rightarrow> (handshake_error option \<times> Device) option" where
  "SendHandshakeResponse C E p d =
     do {
       let d1 = upd_hs p (\<lambda>h. h\<lparr>hs_lastSentHandshake := e_clock E At_Responded\<rparr>) d;
       (r, d2) \<leftarrow> CreateMessageResponse C p (e_ephemeral E p) (e_index E p) d1;
       (case r of
          Inl e \<Rightarrow> Some (Some (HsCreate e), d2)
        | Inr response \<Rightarrow> do {
            (packet, d3) \<leftarrow> add_macs C E p (write_response response) d2;
            let (serr, d4) = BeginSymmetricSession C p (e_clock E At_Session) d3;
            (case serr of
               Some e \<Rightarrow> Some (Some (HsSession e), d4)
             | None \<Rightarrow>
                 (let d5 = timersSessionDerived E p d4;
                      d6 = timersAnyAuthenticatedPacketTraversal E p d5;
                      d7 = timersAnyAuthenticatedPacketSent p d6;
                      (err, d8) = SendBuffers (e_send E p) p [packet] False d7
                  in Some (map_option HsSend err, d8)))
          })
     }"

text \<open>The flag says whether a reply was created.\<close>

definition SendHandshakeCookie ::
  "Crypto \<Rightarrow> Env \<Rightarrow> QueueHandshakeElement \<Rightarrow> Device \<Rightarrow> (bool \<times> Device) option" where
  "SendHandshakeCookie C E elem d =
     (if length (he_packet elem) < 8 then None
      else do {
        let sender = get_u32 4 (he_packet elem);
        (reply, cc) \<leftarrow> CreateReply C (d_cookieChecker d) (e_clock E At_CookieAge) (e_clock E At_CookieNew)
                        (e_secret E) (e_nonce E) (he_packet elem) sender (DstToBytes (he_endpoint elem));
        let d1 = d\<lparr>d_cookieChecker := cc\<rparr>;
        (case reply of
           None \<Rightarrow> Some (False, d1)
         | Some r \<Rightarrow>
             Some (True, d1\<lparr>net_out := net_out d1 @ [(he_endpoint elem, [write_cookie_reply r])]\<rparr>))
      })"

definition keepKeyFreshSending :: "Crypto \<Rightarrow> Env \<Rightarrow> nat \<Rightarrow> Device \<Rightarrow> Device option" where
  "keepKeyFreshSending C E p d =
     (case kps_Current (kps_of d p) of
        None \<Rightarrow> Some d
      | Some k \<Rightarrow>
          (let kp = kp_heap d k
           in if kp_sendNonce kp > RekeyAfterMessages \<or>
                 (kp_isInitiator kp \<and> time_Sub (e_clock E At_Fresh) (kp_created kp) > RekeyAfterTime)
              then map_option snd (SendHandshakeInitiation C E False p d)
              else Some d))"

section \<open>Staging and nonces\<close>

function stage_into :: "'a \<Rightarrow> 'a list \<Rightarrow> 'a list" where
  "stage_into c q = (if length q < QueueStagedSize then q @ [c] else stage_into c (tl q))"
  by pat_completeness auto
termination
  by (relation "measure (length \<circ> snd)") (auto simp: QueueStagedSize_def)

declare stage_into.simps [simp del]

definition StagePackets :: "nat \<Rightarrow> QueueOutboundElement list \<Rightarrow> Device \<Rightarrow> Device" where
  "StagePackets p elems = upd_peer p (\<lambda>x. x\<lparr>p_staged := stage_into elems (p_staged x)\<rparr>)"

text \<open>
  The loop over the elements of a container: the nonce counter, the elements that got a nonce,
  and those that are out of nonces.
\<close>

fun assign_nonces ::
  "nat \<Rightarrow> QueueOutboundElement list \<Rightarrow> u64 \<Rightarrow>
   u64 \<times> QueueOutboundElement list \<times> QueueOutboundElement list" where
  "assign_nonces k [] n = (n, [], [])"
| "assign_nonces k (e # es) n =
     (let nonce = (n + 1) - 1
      in if nonce \<ge> RejectAfterMessages
         then (let (n', kept, ooo) = assign_nonces k es RejectAfterMessages
               in (n', kept, e\<lparr>oe_nonce := nonce\<rparr> # ooo))
         else (let (n', kept, ooo) = assign_nonces k es (n + 1)
               in (n', e\<lparr>oe_nonce := nonce, oe_keypair := Some k\<rparr> # kept, ooo)))"

text \<open>
  The inner loop of \<open>SendStagedPackets\<close> over the staged containers; the flag says that it left
  with \<open>goto top\<close>.
\<close>

fun staged_pass :: "nat \<Rightarrow> nat \<Rightarrow> QueueOutboundElement list list \<Rightarrow> Device \<Rightarrow> bool \<times> Device" where
  "staged_pass p k [] d = (False, d)"
| "staged_pass p k (c # cs) d =
     (let (n, kept, ooo) = assign_nonces k c (kp_sendNonce (kp_heap d k));
          d1 = upd_kp k (\<lambda>x. x\<lparr>kp_sendNonce := n\<rparr>) (upd_peer p (\<lambda>x. x\<lparr>p_staged := cs\<rparr>) d);
          d2 = (if ooo \<noteq> [] then StagePackets p ooo d1 else d1)
      in if kept = [] then (True, d2)
      else
      let d3 = (if p_isRunning (peer_heap d2 p)
                then upd_peer p (\<lambda>x. x\<lparr>p_outbound := p_outbound x @ [\<lparr>oc_locked = True, oc_elems = kept\<rparr>]\<rparr>) d2
                else d2)
      in if ooo \<noteq> [] then (True, d3) else staged_pass p k cs d3)"

text \<open>
  The loop at label \<open>top\<close>, with a bound on the number of rounds; \<open>SendStagedPackets\<close> uses one
  that is never reached (\<open>staged_top_fuel\<close>).
\<close>

fun staged_top :: "nat \<Rightarrow> Crypto \<Rightarrow> Env \<Rightarrow> nat \<Rightarrow> Device \<Rightarrow> Device option" where
  "staged_top 0 C E p d = None"
| "staged_top (Suc n) C E p d =
     (if p_staged (peer_heap d p) = [] \<or> \<not> isUp d then Some d
      else case kps_Current (kps_of d p) of
        None \<Rightarrow> map_option snd (SendHandshakeInitiation C E False p d)
      | Some k \<Rightarrow>
          if kp_sendNonce (kp_heap d k) \<ge> RejectAfterMessages \<or>
             time_Sub (e_clock E At_KeyAge) (kp_created (kp_heap d k)) \<ge> RejectAfterTime
          then map_option snd (SendHandshakeInitiation C E False p d)
          else (case staged_pass p k (p_staged (peer_heap d p)) d of
                  (False, d') \<Rightarrow> Some d'
                | (True, d') \<Rightarrow> staged_top n C E p d'))"

definition SendStagedPackets :: "Crypto \<Rightarrow> Env \<Rightarrow> nat \<Rightarrow> Device \<Rightarrow> Device option" where
  "SendStagedPackets C E p d = staged_top (length (p_staged (peer_heap d p)) + 2) C E p d"

definition SendKeepalive :: "Crypto \<Rightarrow> Env \<Rightarrow> nat \<Rightarrow> Device \<Rightarrow> Device option" where
  "SendKeepalive C E p d =
     do {
       d1 \<leftarrow> (if p_staged (peer_heap d p) = [] \<and> p_isRunning (peer_heap d p)
               then do {
                 d' \<leftarrow> run_tricks E p d;
                 let elem = \<lparr>oe_packet = [], oe_nonce = 0, oe_keypair = None\<rparr>;
                 (if length (p_staged (peer_heap d' p)) < QueueStagedSize
                  then Some (upd_peer p (\<lambda>x. x\<lparr>p_staged := p_staged x @ [[elem]]\<rparr>) d')
                  else Some d')
               }
               else Some d);
       SendStagedPackets C E p d1
     }"


section \<open>Reading from the TUN device\<close>

definition IPv4offsetTotalLength :: nat where "IPv4offsetTotalLength = 2"
definition IPv4offsetSrc :: nat where "IPv4offsetSrc = 12"
definition IPv4offsetDst :: nat where "IPv4offsetDst = IPv4offsetSrc + 4"
definition IPv6offsetPayloadLength :: nat where "IPv6offsetPayloadLength = 4"
definition IPv6offsetSrc :: nat where "IPv6offsetSrc = 8"
definition IPv6offsetDst :: nat where "IPv6offsetDst = IPv6offsetSrc + 16"
definition ipv4_HeaderLen :: nat where "ipv4_HeaderLen = 20"
definition ipv6_HeaderLen :: nat where "ipv6_HeaderLen = 40"

lemmas ip_layout = IPv4offsetTotalLength_def IPv4offsetSrc_def IPv4offsetDst_def IPv6offsetPayloadLength_def
  IPv6offsetSrc_def IPv6offsetDst_def ipv4_HeaderLen_def ipv6_HeaderLen_def

definition ip_version :: "bytes \<Rightarrow> byte" where
  "ip_version packet = drop_bit 4 (packet ! 0)"

text \<open>The peer a packet read from the TUN device is for.\<close>

definition route_outbound :: "bytes \<Rightarrow> Device \<Rightarrow> nat option option" where
  "route_outbound packet d =
     (if length packet < 1 then Some None
      else if ip_version packet = 4 then
        (if length packet < ipv4_HeaderLen then Some None
         else Lookup (slice IPv4offsetDst (IPv4offsetDst + 4) packet) (d_allowedips d))
      else if ip_version packet = 6 then
        (if length packet < ipv6_HeaderLen then Some None
         else Lookup (slice IPv6offsetDst (IPv6offsetDst + 16) packet) (d_allowedips d))
      else Some None)"

text \<open>\<open>elemsByPeer\<close> as an association list, in the order in which peers first occur.\<close>

fun add_for_peer :: "nat \<Rightarrow> 'e \<Rightarrow> (nat \<times> 'e list) list \<Rightarrow> (nat \<times> 'e list) list" where
  "add_for_peer p e [] = [(p, [e])]"
| "add_for_peer p e ((q, es) # m) = (if p = q then (q, es @ [e]) # m else (q, es) # add_for_peer p e m)"

fun group_outbound ::
  "bytes list \<Rightarrow> Device \<Rightarrow> (nat \<times> QueueOutboundElement list) list \<Rightarrow>
   (nat \<times> QueueOutboundElement list) list option" where
  "group_outbound [] d m = Some m"
| "group_outbound (packet # ps) d m =
     (case route_outbound packet d of
        None \<Rightarrow> None
      | Some None \<Rightarrow> group_outbound ps d m
      | Some (Some p) \<Rightarrow>
          group_outbound ps d
            (add_for_peer p \<lparr>oe_packet = packet, oe_nonce = 0, oe_keypair = None\<rparr> m))"

text \<open>The readings are given for each peer.\<close>

fun stage_and_send ::
  "Crypto \<Rightarrow> (nat \<Rightarrow> Env) \<Rightarrow> (nat \<times> QueueOutboundElement list) list \<Rightarrow> Device \<Rightarrow> Device option" where
  "stage_and_send C Es [] d = Some d"
| "stage_and_send C Es ((p, elems) # m) d =
     (if p_isRunning (peer_heap d p)
      then do {
        d' \<leftarrow> SendStagedPackets C (Es p) p (StagePackets p elems d);
        stage_and_send C Es m d'
      }
      else stage_and_send C Es m d)"

text \<open>One iteration of the reading loop, for the packets of one read.\<close>

definition RoutineReadFromTUN :: "Crypto \<Rightarrow> (nat \<Rightarrow> Env) \<Rightarrow> bytes list \<Rightarrow> Device \<Rightarrow> Device option" where
  "RoutineReadFromTUN C Es packets d =
     do { m \<leftarrow> group_outbound packets d []; stage_and_send C Es m d }"

section \<open>Encryption and transmission\<close>

definition calculatePaddingSize :: "int \<Rightarrow> int \<Rightarrow> int" where
  "calculatePaddingSize packetSize mtu =
     (if mtu = 0 then ((packetSize + PaddingMultiple - 1) AND NOT (PaddingMultiple - 1)) - packetSize
      else
      let lastUnit = (if packetSize > mtu then packetSize smod mtu else packetSize);
          paddedSize = (lastUnit + PaddingMultiple - 1) AND NOT (PaddingMultiple - 1)
      in (if paddedSize > mtu then mtu else paddedSize) - lastUnit)"

definition transport_nonce :: "u64 \<Rightarrow> bytes" where
  "transport_nonce n = replicate 4 0 @ put_u64 n"

text \<open>A padding size outside of the array \<open>paddingZeros\<close> is a panic.\<close>

definition encrypt_elem :: "Crypto \<Rightarrow> Device \<Rightarrow> QueueOutboundElement \<Rightarrow> QueueOutboundElement option" where
  "encrypt_elem C d elem =
     (case oe_keypair elem of
        None \<Rightarrow> None
      | Some k \<Rightarrow>
          (let kp = kp_heap d k;
               header = put_u32 MessageTransportType @ put_u32 (kp_remoteIndex kp) @ put_u64 (oe_nonce elem);
               paddingSize = calculatePaddingSize (int (length (oe_packet elem))) (d_mtu d)
           in if paddingSize < 0 \<or> paddingSize > PaddingMultiple then None
              else
              let content = oe_packet elem @ replicate (nat paddingSize) 0
              in Some (elem\<lparr>oe_packet :=
                   header @ aeadSeal C (kp_send kp) (transport_nonce (oe_nonce elem)) content []\<rparr>)))"

text \<open>A worker processes one locked container of a peer and releases it.\<close>

definition RoutineEncryption :: "Crypto \<Rightarrow> nat \<Rightarrow> nat \<Rightarrow> Device \<Rightarrow> Device option" where
  "RoutineEncryption C p i d =
     (let q = p_outbound (peer_heap d p)
      in if i < length q \<and> oc_locked (q ! i) then do {
           elems \<leftarrow> those (map (encrypt_elem C d) (oc_elems (q ! i)));
           Some (upd_peer p (\<lambda>x. x\<lparr>p_outbound := q[i := \<lparr>oc_locked = False, oc_elems = elems\<rparr>]\<rparr>) d)
         }
         else Some d)"

text \<open>The sequential sender takes the head of the queue; it waits while it is locked.\<close>

definition RoutineSequentialSender :: "Crypto \<Rightarrow> Env \<Rightarrow> nat \<Rightarrow> Device \<Rightarrow> Device option" where
  "RoutineSequentialSender C E p d =
     (case p_outbound (peer_heap d p) of
        [] \<Rightarrow> Some d
      | c # cs \<Rightarrow>
          if oc_locked c then Some d
          else
          let d0 = upd_peer p (\<lambda>x. x\<lparr>p_outbound := cs\<rparr>) d
          in if \<not> p_isRunning (peer_heap d0 p) then Some d0
          else
          let dataSent = list_ex (\<lambda>e. length (oe_packet e) \<noteq> MessageKeepaliveSize) (oc_elems c);
              bufs = map oe_packet (oc_elems c);
              d1 = timersAnyAuthenticatedPacketTraversal E p d0;
              d2 = timersAnyAuthenticatedPacketSent p d1;
              (err, d3) = SendBuffers (e_send E p) p bufs False d2;
              d4 = (if dataSent then timersDataSent E p d3 else d3)
          in (case err of
                None \<Rightarrow> keepKeyFreshSending C E p d4
              | Some (ErrUDPGSODisabled True) \<Rightarrow> keepKeyFreshSending C E p d4
              | Some _ \<Rightarrow> Some d4))"

section \<open>Expiration of timers\<close>

definition expiredRetransmitHandshake :: "Crypto \<Rightarrow> Env \<Rightarrow> nat \<Rightarrow> Device \<Rightarrow> Device option" where
  "expiredRetransmitHandshake C E p d =
     (if tm_handshakeAttempts (tm_of d p) > MaxTimerHandshakes then
        (let d1 = (if timersActive p d
                   then upd_tm p (\<lambda>t. t\<lparr>tm_sendKeepalive := timer_Del (tm_sendKeepalive t)\<rparr>) d else d);
             d2 = FlushStagedPackets p d1
         in Some (if timersActive p d2 \<and> \<not> IsPending (tm_zeroKeyMaterial (tm_of d2 p))
                  then upd_tm p (\<lambda>t. t\<lparr>tm_zeroKeyMaterial :=
                         timer_Mod (e_clock E At_Timer) (RejectAfterTime * 3) (tm_zeroKeyMaterial t)\<rparr>) d2
                  else d2))
      else
        (let d1 = upd_tm p (\<lambda>t. t\<lparr>tm_handshakeAttempts := tm_handshakeAttempts t + 1\<rparr>) d;
             d2 = markEndpointSrcForClearing p d1
         in map_option snd (SendHandshakeInitiation C E True p d2)))"

definition expiredSendKeepalive :: "Crypto \<Rightarrow> Env \<Rightarrow> nat \<Rightarrow> Device \<Rightarrow> Device option" where
  "expiredSendKeepalive C E p d =
     do {
       d1 \<leftarrow> SendKeepalive C E p d;
       Some (if tm_needAnotherKeepalive (tm_of d1 p)
             then (let d2 = upd_tm p (\<lambda>t. t\<lparr>tm_needAnotherKeepalive := False\<rparr>) d1
                   in if timersActive p d2
                      then upd_tm p (\<lambda>t. t\<lparr>tm_sendKeepalive :=
                             timer_Mod (e_clock E At_Timer) KeepaliveTimeout (tm_sendKeepalive t)\<rparr>) d2
                      else d2)
             else d1)
     }"

definition expiredNewHandshake :: "Crypto \<Rightarrow> Env \<Rightarrow> nat \<Rightarrow> Device \<Rightarrow> Device option" where
  "expiredNewHandshake C E p d =
     map_option snd (SendHandshakeInitiation C E False p (markEndpointSrcForClearing p d))"

definition expiredZeroKeyMaterial :: "nat \<Rightarrow> Device \<Rightarrow> Device" where
  "expiredZeroKeyMaterial p d = ZeroAndFlushAll p d"

definition expiredPersistentKeepalive :: "Crypto \<Rightarrow> Env \<Rightarrow> nat \<Rightarrow> Device \<Rightarrow> Device option" where
  "expiredPersistentKeepalive C E p d =
     (if p_persistentKeepaliveInterval (peer_heap d p) > 0 then SendKeepalive C E p d else Some d)"

datatype timer_kind =
    RetransmitHandshake | SendKeepaliveTimer | NewHandshake | ZeroKeyMaterial | PersistentKeepalive

text \<open>The callback of a timer runs its expiration function only if the timer is still pending.\<close>

definition timer_fires :: "Crypto \<Rightarrow> Env \<Rightarrow> timer_kind \<Rightarrow> nat \<Rightarrow> Device \<Rightarrow> Device option" where
  "timer_fires C E kind p d =
     (case kind of
        RetransmitHandshake \<Rightarrow>
          (if IsPending (tm_retransmitHandshake (tm_of d p))
           then expiredRetransmitHandshake C E p (upd_tm p (\<lambda>t. t\<lparr>tm_retransmitHandshake := None\<rparr>) d) else Some d)
      | SendKeepaliveTimer \<Rightarrow>
          (if IsPending (tm_sendKeepalive (tm_of d p))
           then expiredSendKeepalive C E p (upd_tm p (\<lambda>t. t\<lparr>tm_sendKeepalive := None\<rparr>) d) else Some d)
      | NewHandshake \<Rightarrow>
          (if IsPending (tm_newHandshake (tm_of d p))
           then expiredNewHandshake C E p (upd_tm p (\<lambda>t. t\<lparr>tm_newHandshake := None\<rparr>) d) else Some d)
      | ZeroKeyMaterial \<Rightarrow>
          (if IsPending (tm_zeroKeyMaterial (tm_of d p))
           then Some (expiredZeroKeyMaterial p (upd_tm p (\<lambda>t. t\<lparr>tm_zeroKeyMaterial := None\<rparr>) d)) else Some d)
      | PersistentKeepalive \<Rightarrow>
          (if IsPending (tm_persistentKeepalive (tm_of d p))
           then expiredPersistentKeepalive C E p (upd_tm p (\<lambda>t. t\<lparr>tm_persistentKeepalive := None\<rparr>) d)
           else Some d))"

end
