(* ===== verification/Send_Lemmas.thy ===== *)
theory Send_Lemmas
  imports Send "HOL-Library.Multiset"
begin

text \<open>
  What the sending side guarantees: padding, nonces, staging, and the frame of a handshake
  initiation.
\<close>

section \<open>Padding\<close>

lemma and_not_15: "(x :: int) AND NOT 15 = x - x mod 16"
proof -
  have m: "x AND 15 = x mod 16"
    using take_bit_eq_mask [of 4 x] by (simp add: take_bit_eq_mod mask_eq_exp_minus_1)
  have "x - (x AND 15) = x AND NOT (x AND 15)"
    by (rule disjunctive_diff) (simp add: bit_and_iff)
  also have "\<dots> = x AND NOT 15"
    by (auto simp only: bit_eq_iff bit_and_iff bit_not_int_iff)
  finally show ?thesis using m by simp
qed

lemma smod_pos: "0 \<le> a \<Longrightarrow> 0 < b \<Longrightarrow> (a :: int) smod b = a mod b"
  by (cases "a = 0") (auto simp: signed_modulo_int_def)

lemma round_up: "(x + 15) - (x + 15) mod 16 = x + (- x) mod 16" for x :: int
proof (cases "x mod 16 = 0")
  case True
  then have "(x + 15) mod 16 = 15" "(- x) mod 16 = 0"
    by (simp_all add: mod_add_left_eq [of x 16 15, symmetric] zmod_zminus1_eq_if)
  then show ?thesis by simp
next
  case False
  define r where "r = x mod 16"
  have r: "0 < r" "r < 16" using False by (simp_all add: r_def order_le_neq_trans [of 0])
  have "(x + 15) mod 16 = (r - 1 + 16) mod 16"
    by (simp add: mod_add_left_eq [of x 16 15, symmetric] r_def add.commute)
  also have "\<dots> = (r - 1) mod 16" by (rule mod_add_self2)
  also have "\<dots> = r - 1" using r by (intro mod_pos_pos_trivial) auto
  finally show ?thesis using False by (simp add: zmod_zminus1_eq_if r_def)
qed

lemma up16: "(x + 16 - 1) AND NOT (16 - 1) = x + (- x) mod 16" for x :: int
  using round_up [of x] and_not_15 [of "x + 15"] by (simp add: algebra_simps)

lemma padding_cases:
  assumes "0 \<le> sz" "0 \<le> mtu"
  defines "u \<equiv> if mtu \<noteq> 0 \<and> sz > mtu then sz mod mtu else sz"
  shows "calculatePaddingSize sz mtu = (if mtu = 0 then (- u) mod 16 else min ((- u) mod 16) (mtu - u))"
  using assms unfolding calculatePaddingSize_def PaddingMultiple_def up16
  by (auto simp: Let_def smod_pos min_def)

lemma calculatePaddingSize_range:
  assumes "0 \<le> sz" "0 \<le> mtu"
  shows "0 \<le> calculatePaddingSize sz mtu" "calculatePaddingSize sz mtu < 16"
proof -
  define u where "u = (if mtu \<noteq> 0 \<and> sz > mtu then sz mod mtu else sz)"
  have "0 \<le> (- u) mod 16" "(- u) mod 16 < 16" by simp_all
  moreover have "mtu \<noteq> 0 \<Longrightarrow> u \<le> mtu"
    using assms by (auto simp: u_def intro!: order_less_imp_le [OF pos_mod_bound])
  ultimately show "0 \<le> calculatePaddingSize sz mtu" "calculatePaddingSize sz mtu < 16"
    unfolding padding_cases [OF assms] u_def [symmetric] by auto
qed

section \<open>Nonces\<close>

text \<open>The elements of a list numbered from \<open>n\<close> for keypair \<open>k\<close>.\<close>

fun numbered :: "nat \<Rightarrow> nat \<Rightarrow> QueueOutboundElement list \<Rightarrow> QueueOutboundElement list" where
  "numbered k n [] = []"
| "numbered k n (e # es) = e\<lparr>oe_nonce := of_nat n, oe_keypair := Some k\<rparr> # numbered k (Suc n) es"

lemma length_numbered [simp]: "length (numbered k n es) = length es"
  by (induction k n es rule: numbered.induct) auto

lemma numbered_append: "numbered k n (xs @ ys) = numbered k n xs @ numbered k (n + length xs) ys"
  by (induction k n xs rule: numbered.induct) auto

lemma numbered_nonces: "map oe_nonce (numbered k n es) = map of_nat [n..<n + length es]"
  by (induction k n es rule: numbered.induct) (auto simp: upt_conv_Cons simp del: upt_Suc)

definition reject_nat :: nat where "reject_nat = 2 ^ 64 - 2 ^ 13 - 1"

lemma unat_RejectAfterMessages: "unat RejectAfterMessages = reject_nat"
  by (simp add: RejectAfterMessages_def reject_nat_def)

lemma nonce_lt_iff: "(n < RejectAfterMessages) = (unat n < reject_nat)"
  by (simp add: word_less_nat_alt unat_RejectAfterMessages)

lemma nonce_suc: "unat n < reject_nat \<Longrightarrow> unat (n + 1 :: u64) = Suc (unat n)"
  by (simp add: unat_word_ariths reject_nat_def)

text \<open>The first elements get consecutive nonces; what would reach the limit is left over.\<close>

lemma assign_nonces_spec:
  fixes n :: u64 and es :: "QueueOutboundElement list"
  assumes "unat n \<le> reject_nat"
  defines "m \<equiv> min (length es) (reject_nat - unat n)"
  shows "\<exists>n' ooo. assign_nonces k es n = (n', numbered k (unat n) (take m es), ooo) \<and>
    unat n' = unat n + m \<and> map oe_packet ooo = map oe_packet (drop m es) \<and> (ooo = [] \<longleftrightarrow> m = length es)"
  using assms(1) unfolding m_def
proof (induction es arbitrary: n)
  case Nil
  then show ?case by simp
next
  case (Cons e es)
  show ?case
  proof (cases "unat n < reject_nat")
    case True
    have n1: "unat (n + 1) = Suc (unat n)" by (rule nonce_suc [OF True])
    then have le: "unat (n + 1) \<le> reject_nat" using True by simp
    have m: "min (length (e # es)) (reject_nat - unat n) = Suc (min (length es) (reject_nat - unat (n + 1)))"
      using True n1 by simp
    have lt: "\<not> RejectAfterMessages \<le> n" using True by (simp add: nonce_lt_iff [symmetric])
    show ?thesis using Cons.IH [OF le] lt n1 unfolding m
      by (auto simp: Let_def numbered.simps split: prod.split)
  next
    case False
    then have n: "unat n = reject_nat" "RejectAfterMessages \<le> n"
      using Cons.prems by (auto simp: word_le_nat_alt unat_RejectAfterMessages)
    have le: "unat RejectAfterMessages \<le> reject_nat" by (simp add: unat_RejectAfterMessages)
    show ?thesis using Cons.IH [OF le] n
      by (auto simp: Let_def unat_RejectAfterMessages split: prod.split)
  qed
qed


section \<open>The frame of a handshake initiation\<close>

lemma bind_SomeE:
  assumes "Option.bind m f = Some y"
  obtains x where "m = Some x" "f x = Some y"
  using assms by (auto simp: bind_eq_Some_conv)

text \<open>
  Sending a handshake message touches handshakes, timers, endpoints, counters, cookies, the index
  table and the network. It does not touch the sessions, queues and routes of any peer.
\<close>

definition same_data :: "Device \<Rightarrow> Device \<Rightarrow> bool" where
  "same_data d d' =
     (kp_heap d' = kp_heap d \<and> next_kp d' = next_kp d \<and> d_keyMap d' = d_keyMap d \<and>
      d_allowedips d' = d_allowedips d \<and> d_state d' = d_state d \<and> tun_out d' = tun_out d \<and>
      d_mtu d' = d_mtu d \<and> d_privateKey d' = d_privateKey d \<and> d_publicKey d' = d_publicKey d \<and>
      next_peer d' = next_peer d \<and>
      (\<forall>q. kps_of d' q = kps_of d q \<and> p_staged (peer_heap d' q) = p_staged (peer_heap d q) \<and>
         p_outbound (peer_heap d' q) = p_outbound (peer_heap d q) \<and>
         p_inbound (peer_heap d' q) = p_inbound (peer_heap d q) \<and>
         p_isRunning (peer_heap d' q) = p_isRunning (peer_heap d q)))"

lemma same_data_refl [simp]: "same_data d d"
  by (simp add: same_data_def)

lemma same_data_trans [trans]: "same_data a b \<Longrightarrow> same_data b c \<Longrightarrow> same_data a c"
  by (simp add: same_data_def)

lemma same_dataD:
  assumes "same_data d d'"
  shows "kp_heap d' = kp_heap d" "next_kp d' = next_kp d" "d_keyMap d' = d_keyMap d"
    "d_allowedips d' = d_allowedips d" "d_state d' = d_state d" "tun_out d' = tun_out d"
    "d_mtu d' = d_mtu d" "kps_of d' q = kps_of d q" "p_staged (peer_heap d' q) = p_staged (peer_heap d q)"
    "p_outbound (peer_heap d' q) = p_outbound (peer_heap d q)"
    "p_inbound (peer_heap d' q) = p_inbound (peer_heap d q)"
    "p_isRunning (peer_heap d' q) = p_isRunning (peer_heap d q)"
    "d_privateKey d' = d_privateKey d" "d_publicKey d' = d_publicKey d" "isUp d' = isUp d"
    "next_peer d' = next_peer d"
  using assms by (simp_all add: same_data_def isUp_def)

lemma same_data_timers:
  assumes "timers_only f"
  shows "same_data d (f d)"
proof -
  obtain h where h: "f d = d\<lparr>peer_heap := h\<rparr>" "\<forall>q. peer_core (h q) = peer_core (peer_heap d q)"
    using assms unfolding timers_only_def by blast
  show ?thesis unfolding same_data_def h(1) by (simp add: peer_core_fields [OF spec [OF h(2)]])
qed

lemma same_data_hooks [simp, intro]:
  "same_data d (timersDataSent E p d)" "same_data d (timersDataReceived E p d)"
  "same_data d (timersAnyAuthenticatedPacketSent p d)" "same_data d (timersAnyAuthenticatedPacketReceived p d)"
  "same_data d (timersHandshakeInitiated E p d)" "same_data d (timersSessionDerived E p d)"
  "same_data d (timersAnyAuthenticatedPacketTraversal E p d)" "same_data d (timersHandshakeComplete E p d)"
  "same_data d (upd_tm p f d)"
  by (intro same_data_timers hooks_timers_only complete_timers_only timers_only_upd_tm)+

lemma same_data_upd_hs [simp, intro]: "same_data d (upd_hs p f d)"
  by (simp add: same_data_def upd_hs_def upd_peer_def)

lemma same_data_indexTable: "same_data d (upd_hs p f (d\<lparr>d_indexTable := t\<rparr>))"
  by (simp add: same_data_def upd_hs_def upd_peer_def)

lemma same_data_SendBuffers: "SendBuffers res p bufs trick d = (e, d') \<Longrightarrow> same_data d d'"
proof -
  assume s: "SendBuffers res p bufs trick d = (e, d')"
  obtain ep c t out where "d' = d\<lparr>peer_heap := (peer_heap d)(p := (peer_heap d p)\<lparr>p_txBytes := t,
      p_endpoint := ep, p_clearSrcOnTx := c\<rparr>), net_out := net_out d @ out\<rparr>"
    using SendBuffers_state [of res p bufs trick d] s by auto
  then show ?thesis by (simp add: same_data_def)
qed

lemma random_loop_step:
  assumes "random_loop t p hdr i (Suc n) d = Some d'"
  shows "d' = d \<or> (\<exists>res bufs. let d1 = snd (SendBuffers res p bufs True d)
    in d' = d1 \<or> random_loop t p hdr (Suc i) n d1 = Some d')"
  using assms unfolding Let_def
  by (auto simp: Let_def case_prod_unfold bind_eq_Some_conv simp del: not_None_eq
      split: if_splits option.splits)

lemma same_data_random_loop: "random_loop t p hdr i n d = Some d' \<Longrightarrow> same_data d d'"
proof (induction n arbitrary: i d)
  case (Suc n)
  from random_loop_step [OF Suc.prems] show ?case
    using Suc.IH same_data_SendBuffers same_data_trans same_data_refl unfolding Let_def
    by (metis prod.collapse)
qed simp

lemma same_data_tricks: "run_tricks E p d = Some d' \<Longrightarrow> same_data d d'"
  by (auto simp: run_tricks_def sendRandomPackets_def Let_def bind_eq_Some_conv split: if_splits
      dest: same_data_random_loop)

text \<open>A handshake message changes one handshake and the index table.\<close>

definition hs_index_only :: "nat \<Rightarrow> Device \<Rightarrow> Device \<Rightarrow> bool" where
  "hs_index_only p d d' = (\<exists>h t. d' = upd_hs p (\<lambda>_. h) (d\<lparr>d_indexTable := t\<rparr>))"

lemma hs_index_only_intros [simp]:
  "hs_index_only p d (upd_hs p (\<lambda>_. h) (d\<lparr>d_indexTable := t\<rparr>))"
  "hs_index_only p d (upd_hs p (\<lambda>_. h) d)"
proof -
  show "hs_index_only p d (upd_hs p (\<lambda>_. h) (d\<lparr>d_indexTable := t\<rparr>))" for t
    unfolding hs_index_only_def by blast
  from this [of "d_indexTable d"] show "hs_index_only p d (upd_hs p (\<lambda>_. h) d)" by simp
qed

lemma CreateMessageInitiation_shape:
  "CreateMessageInitiation C p eph idx ts d = Some (r, d') \<Longrightarrow> hs_index_only p d d'"
  by (auto simp: CreateMessageInitiation_def Let_def split: prod.splits if_splits option.splits)

lemma same_data_hs_index: "hs_index_only p d d' \<Longrightarrow> same_data d d'"
  unfolding hs_index_only_def using same_data_indexTable by blast

lemma same_data_upd_peer:
  assumes "\<And>x. p_keypairs (f x) = p_keypairs x" "\<And>x. p_staged (f x) = p_staged x"
    "\<And>x. p_outbound (f x) = p_outbound x" "\<And>x. p_inbound (f x) = p_inbound x"
    "\<And>x. p_isRunning (f x) = p_isRunning x"
  shows "same_data d (upd_peer p f d)"
  using assms by (auto simp: same_data_def)

lemma same_data_add_macs: "add_macs C E p b d = Some (b', d') \<Longrightarrow> same_data d d'"
  by (auto simp: add_macs_def bind_eq_Some_conv intro!: same_data_upd_peer)

text \<open>The outcomes of an attempt to initiate a handshake.\<close>

lemma SendHandshakeInitiation_cases:
  assumes "SendHandshakeInitiation C E r p d = Some (e, d')"
  defines "d0 \<equiv> if \<not> r then upd_tm p (\<lambda>t. t\<lparr>tm_handshakeAttempts := 0\<rparr>) d else d"
  obtains (limited) "d' = d0" "e = None"
      "time_Sub (e_clock E At_SinceSent1) (hs_lastSentHandshake (hs_of d p)) < RekeyTimeout \<or>
       time_Sub (e_clock E At_SinceSent2) (hs_lastSentHandshake (hs_of d p)) < RekeyTimeout"
  | (failed) d1 err where "run_tricks E p d0 = Some d1"
      "CreateMessageInitiation C p (e_ephemeral E p) (e_index E p) (stamp (UnixNano (e_clock E At_Stamp)))
         (upd_hs p (\<lambda>h. h\<lparr>hs_lastSentHandshake := e_clock E At_Sent\<rparr>) d1) = Some (Inl err, d')"
      "e = Some (HsCreate err)"
  | (sent) d1 msg d3 pkt d4 err d7 where "run_tricks E p d0 = Some d1"
      "CreateMessageInitiation C p (e_ephemeral E p) (e_index E p) (stamp (UnixNano (e_clock E At_Stamp)))
         (upd_hs p (\<lambda>h. h\<lparr>hs_lastSentHandshake := e_clock E At_Sent\<rparr>) d1) = Some (Inr msg, d3)"
      "add_macs C E p (write_initiation msg) d3 = Some (pkt, d4)"
      "SendBuffers (e_send E p) p [pkt] False
         (timersAnyAuthenticatedPacketSent p (timersAnyAuthenticatedPacketTraversal E p d4)) = (err, d7)"
      "d' = timersHandshakeInitiated E p d7" "e = map_option HsSend err"
proof -
  have hs: "hs_lastSentHandshake (hs_of d0 p) = hs_lastSentHandshake (hs_of d p)"
    by (simp add: d0_def upd_tm_def)
  show ?thesis
    using assms(1) limited failed sent unfolding SendHandshakeInitiation_def d0_def [symmetric] Let_def hs
    by (auto elim!: bind_SomeE split: if_split_asm sum.split_asm prod.split_asm)
qed

lemma same_data_initiation:
  assumes "SendHandshakeInitiation C E r p d = Some (e, d')"
  shows "same_data d d'"
proof -
  define d0 where "d0 = (if \<not> r then upd_tm p (\<lambda>t. t\<lparr>tm_handshakeAttempts := 0\<rparr>) d else d)"
  have s0: "same_data d d0" by (simp add: d0_def)
  note cm = same_data_trans [OF same_data_upd_hs same_data_hs_index [OF CreateMessageInitiation_shape]]
  from assms show ?thesis
  proof (cases rule: SendHandshakeInitiation_cases)
    case limited
    then show ?thesis using s0 by (simp add: d0_def)
  next
    case (failed d1 err)
    then show ?thesis
      using same_data_trans [OF s0 same_data_trans [OF same_data_tricks cm]] by (simp add: d0_def)
  next
    case (sent d1 msg d3 pkt d4 err d7)
    have "same_data d d3"
      using same_data_trans [OF s0 same_data_trans [OF same_data_tricks cm]] sent(1,2) by (simp add: d0_def)
    also have "same_data d3 d4" using sent(3) by (rule same_data_add_macs)
    also have "same_data d4 (timersAnyAuthenticatedPacketSent p (timersAnyAuthenticatedPacketTraversal E p d4))"
      using same_data_trans same_data_hooks by blast
    also have "same_data \<dots> d7" using sent(4) by (rule same_data_SendBuffers)
    also have "same_data d7 d'" unfolding sent(5) by simp
    finally show ?thesis .
  qed
qed


section \<open>Sending staged packets\<close>

lemma stage_into_room: "length q < QueueStagedSize \<Longrightarrow> stage_into c q = q @ [c]"
  by (subst stage_into.simps) simp

lemma stage_into_drop: "stage_into c q = drop (Suc (length q) - QueueStagedSize) q @ [c]"
proof (induction c q rule: stage_into.induct)
  case (1 c q)
  show ?case
  proof (cases "length q < QueueStagedSize")
    case True
    then show ?thesis by (simp add: stage_into_room)
  next
    case False
    moreover have "0 < QueueStagedSize" by (simp add: QueueStagedSize_def)
    ultimately have "Suc (length q) - QueueStagedSize = Suc (Suc (length (tl q)) - QueueStagedSize)" by simp
    then show ?thesis using 1 False by (subst stage_into.simps) (simp add: drop_Suc)
  qed
qed

text \<open>What a pass over the staged packets leaves alone.\<close>

definition pass_frame :: "Device \<Rightarrow> Device \<Rightarrow> bool" where
  "pass_frame d d' =
     (d_state d' = d_state d \<and> (\<forall>q. kps_of d' q = kps_of d q \<and> hs_of d' q = hs_of d q \<and>
        p_isRunning (peer_heap d' q) = p_isRunning (peer_heap d q)) \<and>
      (\<forall>k. kp_heap d' k = (kp_heap d k)\<lparr>kp_sendNonce := kp_sendNonce (kp_heap d' k)\<rparr>))"

lemma pass_frame_refl [simp]: "pass_frame d d"
  by (simp add: pass_frame_def)

lemma pass_frame_trans: "pass_frame a b \<Longrightarrow> pass_frame b c \<Longrightarrow> pass_frame a c"
  unfolding pass_frame_def by (metis (no_types, lifting) Keypair.update_convs(1) Keypair.surjective)

text \<open>
  \<open>sends k n m es d d'\<close>: between \<open>d\<close> and \<open>d'\<close> peer \<open>p\<close> has queued the first \<open>m\<close> elements of \<open>es\<close>
  for keypair \<open>k\<close>, numbered from \<open>n\<close>, in locked containers.
\<close>

definition sends :: "nat \<Rightarrow> nat \<Rightarrow> nat \<Rightarrow> nat \<Rightarrow> QueueOutboundElement list \<Rightarrow> Device \<Rightarrow> Device \<Rightarrow> bool" where
  "sends p k n m es d d' =
     ((\<exists>new. p_outbound (peer_heap d' p) = p_outbound (peer_heap d p) @ new \<and> list_all oc_locked new \<and>
        concat (map oc_elems new) = numbered k n (take m es)) \<and>
      unat (kp_sendNonce (kp_heap d' k)) = n + m \<and> m \<le> length es \<and> n + m \<le> reject_nat)"

lemma sends_append:
  assumes "sends p k n (length xs) xs d d1" "sends p k (n + length xs) m ys d1 d2"
  shows "sends p k n (length xs + m) (xs @ ys) d d2"
proof -
  obtain new1 where 1: "p_outbound (peer_heap d1 p) = p_outbound (peer_heap d p) @ new1" "list_all oc_locked new1"
      "concat (map oc_elems new1) = numbered k n xs"
    using assms(1) by (auto simp: sends_def)
  obtain new2 where 2: "p_outbound (peer_heap d2 p) = p_outbound (peer_heap d1 p) @ new2" "list_all oc_locked new2"
      "concat (map oc_elems new2) = numbered k (n + length xs) (take m ys)"
    using assms(2) by (auto simp: sends_def)
  have "p_outbound (peer_heap d2 p) = p_outbound (peer_heap d p) @ (new1 @ new2)" "list_all oc_locked (new1 @ new2)"
      "concat (map oc_elems (new1 @ new2)) = numbered k n (take (length xs + m) (xs @ ys))"
    using 1 2 by (simp_all add: numbered_append)
  then show ?thesis using assms(2) by (auto simp: sends_def)
qed


definition after_container ::
  "nat \<Rightarrow> nat \<Rightarrow> u64 \<Rightarrow> QueueOutboundElement list list \<Rightarrow> QueueOutboundElement list \<Rightarrow> Device \<Rightarrow> Device" where
  "after_container p k n staged kept d =
     upd_kp k (\<lambda>x. x\<lparr>kp_sendNonce := n\<rparr>)
       (upd_peer p (\<lambda>x. x\<lparr>p_staged := staged, p_outbound := p_outbound x @
          (if kept = [] then [] else [\<lparr>oc_locked = True, oc_elems = kept\<rparr>])\<rparr>) d)"

lemma upd_kp_upd_peer: "upd_kp k f (upd_peer p g d) = upd_peer p g (upd_kp k f d)"
  by (intro Device.equality) (simp_all add: upd_kp_def upd_peer_def)

lemma upd_peer_upd_peer: "upd_peer p f (upd_peer p g d) = upd_peer p (\<lambda>x. f (g x)) d"
  by (simp add: upd_peer_def)

lemma staged_pass_Cons:
  assumes "assign_nonces k c (kp_sendNonce (kp_heap d k)) = (n, kept, ooo)"
    and "length cs < QueueStagedSize" "p_isRunning (peer_heap d p)"
  shows "staged_pass p k (c # cs) d =
    (let d' = after_container p k n (if ooo = [] then cs else cs @ [ooo]) kept d
     in if kept = [] \<or> ooo \<noteq> [] then (True, d') else staged_pass p k cs d')"
  using assms
  by (simp add: after_container_def StagePackets_def stage_into_room upd_kp_upd_peer upd_peer_upd_peer
      del: upd_peer_heap) (simp add: upd_kp_def upd_peer_upd_peer)

lemma after_container_frame:
  "pass_frame d (after_container p k n staged kept d)"
  "p_staged (peer_heap (after_container p k n staged kept d) p) = staged"
  "kp_sendNonce (kp_heap (after_container p k n staged kept d) k) = n"
  "p_isRunning (peer_heap (after_container p k n staged kept d) p) = p_isRunning (peer_heap d p)"
  by (simp_all add: after_container_def pass_frame_def upd_kp_def)

lemma after_container_sends:
  assumes "kept = numbered k m (take j es)" "unat n = m + j" "j \<le> length es" "m + j \<le> reject_nat"
  shows "sends p k m j es d (after_container p k n staged kept d)"
proof -
  have "concat (map oc_elems (if kept = [] then [] else [\<lparr>oc_locked = True, oc_elems = kept\<rparr>])) = kept"
    by simp
  then show ?thesis using assms
    by (auto simp: sends_def after_container_def upd_kp_def)
qed

lemma staged_pass_spec:
  assumes "staged_pass p k cs d = (again, d')" "p_staged (peer_heap d p) = cs" "length cs \<le> QueueStagedSize"
    "unat (kp_sendNonce (kp_heap d k)) = n" "n \<le> reject_nat" "p_isRunning (peer_heap d p)"
  shows "\<exists>m. sends p k n m (concat cs) d d' \<and> pass_frame d d' \<and>
    length (p_staged (peer_heap d' p)) \<le> QueueStagedSize \<and>
    mset (map oe_packet (concat (p_staged (peer_heap d' p)))) = mset (map oe_packet (drop m (concat cs))) \<and>
    (if again then n + m = reject_nat \<or>
        (concat (p_staged (peer_heap d' p)) = drop m (concat cs) \<and> length (p_staged (peer_heap d' p)) < length cs)
     else m = length (concat cs) \<and> p_staged (peer_heap d' p) = [])"
  using assms
proof (induction cs arbitrary: d n)
  case Nil
  then show ?case by (auto simp: sends_def)
next
  case (Cons c cs)
  define j where "j = min (length c) (reject_nat - n)"
  obtain n' ooo where a: "assign_nonces k c (kp_sendNonce (kp_heap d k)) = (n', numbered k n (take j c), ooo)"
    "unat n' = n + j" "map oe_packet ooo = map oe_packet (drop j c)" "ooo = [] \<longleftrightarrow> j = length c"
    using assign_nonces_spec [where n = "kp_sendNonce (kp_heap d k)" and es = c and k = k] Cons.prems(4,5) unfolding j_def by metis
  define kept where "kept = numbered k n (take j c)"
  define staged where "staged = (if ooo = [] then cs else cs @ [ooo])"
  define d1 where "d1 = after_container p k n' staged kept d"
  have len: "length cs < QueueStagedSize" using Cons.prems(3) by simp
  have jn: "j \<le> length c" "n + j \<le> reject_nat" using Cons.prems(5) by (auto simp: j_def)
  have pass: "staged_pass p k (c # cs) d =
      (if kept = [] \<or> ooo \<noteq> [] then (True, d1) else staged_pass p k cs d1)"
    using staged_pass_Cons [OF a(1) len Cons.prems(6)] by (simp add: Let_def d1_def staged_def kept_def)
  note fr = after_container_frame [where d = d and p = p and k = k and n = n' and staged = staged and kept = kept, folded d1_def]
  have sc: "sends p k n j c d d1"
    unfolding d1_def by (rule after_container_sends) (use a(2) jn in \<open>simp_all add: kept_def\<close>)
  show ?case
  proof (cases "ooo = []")
    case False
    then have r: "j = reject_nat - n" "j < length c" using a(4) jn by (auto simp: j_def)
    have s: "sends p k n j (concat (c # cs)) d d1" using sc jn by (simp add: sends_def)
    have "mset (map oe_packet (concat staged)) = mset (map oe_packet (drop j (concat (c # cs))))"
      using False a(3) jn by (simp add: staged_def)
    then show ?thesis using Cons.prems(1) pass False s fr r len Cons.prems(5)
      by (intro exI [of _ j]) (auto simp: staged_def)
  next
    case True
    then have j: "j = length c" using a(4) by simp
    show ?thesis
    proof (cases "kept = []")
      case True
      then have c: "c = []" using j by (cases c) (auto simp: kept_def)
      then show ?thesis using Cons.prems(1) pass True \<open>ooo = []\<close> sc fr len j
        by (intro exI [of _ 0]) (auto simp: staged_def sends_def)
    next
      case False
      have p1: "staged_pass p k cs d1 = (again, d')" using Cons.prems(1) pass False True by simp
      obtain m where m: "sends p k (n + j) m (concat cs) d1 d'" "pass_frame d1 d'"
        "length (p_staged (peer_heap d' p)) \<le> QueueStagedSize"
        "mset (map oe_packet (concat (p_staged (peer_heap d' p)))) = mset (map oe_packet (drop m (concat cs)))"
        "if again then n + j + m = reject_nat \<or>
           (concat (p_staged (peer_heap d' p)) = drop m (concat cs) \<and> length (p_staged (peer_heap d' p)) < length cs)
         else m = length (concat cs) \<and> p_staged (peer_heap d' p) = []"
        using Cons.IH [OF p1, of "n + j"] fr(2,3,4) True len a(2) jn Cons.prems(6) by (auto simp: staged_def)
      have "sends p k n (length c + m) (concat (c # cs)) d d'"
        using sends_append [of p k n c d d1 m "concat cs" d'] sc m(1) j by simp
      moreover have "pass_frame d d'" using fr(1) m(2) pass_frame_trans by blast
      moreover have "drop (length c + m) (concat (c # cs)) = drop m (concat cs)" by simp
      ultimately show ?thesis using m(3-5) j by (intro exI [of _ "length c + m"]) auto
    qed
  qed
qed


lemma sends_nothing:
  assumes "sends p k n m es d d1" "sends p k (n + m) 0 es' d1 d2"
  shows "sends p k n m es d d2"
  using assms by (auto simp: sends_def)

lemma sends_same_data:
  "same_data d d' \<Longrightarrow> unat (kp_sendNonce (kp_heap d k)) = n \<Longrightarrow> n \<le> reject_nat \<Longrightarrow> sends p k n 0 es d d'"
  by (auto simp: sends_def same_dataD)

lemma pass_frameD:
  assumes "pass_frame d d'"
  shows "isUp d' = isUp d" "kps_of d' q = kps_of d q" "p_isRunning (peer_heap d' q) = p_isRunning (peer_heap d q)"
    "kp_created (kp_heap d' k) = kp_created (kp_heap d k)"
proof -
  have "kp_heap d' k = (kp_heap d k)\<lparr>kp_sendNonce := kp_sendNonce (kp_heap d' k)\<rparr>"
    using assms unfolding pass_frame_def by blast
  then show "kp_created (kp_heap d' k) = kp_created (kp_heap d k)"
    by (metis Keypair.ext_inject Keypair.surjective Keypair.update_convs(1))
qed (use assms in \<open>simp_all add: pass_frame_def isUp_def\<close>)

lemma staged_top_spec:
  assumes "staged_top f C E p d = Some d'" "isUp d" "p_isRunning (peer_heap d p)"
    "length (p_staged (peer_heap d p)) \<le> QueueStagedSize" "kps_current (kps_of d p) = Some k"
    "unat (kp_sendNonce (kp_heap d k)) = n" "n \<le> reject_nat"
    "time_Sub (e_clock E At_KeyAge) (kp_created (kp_heap d k)) < RejectAfterTime"
  defines "es \<equiv> concat (p_staged (peer_heap d p))"
  shows "sends p k n (min (length es) (reject_nat - n)) es d d' \<and>
    mset (map oe_packet (concat (p_staged (peer_heap d' p)))) =
      mset (map oe_packet (drop (min (length es) (reject_nat - n)) es))"
  using assms(1-8) unfolding es_def
proof (induction f arbitrary: d n)
  case 0
  then show ?case by simp
next
  case (Suc f)
  let ?es = "concat (p_staged (peer_heap d p))"
  consider (empty) "p_staged (peer_heap d p) = []" | (full) "p_staged (peer_heap d p) \<noteq> []" "n = reject_nat"
    | (pass) "p_staged (peer_heap d p) \<noteq> []" "n < reject_nat" using Suc.prems(7) by linarith
  then show ?case
  proof cases
    case empty
    then show ?thesis using Suc.prems by (auto simp: sends_def)
  next
    case full
    then have "RejectAfterMessages \<le> kp_sendNonce (kp_heap d k)"
      using Suc.prems(6) by (simp add: word_le_nat_alt unat_RejectAfterMessages)
    then obtain e where "SendHandshakeInitiation C E False p d = Some (e, d')"
      using full Suc.prems(1,2,5) by (auto simp: kps_Current_def)
    from same_data_initiation [OF this] show ?thesis
      using full Suc.prems(6) by (simp add: sends_same_data same_dataD)
  next
    case pass
    then have lt: "kp_sendNonce (kp_heap d k) < RejectAfterMessages"
      using Suc.prems(6) by (simp add: nonce_lt_iff)
    obtain again d1 where p1: "staged_pass p k (p_staged (peer_heap d p)) d = (again, d1)" by fastforce
    then have d': "if again then staged_top f C E p d1 = Some d' else d1 = d'"
      using lt Suc.prems(1,2,5,8) pass by (auto simp: kps_Current_def split: if_splits)
    obtain m where m: "sends p k n m ?es d d1" "pass_frame d d1" "length (p_staged (peer_heap d1 p)) \<le> QueueStagedSize"
      "mset (map oe_packet (concat (p_staged (peer_heap d1 p)))) = mset (map oe_packet (drop m ?es))"
      "if again then n + m = reject_nat \<or> concat (p_staged (peer_heap d1 p)) = drop m ?es
       else m = length ?es \<and> p_staged (peer_heap d1 p) = []"
      using staged_pass_spec [OF p1 refl Suc.prems(4,6,7,3)] by (auto split: if_splits)
    have mm: "unat (kp_sendNonce (kp_heap d1 k)) = n + m" "n + m \<le> reject_nat" "m \<le> length ?es"
      using m(1) by (auto simp: sends_def)
    show ?thesis
    proof (cases again)
      case False
      then show ?thesis using d' m mm by (auto simp: min_def)
    next
      case True
      note IH = Suc.IH [of d1 "n + m"]
      have ih: "sends p k (n + m) (min (length (concat (p_staged (peer_heap d1 p)))) (reject_nat - (n + m)))
          (concat (p_staged (peer_heap d1 p))) d1 d' \<and>
        mset (map oe_packet (concat (p_staged (peer_heap d' p)))) =
          mset (map oe_packet (drop (min (length (concat (p_staged (peer_heap d1 p)))) (reject_nat - (n + m)))
            (concat (p_staged (peer_heap d1 p)))))"
        using IH d' True m(3) mm Suc.prems by (simp add: pass_frameD [OF m(2)])
      show ?thesis
      proof (cases "n + m = reject_nat")
        case True
        then have "min (length ?es) (reject_nat - n) = m" using mm by auto
        then show ?thesis using ih True m(1,4) sends_nothing [of p k n m ?es d d1 _ d'] by auto
      next
        case False
        then have c: "concat (p_staged (peer_heap d1 p)) = drop m ?es" using True m(5) by auto
        have k: "min (length ?es) (reject_nat - n) = m + min (length (drop m ?es)) (reject_nat - (n + m))"
          using mm by auto
        have s1: "sends p k n (length (take m ?es)) (take m ?es) d d1" using m(1) mm by (simp add: sends_def)
        have s2: "sends p k (n + length (take m ?es)) (min (length (drop m ?es)) (reject_nat - (n + m))) (drop m ?es) d1 d'"
          using ih c mm by simp
        have "sends p k n (length (take m ?es) + min (length (drop m ?es)) (reject_nat - (n + m)))
            (take m ?es @ drop m ?es) d d'" by (rule sends_append [OF s1 s2])
        then show ?thesis using ih c mm k by (simp add: add.commute)
      qed
    qed
  qed
qed


text \<open>Every further round has fewer containers, or no nonces left.\<close>

lemma assign_nonces_left: "assign_nonces k es n = (n', kept, ooo) \<Longrightarrow> ooo \<noteq> [] \<Longrightarrow> n' = RejectAfterMessages"
proof (induction es arbitrary: n n' kept ooo)
  case (Cons e es)
  have full: "fst (assign_nonces k es' RejectAfterMessages) = RejectAfterMessages" for es'
    by (induction es') (auto simp: Let_def split: prod.splits)
  show ?case using Cons.prems Cons.IH [of "n + 1"] full [of es]
    by (auto simp: Let_def split: if_splits prod.splits)
qed simp

lemma staged_pass_again:
  assumes "staged_pass p k cs d = (True, d')" "p_staged (peer_heap d p) = cs"
  shows "kps_of d' p = kps_of d p \<and>
    (kp_sendNonce (kp_heap d' k) = RejectAfterMessages \<or> length (p_staged (peer_heap d' p)) < length cs)"
  using assms
proof (induction cs arbitrary: d)
  case (Cons c cs)
  obtain n kept ooo where a: "assign_nonces k c (kp_sendNonce (kp_heap d k)) = (n, kept, ooo)"
    by (metis prod.exhaust)
  show ?case
  proof (cases "ooo = []")
    case False
    then have "n = RejectAfterMessages" using assign_nonces_left [OF a] by simp
    then show ?thesis using Cons.prems a False
      by (auto simp: Let_def StagePackets_def upd_kp_def split: if_splits)
  next
    case True
    show ?thesis
    proof (cases "kept = []")
      case True
      then show ?thesis using Cons.prems a \<open>ooo = []\<close> by (auto simp: Let_def upd_kp_def)
    next
      case False
      define d3 where "d3 = (let d1 = upd_kp k (\<lambda>x. x\<lparr>kp_sendNonce := n\<rparr>) (upd_peer p (\<lambda>x. x\<lparr>p_staged := cs\<rparr>) d)
        in if p_isRunning (peer_heap d1 p)
           then upd_peer p (\<lambda>x. x\<lparr>p_outbound := p_outbound x @ [\<lparr>oc_locked = True, oc_elems = kept\<rparr>]\<rparr>) d1 else d1)"
      have "staged_pass p k cs d3 = (True, d')" using Cons.prems a False True
        by (auto simp: d3_def Let_def split: if_split_asm)
      moreover have "p_staged (peer_heap d3 p) = cs" "kps_of d3 p = kps_of d p"
        by (auto simp: d3_def Let_def upd_kp_def)
      ultimately show ?thesis using Cons.IH [of d3] by auto
    qed
  qed
qed simp

definition rounds :: "nat \<Rightarrow> Device \<Rightarrow> nat" where
  "rounds p d =
     (case kps_current (kps_of d p) of
        None \<Rightarrow> 1
      | Some k \<Rightarrow> if kp_sendNonce (kp_heap d k) \<ge> RejectAfterMessages then 1
                 else length (p_staged (peer_heap d p)) + 2)"

lemma staged_top_fuel: "rounds p d \<le> f \<Longrightarrow> staged_top (Suc f) C E p d = staged_top f C E p d"
proof (induction f arbitrary: d)
  case 0
  then show ?case by (auto simp: rounds_def split: option.splits if_splits)
next
  case (Suc f)
  show ?case
  proof (cases "p_staged (peer_heap d p) = [] \<or> \<not> isUp d \<or> kps_current (kps_of d p) = None")
    case True
    then show ?thesis by (auto simp: kps_Current_def)
  next
    case False
    then obtain k where k: "kps_current (kps_of d p) = Some k" by auto
    obtain again d1 where p1: "staged_pass p k (p_staged (peer_heap d p)) d = (again, d1)" by fastforce
    show ?thesis
    proof (cases "again \<and> \<not> kp_sendNonce (kp_heap d k) \<ge> RejectAfterMessages")
      case True
      then have "rounds p d1 \<le> f"
        using staged_pass_again [of p k "p_staged (peer_heap d p)" d d1] p1 Suc.prems k False
        by (auto simp: rounds_def split: option.splits)
      from Suc.IH [OF this] show ?thesis using k False p1
        unfolding staged_top.simps(2) [of "Suc f" C E p d] staged_top.simps(2) [of f C E p d]
        by (simp add: kps_Current_def del: staged_top.simps split: bool.split)
    next
      case False
      then show ?thesis using k p1 by (cases again) (auto simp: kps_Current_def)
    qed
  qed
qed

section \<open>Properties\<close>




definition example_sender :: Device where
  "example_sender =
     zero_Device\<lparr>d_state := deviceStateUp,
       peer_heap := (peer_heap zero_Device)(0 := zero_Peer\<lparr>p_isRunning := True,
         p_keypairs := zero_Keypairs\<lparr>kps_current := Some 0\<rparr>,
         p_staged := [[\<lparr>oe_packet = [1], oe_nonce = 0, oe_keypair = None\<rparr>],
                      [\<lparr>oe_packet = [2], oe_nonce = 0, oe_keypair = None\<rparr>]]\<rparr>),
       kp_heap := (kp_heap zero_Device)(0 := zero_Keypair\<lparr>kp_sendNonce := 5\<rparr>)\<rparr>"


text \<open>C18: The padding of a packet fits into the 16 zero bytes kept for it, keeps a packet that fits
  the MTU within the MTU, and makes its size a multiple of 16 or exactly the MTU; with an unknown
  MTU the size is always a multiple of 16.\<close>

theorem padding_bounds:
  assumes "0 \<le> n" "0 \<le> mtu"
  shows "0 \<le> calculatePaddingSize n mtu \<and> calculatePaddingSize n mtu < PaddingMultiple \<and>
    (mtu = 0 \<longrightarrow> 16 dvd n + calculatePaddingSize n mtu) \<and>
    (n \<le> mtu \<longrightarrow> mtu \<noteq> 0 \<longrightarrow> n + calculatePaddingSize n mtu \<le> mtu \<and>
       (16 dvd n + calculatePaddingSize n mtu \<or> n + calculatePaddingSize n mtu = mtu))"
proof -
  have d: "16 dvd n + (- n) mod 16" by (simp add: dvd_eq_mod_eq_0 mod_add_right_eq)
  show ?thesis using calculatePaddingSize_range [OF assms] d
    unfolding padding_cases [OF assms] by (auto simp: PaddingMultiple_def min_def)
qed

theorem padding_bounds_witness:
  "calculatePaddingSize 1390 1400 < PaddingMultiple \<and> 1390 + calculatePaddingSize 1390 1400 \<le> 1400"
  using padding_bounds [of 1390 1400] by simp

end
