(* ===== verification/Receive.thy ===== *)
theory Receive
  imports Send
begin

text \<open>
  \<open>wireguard/device/receive.go\<close>: dispatch of datagrams, decryption, handshake messages and
  the sequential receiver, with \<open>IsUnderLoad\<close> of \<open>device.go\<close>. One call handles one batch, one
  container or one queued message; \<open>None\<close> means that it panics or has not returned.
\<close>

section \<open>Dispatch\<close>

definition keepKeyFreshReceiving :: "Crypto \<Rightarrow> Env \<Rightarrow> nat \<Rightarrow> Device \<Rightarrow> Device option" where
  "keepKeyFreshReceiving C E p d =
     (if tm_sentLastMinuteHandshake (tm_of d p) then Some d
      else case kps_Current (kps_of d p) of
        None \<Rightarrow> Some d
      | Some k \<Rightarrow>
          if kp_isInitiator (kp_heap d k) \<and>
             time_Sub (e_clock E At_LastMinute) (kp_created (kp_heap d k)) >
               RejectAfterTime - KeepaliveTimeout - RekeyTimeout
          then map_option snd (SendHandshakeInitiation C E False p
                 (upd_tm p (\<lambda>t. t\<lparr>tm_sentLastMinuteHandshake := True\<rparr>) d))
          else Some d)"

datatype recv_action =
    Ignore
  | ToDecryption nat QueueInboundElement
  | ToHandshake QueueHandshakeElement

text \<open>
  The three reserved bytes are cleared first. An entry of the index table with a keypair but
  without a peer would be a nil dereference.
\<close>

definition dispatch :: "Env \<Rightarrow> bytes \<Rightarrow> Endpoint \<Rightarrow> Device \<Rightarrow> recv_action option" where
  "dispatch E buf ep d =
     (if length buf < MinMessageSize then Some Ignore
      else
      let packet = clear_reserved buf;
          msgType = get_u32 0 packet;
          queued = ToHandshake \<lparr>he_msgType = msgType, he_packet = packet, he_endpoint = ep\<rparr>
      in if msgType = MessageTransportType then
           (if length packet < MessageTransportSize then Some Ignore
            else
            let value = idx_Lookup (get_u32 MessageTransportOffsetReceiver packet) (d_indexTable d)
            in case it_keypair value of
                 None \<Rightarrow> Some Ignore
               | Some k \<Rightarrow>
                   if kp_created (kp_heap d k) + RejectAfterTime < e_clock E At_Expiry then Some Ignore
                   else (case it_peer value of
                           None \<Rightarrow> None
                         | Some p \<Rightarrow> Some (ToDecryption p
                             \<lparr>ie_packet = Some packet, ie_counter = 0, ie_keypair = k, ie_endpoint = ep\<rparr>)))
         else if msgType = MessageInitiationType then
           Some (if length packet \<noteq> MessageInitiationSize then Ignore else queued)
         else if msgType = MessageResponseType then
           Some (if length packet \<noteq> MessageResponseSize then Ignore else queued)
         else if msgType = MessageCookieReplyType then
           Some (if length packet \<noteq> MessageCookieReplySize then Ignore else queued)
         else Some Ignore)"

definition enqueue_handshake :: "QueueHandshakeElement \<Rightarrow> Device \<Rightarrow> Device" where
  "enqueue_handshake e d =
     (if length (d_handshakeq d) < QueueHandshakeSize
      then d\<lparr>d_handshakeq := d_handshakeq d @ [e]\<rparr> else d)"

fun receive_batch ::
  "Env \<Rightarrow> (bytes \<times> Endpoint) list \<Rightarrow> (nat \<times> QueueInboundElement list) list \<Rightarrow> Device \<Rightarrow>
   ((nat \<times> QueueInboundElement list) list \<times> Device) option" where
  "receive_batch E [] m d = Some (m, d)"
| "receive_batch E ((buf, ep) # bs) m d =
     (case dispatch E buf ep d of
        None \<Rightarrow> None
      | Some Ignore \<Rightarrow> receive_batch E bs m d
      | Some (ToDecryption p e) \<Rightarrow> receive_batch E bs (add_for_peer p e m) d
      | Some (ToHandshake e) \<Rightarrow> receive_batch E bs m (enqueue_handshake e d))"

definition enqueue_inbound :: "nat \<times> QueueInboundElement list \<Rightarrow> Device \<Rightarrow> Device" where
  "enqueue_inbound pe d =
     (if p_isRunning (peer_heap d (fst pe))
      then upd_peer (fst pe) (\<lambda>x. x\<lparr>p_inbound := p_inbound x @ [\<lparr>ic_locked = True, ic_elems = snd pe\<rparr>]\<rparr>) d
      else d)"

definition RoutineReceiveIncoming :: "Env \<Rightarrow> (bytes \<times> Endpoint) list \<Rightarrow> Device \<Rightarrow> Device option" where
  "RoutineReceiveIncoming E batch d =
     do { (m, d1) \<leftarrow> receive_batch E batch [] d; Some (fold enqueue_inbound m d1) }"

text \<open>What the receive loop does on an error of the socket; the counter is \<open>deathSpiral\<close>.\<close>

datatype recv_error = RecvClosed | RecvFatal | RecvTemporary

definition on_recv_error :: "recv_error \<Rightarrow> nat \<Rightarrow> nat option" where
  "on_recv_error e deathSpiral =
     (case e of
        RecvTemporary \<Rightarrow> if deathSpiral < 10 then Some (Suc deathSpiral) else None
      | _ \<Rightarrow> None)"

section \<open>Decryption\<close>

definition decrypt_elem :: "Crypto \<Rightarrow> Device \<Rightarrow> QueueInboundElement \<Rightarrow> QueueInboundElement option" where
  "decrypt_elem C d e =
     (case ie_packet e of
        None \<Rightarrow> None
      | Some packet \<Rightarrow>
          if length packet < MessageTransportOffsetContent then None
          else
          let content = drop MessageTransportOffsetContent packet;
              counter = get_u64 MessageTransportOffsetCounter packet
          in Some (e\<lparr>ie_packet := aeadOpen C (kp_receive (kp_heap d (ie_keypair e))) (transport_nonce counter) content [],
                     ie_counter := counter\<rparr>))"

definition RoutineDecryption :: "Crypto \<Rightarrow> nat \<Rightarrow> nat \<Rightarrow> Device \<Rightarrow> Device option" where
  "RoutineDecryption C p i d =
     (let q = p_inbound (peer_heap d p)
      in if i < length q \<and> ic_locked (q ! i) then do {
           elems \<leftarrow> those (map (decrypt_elem C d) (ic_elems (q ! i)));
           Some (upd_peer p (\<lambda>x. x\<lparr>p_inbound := q[i := \<lparr>ic_locked = False, ic_elems = elems\<rparr>]\<rparr>) d)
         }
         else Some d)"

section \<open>Handshake messages\<close>

definition IsUnderLoad :: "Env \<Rightarrow> Device \<Rightarrow> bool \<times> Device" where
  "IsUnderLoad E d =
     (let now = e_clock E At_Load;
          underLoad = (length (d_handshakeq d) \<ge> QueueHandshakeSize div 8)
      in if underLoad then (True, d\<lparr>d_underLoadUntil := UnixNano (now + UnderLoadAfterTime)\<rparr>)
         else (d_underLoadUntil d > UnixNano now, d))"

definition add_rx :: "nat \<Rightarrow> u64 \<Rightarrow> Device \<Rightarrow> Device" where
  "add_rx p n = upd_peer p (\<lambda>x. x\<lparr>p_rxBytes := p_rxBytes x + n\<rparr>)"

definition handle_cookie_reply :: "Crypto \<Rightarrow> Env \<Rightarrow> QueueHandshakeElement \<Rightarrow> Device \<Rightarrow> Device" where
  "handle_cookie_reply C E elem d =
     (let reply = read_cookie_reply (he_packet elem);
          entry = idx_Lookup (mc_Receiver reply) (d_indexTable d)
      in case it_peer entry of
           None \<Rightarrow> d
         | Some p \<Rightarrow>
             if p_isRunning (peer_heap d p)
             then (let (ok, g) = ConsumeReply C (p_cookieGenerator (peer_heap d p)) (e_clock E At_Reply) reply
                   in upd_peer p (\<lambda>x. x\<lparr>p_cookieGenerator := g\<rparr>) d)
             else d)"

text \<open>The checks before a handshake message is processed; the flag says whether it passed.\<close>

definition admit_handshake :: "Crypto \<Rightarrow> Env \<Rightarrow> QueueHandshakeElement \<Rightarrow> Device \<Rightarrow> (bool \<times> Device) option" where
  "admit_handshake C E elem d =
     do {
       ok1 \<leftarrow> CheckMAC1 C (d_cookieChecker d) (he_packet elem);
       (if \<not> ok1 then Some (False, d)
        else
        let (loaded, d1) = IsUnderLoad E d
        in if loaded then do {
             ok2 \<leftarrow> CheckMAC2 C (d_cookieChecker d1) (e_clock E At_CheckMAC2) (he_packet elem)
                      (DstToBytes (he_endpoint elem));
             (if \<not> ok2 then map_option (\<lambda>(_, d2). (False, d2)) (SendHandshakeCookie C E elem d1)
              else do {
                (ok3, lim) \<leftarrow> Allow (e_clock E At_Limiter) (DstIP (he_endpoint elem)) (d_limiter d1);
                Some (ok3, d1\<lparr>d_limiter := lim\<rparr>)
              })
           }
           else Some (True, d1))
     }"

definition handle_initiation :: "Crypto \<Rightarrow> Env \<Rightarrow> QueueHandshakeElement \<Rightarrow> Device \<Rightarrow> Device option" where
  "handle_initiation C E elem d =
     (let msg = read_initiation (he_packet elem);
          (peer, d1) = ConsumeMessageInitiation C msg (e_clock E At_Flood) (e_clock E At_Consumed) d
      in case peer of
           None \<Rightarrow> Some d1
         | Some p \<Rightarrow>
             (let d2 = timersAnyAuthenticatedPacketTraversal E p d1;
                  d3 = timersAnyAuthenticatedPacketReceived p d2;
                  d4 = SetEndpointFromPacket p (he_endpoint elem) d3;
                  d5 = add_rx p (of_nat (length (he_packet elem))) d4
              in map_option snd (SendHandshakeResponse C E p d5)))"

definition handle_response :: "Crypto \<Rightarrow> Env \<Rightarrow> QueueHandshakeElement \<Rightarrow> Device \<Rightarrow> Device option" where
  "handle_response C E elem d =
     (let msg = read_response (he_packet elem);
          (peer, d1) = ConsumeMessageResponse C msg d
      in case peer of
           None \<Rightarrow> Some d1
         | Some p \<Rightarrow>
             (let d2 = SetEndpointFromPacket p (he_endpoint elem) d1;
                  d3 = add_rx p (of_nat (length (he_packet elem))) d2;
                  d4 = timersAnyAuthenticatedPacketTraversal E p d3;
                  d5 = timersAnyAuthenticatedPacketReceived p d4;
                  (err, d6) = BeginSymmetricSession C p (e_clock E At_Session) d5
              in case err of
                   Some _ \<Rightarrow> Some d6
                 | None \<Rightarrow>
                     (let d7 = timersSessionDerived E p d6;
                          d8 = timersHandshakeComplete E p d7
                      in SendKeepalive C E p d8)))"

definition handle_handshake_elem :: "Crypto \<Rightarrow> Env \<Rightarrow> QueueHandshakeElement \<Rightarrow> Device \<Rightarrow> Device option" where
  "handle_handshake_elem C E elem d =
     (if he_msgType elem = MessageCookieReplyType then Some (handle_cookie_reply C E elem d)
      else if he_msgType elem = MessageInitiationType \<or> he_msgType elem = MessageResponseType then do {
        (ok, d1) \<leftarrow> admit_handshake C E elem d;
        (if \<not> ok then Some d1
         else if he_msgType elem = MessageInitiationType then handle_initiation C E elem d1
         else handle_response C E elem d1)
      }
      else Some d)"

definition RoutineHandshake :: "Crypto \<Rightarrow> Env \<Rightarrow> Device \<Rightarrow> Device option" where
  "RoutineHandshake C E d =
     (case d_handshakeq d of
        [] \<Rightarrow> Some d
      | elem # es \<Rightarrow> handle_handshake_elem C E elem (d\<lparr>d_handshakeq := es\<rparr>))"

section \<open>The sequential receiver\<close>

text \<open>
  The checks on a decrypted packet: the inner \<open>None\<close> drops it, otherwise it is cut to the length
  its IP header gives. The 16-bit length of an IPv6 packet is added to the header size in 16 bits.
  The slice with the source address is taken from the array of the packet, whatever its length.
\<close>

definition inbound_payload :: "nat \<Rightarrow> bytes \<Rightarrow> Device \<Rightarrow> bytes option option" where
  "inbound_payload p packet d =
     (if ip_version packet = 4 then
        (if length packet < ipv4_HeaderLen then Some None
         else
         let len = be_nat (slice IPv4offsetTotalLength (IPv4offsetTotalLength + 2) packet)
         in if len > length packet \<or> len < ipv4_HeaderLen then Some None
            else
            (case Lookup (slice IPv4offsetSrc (IPv4offsetSrc + 4) packet) (d_allowedips d) of
               None \<Rightarrow> None
             | Some r \<Rightarrow> Some (if r \<noteq> Some p then None else Some (take len packet))))
      else if ip_version packet = 6 then
        (if length packet < ipv6_HeaderLen then Some None
         else
         let field = slice IPv6offsetPayloadLength (IPv6offsetPayloadLength + 2) packet;
             len = (of_nat (be_nat field) :: u16) + of_nat ipv6_HeaderLen
         in if unat len > length packet then Some None
            else
            (case Lookup (slice IPv6offsetSrc (IPv6offsetSrc + 16) packet) (d_allowedips d) of
               None \<Rightarrow> None
             | Some r \<Rightarrow> Some (if r \<noteq> Some p then None else Some (take (unat len) packet))))
      else Some None)"

record RecvState =
  rs_dev :: Device
  rs_tail :: "Endpoint option"
  rs_data :: bool
  rs_rx :: u64
  rs_bufs :: "bytes list"

definition confirm_keypair :: "Crypto \<Rightarrow> Env \<Rightarrow> nat \<Rightarrow> QueueInboundElement \<Rightarrow> Device \<Rightarrow> Device option" where
  "confirm_keypair C E p e d =
     (let (confirmed, d1) = ReceivedWithKeypair p (ie_keypair e) d
      in if confirmed then
           (let d2 = SetEndpointFromPacket p (ie_endpoint e) d1;
                d3 = timersHandshakeComplete E p d2
            in SendStagedPackets C E p d3)
         else Some d1)"

definition receive_elem :: "Crypto \<Rightarrow> Env \<Rightarrow> nat \<Rightarrow> QueueInboundElement \<Rightarrow> RecvState \<Rightarrow> RecvState option" where
  "receive_elem C E p e s =
     (case ie_packet e of
        None \<Rightarrow> Some s
      | Some packet \<Rightarrow>
      let d = rs_dev s;
          k = ie_keypair e;
          (fresh, flt) = ValidateCounter (kp_replayFilter (kp_heap d k)) (ie_counter e) RejectAfterMessages;
          d1 = upd_kp k (\<lambda>x. x\<lparr>kp_replayFilter := flt\<rparr>) d
      in if \<not> fresh then Some (s\<lparr>rs_dev := d1\<rparr>)
      else do {
        d2 \<leftarrow> confirm_keypair C E p e d1;
        let s1 = s\<lparr>rs_dev := d2, rs_tail := Some (ie_endpoint e),
                   rs_rx := rs_rx s + of_nat (length packet + MinMessageSize)\<rparr>;
        (if length packet = 0 then Some s1
         else do {
           let s2 = s1\<lparr>rs_data := True\<rparr>;
           r \<leftarrow> inbound_payload p packet d2;
           Some (case r of None \<Rightarrow> s2 | Some payload \<Rightarrow> s2\<lparr>rs_bufs := rs_bufs s2 @ [payload]\<rparr>)
         })
      })"

fun receive_elems :: "Crypto \<Rightarrow> Env \<Rightarrow> nat \<Rightarrow> QueueInboundElement list \<Rightarrow> RecvState \<Rightarrow> RecvState option" where
  "receive_elems C E p [] s = Some s"
| "receive_elems C E p (e # es) s = do { s' \<leftarrow> receive_elem C E p e s; receive_elems C E p es s' }"

definition RoutineSequentialReceiver :: "Crypto \<Rightarrow> Env \<Rightarrow> nat \<Rightarrow> Device \<Rightarrow> Device option" where
  "RoutineSequentialReceiver C E p d =
     (case p_inbound (peer_heap d p) of
        [] \<Rightarrow> Some d
      | c # cs \<Rightarrow>
          if ic_locked c then Some d
          else do {
            let d0 = upd_peer p (\<lambda>x. x\<lparr>p_inbound := cs\<rparr>) d;
            s \<leftarrow> receive_elems C E p (ic_elems c)
                  \<lparr>rs_dev = d0, rs_tail = None, rs_data = False, rs_rx = 0, rs_bufs = []\<rparr>;
            let d1 = add_rx p (rs_rx s) (rs_dev s);
            d2 \<leftarrow> (case rs_tail s of
                     None \<Rightarrow> Some d1
                   | Some ep \<Rightarrow> do {
                       d' \<leftarrow> keepKeyFreshReceiving C E p (SetEndpointFromPacket p ep d1);
                       Some (timersAnyAuthenticatedPacketReceived p (timersAnyAuthenticatedPacketTraversal E p d'))
                     });
            let d3 = (if rs_data s then timersDataReceived E p d2 else d2);
            Some (d3\<lparr>tun_out := tun_out d3 @ rs_bufs s\<rparr>)
          })"

end
