(* ===== verification/Device_Ops.thy ===== *)
theory Device_Ops
  imports Receive
begin

text \<open>
  \<open>wireguard/device/device.go\<close>, \<open>Start\<close> and \<open>Stop\<close> of \<open>peer.go\<close>, \<open>tun.go\<close> and \<open>mobilequirks.go\<close>: the
  states of a device, its bind, its identity and its peers. The results of the operations of the
  bind are a record \<open>BindEnv\<close>. Stopping a peer runs its sequential receiver over what is still
  queued, as \<open>stopping.Wait\<close> makes it.
\<close>

section \<open>Starting and stopping a peer\<close>

definition Start :: "Env \<Rightarrow> nat \<Rightarrow> Device \<Rightarrow> Device" where
  "Start E p d =
     (if isClosed d then d
      else if p_isRunning (peer_heap d p) then d
      else
      let d1 = upd_hs p (\<lambda>h. h\<lparr>hs_lastSentHandshake := e_clock E At_Start - (RekeyTimeout + Second)\<rparr>) d;
          d2 = timersStart p d1;
          d3 = upd_peer p (\<lambda>x. x\<lparr>p_outbound := [], p_inbound := []\<rparr>) d2
      in upd_peer p (\<lambda>x. x\<lparr>p_isRunning := True\<rparr>) d3)"

text \<open>
  Every queued container is decrypted and received before the receiver sees the nil; \<open>Es n\<close> are
  the readings of the call with \<open>n\<close> containers to go.
\<close>

fun drain_inbound :: "Crypto \<Rightarrow> (nat \<Rightarrow> Env) \<Rightarrow> nat \<Rightarrow> nat \<Rightarrow> Device \<Rightarrow> Device option" where
  "drain_inbound C Es p 0 d = Some d"
| "drain_inbound C Es p (Suc n) d =
     do {
       d1 \<leftarrow> RoutineDecryption C p 0 d;
       d2 \<leftarrow> RoutineSequentialReceiver C (Es n) p d1;
       drain_inbound C Es p n d2
     }"

definition Stop :: "Crypto \<Rightarrow> (nat \<Rightarrow> Env) \<Rightarrow> nat \<Rightarrow> Device \<Rightarrow> Device option" where
  "Stop C Es p d =
     (if \<not> p_isRunning (peer_heap d p) then Some d
      else do {
        let d1 = upd_peer p (\<lambda>x. x\<lparr>p_isRunning := False\<rparr>) d;
        let d2 = timersStop p d1;
        d3 \<leftarrow> drain_inbound C Es p (length (p_inbound (peer_heap d2 p))) d2;
        let d4 = upd_peer p (\<lambda>x. x\<lparr>p_outbound := []\<rparr>) d3;
        Some (ZeroAndFlushAll p d4)
      })"

section \<open>Peers of a device\<close>

text \<open>Operations on several peers take readings for each peer and each call.\<close>

type_synonym Envs = "nat \<Rightarrow> nat \<Rightarrow> Env"

fun for_peers :: "(nat \<Rightarrow> Device \<Rightarrow> Device option) \<Rightarrow> nat list \<Rightarrow> Device \<Rightarrow> Device option" where
  "for_peers f [] d = Some d"
| "for_peers f (p # ps) d = do { d' \<leftarrow> f p d; for_peers f ps d' }"

definition peers_of :: "Device \<Rightarrow> nat list" where
  "peers_of d = map snd (d_keyMap d)"

definition removePeerLocked :: "Crypto \<Rightarrow> Envs \<Rightarrow> nat \<Rightarrow> NoisePublicKey \<Rightarrow> Device \<Rightarrow> Device option" where
  "removePeerLocked C Es p pk d =
     do {
       d1 \<leftarrow> Stop C (Es p) p (d\<lparr>d_allowedips := RemoveByPeer p (d_allowedips d)\<rparr>);
       Some (d1\<lparr>d_keyMap := filter (\<lambda>e. fst e \<noteq> pk) (d_keyMap d1)\<rparr>)
     }"

definition RemovePeer :: "Crypto \<Rightarrow> Envs \<Rightarrow> NoisePublicKey \<Rightarrow> Device \<Rightarrow> Device option" where
  "RemovePeer C Es pk d =
     (case LookupPeer pk d of
        None \<Rightarrow> Some d
      | Some p \<Rightarrow> removePeerLocked C Es p pk d)"

fun remove_entries :: "Crypto \<Rightarrow> Envs \<Rightarrow> (NoisePublicKey \<times> nat) list \<Rightarrow> Device \<Rightarrow> Device option" where
  "remove_entries C Es [] d = Some d"
| "remove_entries C Es ((pk, p) # es) d =
     do { d' \<leftarrow> removePeerLocked C Es p pk d; remove_entries C Es es d' }"

definition RemoveAllPeers :: "Crypto \<Rightarrow> Envs \<Rightarrow> Device \<Rightarrow> Device option" where
  "RemoveAllPeers C Es d =
     do { d1 \<leftarrow> remove_entries C Es (d_keyMap d) d; Some (d1\<lparr>d_keyMap := []\<rparr>) }"

section \<open>The identity\<close>

fun remove_matching :: "Crypto \<Rightarrow> Envs \<Rightarrow> NoisePublicKey \<Rightarrow> (NoisePublicKey \<times> nat) list \<Rightarrow> Device \<Rightarrow> Device option" where
  "remove_matching C Es pub [] d = Some d"
| "remove_matching C Es pub ((pk, p) # es) d =
     (if key_Equals (hs_remoteStatic (hs_of d p)) pub
      then do { d' \<leftarrow> removePeerLocked C Es p pk d; remove_matching C Es pub es d' }
      else remove_matching C Es pub es d)"

definition precompute :: "Crypto \<Rightarrow> nat \<Rightarrow> Device \<Rightarrow> Device" where
  "precompute C p d =
     upd_hs p (\<lambda>h. h\<lparr>hs_precomputedStaticStatic :=
       fst (sharedSecret C (d_privateKey d) (hs_remoteStatic h))\<rparr>) d"

definition SetPrivateKey :: "Crypto \<Rightarrow> Envs \<Rightarrow> NoisePrivateKey \<Rightarrow> Device \<Rightarrow> Device option" where
  "SetPrivateKey C Es sk d =
     (if key_Equals sk (d_privateKey d) then Some d
      else do {
        let pub = publicKey C sk;
        d1 \<leftarrow> remove_matching C Es pub (d_keyMap d) d;
        let d2 = d1\<lparr>d_privateKey := sk, d_publicKey := pub,
                    d_cookieChecker := checker_Init C pub (d_cookieChecker d1)\<rparr>;
        let d3 = fold (precompute C) (peers_of d2) d2;
        Some (fold (\<lambda>p. ExpireCurrentKeypairs (Es p 0) p) (peers_of d3) d3)
      })"

section \<open>The bind\<close>

text \<open>
  Whether closing the bind succeeds, the result of opening it on a port (the number of receive
  functions and the port), whether the route listener and the mark can be set, and what
  \<open>ParseEndpoint\<close> makes of a text.
\<close>

record BindEnv =
  b_close :: bool
  b_open :: "u16 \<Rightarrow> (nat \<times> u16) option"
  b_listener :: bool
  b_setMark :: bool
  b_parse :: "string \<Rightarrow> Endpoint option"

definition closeBindLocked :: "BindEnv \<Rightarrow> Device \<Rightarrow> bool \<times> Device" where
  "closeBindLocked B d = (b_close B, d\<lparr>d_receivers := 0\<rparr>)"

definition BindSetMark :: "BindEnv \<Rightarrow> u32 \<Rightarrow> Device \<Rightarrow> bool \<times> Device" where
  "BindSetMark B mark d =
     (if d_fwmark d = mark then (True, d)
      else
      let d1 = d\<lparr>d_fwmark := mark\<rparr>
      in if isUp d1 \<and> \<not> b_setMark B then (False, d1)
         else (True, fold markEndpointSrcForClearing (peers_of d1) d1))"

definition BindUpdate :: "BindEnv \<Rightarrow> Device \<Rightarrow> bool \<times> Device" where
  "BindUpdate B d =
     (let (ok, d1) = closeBindLocked B d
      in if \<not> ok then (False, d1)
      else if \<not> isUp d1 then (True, d1)
      else case b_open B (d_port d1) of
        None \<Rightarrow> (False, d1\<lparr>d_port := 0\<rparr>)
      | Some (n, port) \<Rightarrow>
          let d2 = d1\<lparr>d_port := port\<rparr>
          in if \<not> b_listener B then (False, d2\<lparr>d_port := 0\<rparr>)
          else if d_fwmark d2 \<noteq> 0 \<and> \<not> b_setMark B then (False, d2)
          else
          let d3 = fold markEndpointSrcForClearing (peers_of d2) d2
          in (True, d3\<lparr>d_receivers := n\<rparr>))"

definition BindClose :: "BindEnv \<Rightarrow> Device \<Rightarrow> bool \<times> Device" where
  "BindClose B d = closeBindLocked B d"

section \<open>States of a device\<close>

definition start_and_initiate :: "Crypto \<Rightarrow> Env \<Rightarrow> nat \<Rightarrow> Device \<Rightarrow> Device option" where
  "start_and_initiate C E p d = map_option snd (SendHandshakeInitiation C E False p (Start E p d))"

definition upLocked :: "Crypto \<Rightarrow> Envs \<Rightarrow> BindEnv \<Rightarrow> Device \<Rightarrow> (bool \<times> Device) option" where
  "upLocked C Es B d =
     (let (ok, d1) = BindUpdate B d
      in if \<not> ok then Some (False, d1)
         else do { d2 \<leftarrow> for_peers (\<lambda>p. start_and_initiate C (Es p 0) p) (peers_of d1) d1; Some (True, d2) })"

definition downLocked :: "Crypto \<Rightarrow> Envs \<Rightarrow> BindEnv \<Rightarrow> Device \<Rightarrow> (bool \<times> Device) option" where
  "downLocked C Es B d =
     (let (ok, d1) = BindClose B d
      in do { d2 \<leftarrow> for_peers (\<lambda>p. Stop C (Es p) p) (peers_of d1) d1; Some (ok, d2) })"

definition go_down :: "Crypto \<Rightarrow> Envs \<Rightarrow> BindEnv \<Rightarrow> bool \<Rightarrow> Device \<Rightarrow> (bool \<times> Device) option" where
  "go_down C Es B ok d =
     do {
       (okDown, d1) \<leftarrow> downLocked C Es B (d\<lparr>d_state := deviceStateDown\<rparr>);
       Some (ok \<and> okDown, d1)
     }"

text \<open>The flag is \<open>err == nil\<close>; a failed \<open>upLocked\<close> falls through to the transition down.\<close>

definition changeState :: "Crypto \<Rightarrow> Envs \<Rightarrow> BindEnv \<Rightarrow> deviceState \<Rightarrow> Device \<Rightarrow> (bool \<times> Device) option" where
  "changeState C Es B want d =
     (if d_state d = deviceStateClosed then Some (True, d)
      else if want = d_state d then Some (True, d)
      else case want of
        deviceStateUp \<Rightarrow> do {
          (ok, d1) \<leftarrow> upLocked C Es B (d\<lparr>d_state := deviceStateUp\<rparr>);
          (if ok then Some (True, d1) else go_down C Es B False d1)
        }
      | deviceStateDown \<Rightarrow> go_down C Es B True d
      | deviceStateClosed \<Rightarrow> Some (True, d))"

definition Up :: "Crypto \<Rightarrow> Envs \<Rightarrow> BindEnv \<Rightarrow> Device \<Rightarrow> (bool \<times> Device) option" where
  "Up C Es B = changeState C Es B deviceStateUp"

definition Down :: "Crypto \<Rightarrow> Envs \<Rightarrow> BindEnv \<Rightarrow> Device \<Rightarrow> (bool \<times> Device) option" where
  "Down C Es B = changeState C Es B deviceStateDown"

definition device_Close :: "Crypto \<Rightarrow> Envs \<Rightarrow> BindEnv \<Rightarrow> Device \<Rightarrow> Device option" where
  "device_Close C Es B d =
     (if isClosed d then Some d
      else do {
        let d1 = d\<lparr>d_state := deviceStateClosed\<rparr>;
        (ok, d2) \<leftarrow> downLocked C Es B d1;
        d3 \<leftarrow> RemoveAllPeers C Es d2;
        lim \<leftarrow> Close (d_limiter d3);
        Some (d3\<lparr>d_limiter := lim\<rparr>)
      })"

definition DefaultMTU :: int where "DefaultMTU = 1420"

text \<open>\<open>int32(mtu)\<close> wraps.\<close>

definition NewDevice :: "int option \<Rightarrow> Device option" where
  "NewDevice mtu_rd =
     do {
       let mtu = (case mtu_rd of None \<Rightarrow> DefaultMTU | Some m \<Rightarrow> m);
       lim \<leftarrow> Init zero_Ratelimiter;
       Some (zero_Device\<lparr>d_state := deviceStateDown, d_keyMap := [], d_limiter := lim,
         d_indexTable := idx_Init, d_mtu := sint (word_of_int mtu :: u32)\<rparr>)
     }"

definition device_BatchSize :: "int \<Rightarrow> int \<Rightarrow> int" where
  "device_BatchSize sz dSize = (if sz < dSize then dSize else sz)"

definition SendKeepalivesToPeersWithCurrentKeypair :: "Crypto \<Rightarrow> (nat \<Rightarrow> Env) \<Rightarrow> Device \<Rightarrow> Device option" where
  "SendKeepalivesToPeersWithCurrentKeypair C Es d =
     (if \<not> isUp d then Some d
      else for_peers
        (\<lambda>p d. case kps_current (kps_of d p) of
                 None \<Rightarrow> Some d
               | Some k \<Rightarrow>
                   if \<not> kp_created (kp_heap d k) + RejectAfterTime < e_clock (Es p) At_Keepalives
                   then SendKeepalive C (Es p) p d else Some d)
        (peers_of d) d)"

definition DisableSomeRoamingForBrokenMobileSemantics :: "Device \<Rightarrow> Device" where
  "DisableSomeRoamingForBrokenMobileSemantics d =
     fold (\<lambda>p. upd_peer p (\<lambda>x. x\<lparr>p_disableRoaming := (p_endpoint x \<noteq> None)\<rparr>)) (peers_of d)
       (d\<lparr>d_brokenRoaming := True\<rparr>)"

section \<open>Events of the TUN device\<close>

definition EventUp :: int where "EventUp = 1"
definition EventDown :: int where "EventDown = 2"
definition EventMTUUpdate :: int where "EventMTUUpdate = 4"
definition MaxSegmentSize :: int where "MaxSegmentSize = push_bit 16 1 - 1"
definition MaxContentSize :: int where "MaxContentSize = MaxSegmentSize - int MessageTransportSize"

text \<open>A failed or negative reading of the MTU skips the rest of the event.\<close>

definition update_mtu :: "int option \<Rightarrow> Device \<Rightarrow> bool \<times> Device" where
  "update_mtu mtu_rd d =
     (case mtu_rd of
        None \<Rightarrow> (False, d)
      | Some mtu \<Rightarrow>
          if mtu < 0 then (False, d)
          else (True, d\<lparr>d_mtu := sint (word_of_int (if mtu > MaxContentSize then MaxContentSize else mtu) :: u32)\<rparr>))"

definition RoutineTUNEventReader ::
  "Crypto \<Rightarrow> Envs \<Rightarrow> Envs \<Rightarrow> BindEnv \<Rightarrow> int option \<Rightarrow> int \<Rightarrow> Device \<Rightarrow> Device option" where
  "RoutineTUNEventReader C Eu Ed B mtu_rd event d =
     (let (go, d1) = (if event AND EventMTUUpdate \<noteq> 0 then update_mtu mtu_rd d else (True, d))
      in if \<not> go then Some d1
         else do {
           d2 \<leftarrow> (if event AND EventUp \<noteq> 0 then map_option snd (Up C Eu B d1) else Some d1);
           (if event AND EventDown \<noteq> 0 then map_option snd (Down C Ed B d2) else Some d2)
         })"

end
