(* ===== verification/Go_Strings.thy ===== *)
theory Go_Strings
  imports Ip_Bits
begin

text \<open>
  The functions of the Go standard library on text that the sources use: \<open>strings.Split\<close> and
  \<open>strings.Cut\<close> at one character, \<open>strconv.ParseUint\<close>, \<open>strconv.Atoi\<close> and decimal formatting, and
  the text forms of \<open>netip.Addr\<close> and \<open>netip.Prefix\<close> (addresses without zone). Text is ASCII.
\<close>

section \<open>Splitting\<close>

fun split_on :: "char \<Rightarrow> string \<Rightarrow> string list" where
  "split_on c [] = [[]]"
| "split_on c (x # xs) =
     (if x = c then [] # split_on c xs
      else case split_on c xs of [] \<Rightarrow> [[x]] | w # ws \<Rightarrow> (x # w) # ws)"

fun cut_at :: "char \<Rightarrow> string \<Rightarrow> (string \<times> string) option" where
  "cut_at c [] = None"
| "cut_at c (x # xs) =
     (if x = c then Some ([], xs) else map_option (\<lambda>(a, b). (x # a, b)) (cut_at c xs))"

definition last_cut :: "char \<Rightarrow> string \<Rightarrow> (string \<times> string) option" where
  "last_cut c s = map_option (\<lambda>(a, b). (rev b, rev a)) (cut_at c (rev s))"

fun join_with :: "char \<Rightarrow> string list \<Rightarrow> string" where
  "join_with c [] = []"
| "join_with c [w] = w"
| "join_with c (w # ws) = w @ c # join_with c ws"

lemma split_on_no: "c \<notin> set s \<Longrightarrow> split_on c s = [s]"
  by (induction s) auto

lemma split_on_append: "c \<notin> set a \<Longrightarrow> split_on c (a @ c # b) = a # split_on c b"
  by (induction a) auto

lemma split_on_join:
  "ws \<noteq> [] \<Longrightarrow> \<forall>w \<in> set ws. c \<notin> set w \<Longrightarrow> split_on c (join_with c ws) = ws"
  by (induction c ws rule: join_with.induct) (auto simp: split_on_no split_on_append)

lemma cut_at_append: "c \<notin> set a \<Longrightarrow> cut_at c (a @ c # b) = Some (a, b)"
  by (induction a) auto

lemma cut_at_none: "cut_at c s = None \<longleftrightarrow> c \<notin> set s"
  by (induction s) auto

lemma last_cut_append: "c \<notin> set b \<Longrightarrow> last_cut c (a @ c # b) = Some (a, b)"
  using cut_at_append [of c "rev b" "rev a"] by (simp add: last_cut_def)

section \<open>Decimal numbers\<close>

definition is_digit :: "char \<Rightarrow> bool" where
  "is_digit c = (48 \<le> (of_char c :: nat) \<and> (of_char c :: nat) \<le> 57)"

definition dec_value :: "string \<Rightarrow> nat" where
  "dec_value s = foldl (\<lambda>n c. 10 * n + (of_char c - 48)) 0 s"

definition digit_char :: "nat \<Rightarrow> char" where
  "digit_char n = char_of (48 + n)"

function show_nat :: "nat \<Rightarrow> string" where
  "show_nat n = (if n < 10 then [digit_char n] else show_nat (n div 10) @ [digit_char (n mod 10)])"
  by pat_completeness auto
termination by (relation "measure id") auto

declare show_nat.simps [simp del]

definition show_int :: "int \<Rightarrow> string" where
  "show_int i = (if i < 0 then CHR ''-'' # show_nat (nat (- i)) else show_nat (nat i))"

definition ParseUint :: "nat \<Rightarrow> string \<Rightarrow> nat option" where
  "ParseUint bits s =
     (if s = [] \<or> \<not> list_all is_digit s then None
      else if dec_value s < 2 ^ bits then Some (dec_value s) else None)"

definition Atoi :: "string \<Rightarrow> int option" where
  "Atoi s =
     (let (neg, ds) = (case s of
            [] \<Rightarrow> (False, [])
          | c # cs \<Rightarrow> if c = CHR ''-'' then (True, cs) else if c = CHR ''+'' then (False, cs) else (False, s))
      in if ds = [] \<or> \<not> list_all is_digit ds then None
         else
         let n = int (dec_value ds)
         in if neg then (if n \<le> 2 ^ 63 then Some (- n) else None)
            else (if n < 2 ^ 63 then Some n else None))"

lemma digit_char_digit: "n < 10 \<Longrightarrow> is_digit (digit_char n) \<and> of_char (digit_char n) = 48 + n"
  by (simp add: is_digit_def digit_char_def)

lemma dec_value_snoc: "dec_value (s @ [c]) = 10 * dec_value s + (of_char c - 48)"
  by (simp add: dec_value_def)

lemma show_nat_ok: "dec_value (show_nat n) = n \<and> list_all is_digit (show_nat n) \<and> show_nat n \<noteq> []"
proof (induction n rule: show_nat.induct)
  case (1 n)
  show ?case
  proof (cases "n < 10")
    case True
    then show ?thesis using digit_char_digit [OF True] by (simp add: show_nat.simps dec_value_def)
  next
    case False
    then show ?thesis using 1 digit_char_digit [of "n mod 10"]
      by (simp add: show_nat.simps [of n] dec_value_snoc)
  qed
qed

lemma ParseUint_show: "n < 2 ^ bits \<Longrightarrow> ParseUint bits (show_nat n) = Some n"
  using show_nat_ok [of n] by (simp add: ParseUint_def)

lemma digit_not:
  "is_digit c \<Longrightarrow> c \<noteq> CHR ''.'' \<and> c \<noteq> CHR ''/'' \<and> c \<noteq> CHR '','' \<and> c \<noteq> CHR ''='' \<and> c \<noteq> CHR ''-'' \<and>
     c \<noteq> CHR ''+'' \<and> c \<noteq> CHR '':'' \<and> c \<noteq> CHR 0x0A"
  by (auto simp: is_digit_def)

lemma show_nat_free:
  "CHR ''.'' \<notin> set (show_nat n)" "CHR ''/'' \<notin> set (show_nat n)" "CHR '','' \<notin> set (show_nat n)"
  "CHR ''='' \<notin> set (show_nat n)" "CHR '':'' \<notin> set (show_nat n)" "CHR 0x0A \<notin> set (show_nat n)"
  using show_nat_ok [of n] digit_not by (auto simp: list_all_iff)

lemma Atoi_show: "n < 2 ^ 63 \<Longrightarrow> Atoi (show_nat n) = Some (int n)"
proof -
  assume n: "n < 2 ^ 63"
  obtain c cs where s: "show_nat n = c # cs" using show_nat_ok [of n] by (cases "show_nat n") auto
  then have "is_digit c" using show_nat_ok [of n] by simp
  then have c: "c \<noteq> CHR ''-''" "c \<noteq> CHR ''+''" using digit_not by blast+
  have "int n < 2 ^ 63" using n by (metis of_nat_less_iff of_nat_numeral of_nat_power)
  then show ?thesis using show_nat_ok [of n] c by (simp add: Atoi_def Let_def s)
qed

section \<open>IPv4 text\<close>

definition octet :: "string \<Rightarrow> nat option" where
  "octet s =
     (if s = [] \<or> \<not> list_all is_digit s then None
      else if length s > 1 \<and> hd s = CHR ''0'' then None
      else if dec_value s > 255 then None else Some (dec_value s))"

definition parse_ipv4 :: "string \<Rightarrow> bytes option" where
  "parse_ipv4 s =
     (let fs = split_on CHR ''.'' s
      in if length fs \<noteq> 4 then None else map_option (map of_nat) (those (map octet fs)))"

definition show_ipv4 :: "bytes \<Rightarrow> string" where
  "show_ipv4 b = join_with CHR ''.'' (map (show_nat \<circ> unat) b)"

lemma show_nat_head: "n > 0 \<Longrightarrow> hd (show_nat n) \<noteq> CHR ''0''"
proof (induction n rule: show_nat.induct)
  case (1 n)
  show ?case
  proof (cases "n < 10")
    case True
    have "(of_char (digit_char n) :: nat) \<noteq> of_char CHR ''0''"
      using 1(2) digit_char_digit [OF True] by simp
    then show ?thesis using True by (auto simp: show_nat.simps [of n])
  next
    case False
    then have "hd (show_nat (n div 10)) \<noteq> CHR ''0''" using 1 by auto
    then show ?thesis using False show_nat_ok [of "n div 10"] by (simp add: show_nat.simps [of n])
  qed
qed

lemma octet_show: "n < 256 \<Longrightarrow> octet (show_nat n) = Some n"
proof -
  assume n: "n < 256"
  have "length (show_nat n) > 1 \<Longrightarrow> hd (show_nat n) \<noteq> CHR ''0''"
    using show_nat_head [of n] by (cases "n < 10") (auto simp: show_nat.simps [of n])
  then show ?thesis using n show_nat_ok [of n] by (auto simp: octet_def)
qed

lemma parse_show_ipv4:
  assumes "length b = 4"
  shows "parse_ipv4 (show_ipv4 b) = Some b"
proof -
  obtain w x y z where b: "b = [w, x, y, z]"
    using assms by (auto simp: length_Suc_conv numeral_eq_Suc)
  have fs: "split_on CHR ''.'' (show_ipv4 b) = map (show_nat \<circ> unat) b"
    unfolding show_ipv4_def using assms show_nat_free(1) by (intro split_on_join) auto
  have "octet (show_nat (unat v)) = Some (unat v)" for v :: byte
    using unat_byte_less [of v] by (simp add: octet_show)
  then show ?thesis unfolding parse_ipv4_def fs by (simp add: b)
qed

section \<open>Hexadecimal numbers\<close>

definition hex_digit :: "char \<Rightarrow> nat option" where
  "hex_digit c =
     (let n = (of_char c :: nat)
      in if 48 \<le> n \<and> n \<le> 57 then Some (n - 48)
         else if 97 \<le> n \<and> n \<le> 102 then Some (n - 87)
         else if 65 \<le> n \<and> n \<le> 70 then Some (n - 55)
         else None)"

definition is_hex :: "char \<Rightarrow> bool" where
  "is_hex c = (hex_digit c \<noteq> None)"

definition hex_value :: "string \<Rightarrow> nat" where
  "hex_value s = foldl (\<lambda>n c. 16 * n + the (hex_digit c)) 0 s"

definition hex_char :: "nat \<Rightarrow> char" where
  "hex_char n = char_of (if n < 10 then 48 + n else 87 + n)"

function show_hex :: "nat \<Rightarrow> string" where
  "show_hex n = (if n < 16 then [hex_char n] else show_hex (n div 16) @ [hex_char (n mod 16)])"
  by pat_completeness auto
termination by (relation "measure id") auto

declare show_hex.simps [simp del]

lemma hex_char_digit: "n < 16 \<Longrightarrow> hex_digit (hex_char n) = Some n"
  by (simp add: hex_digit_def hex_char_def)

lemma show_hex_ok: "hex_value (show_hex n) = n \<and> list_all is_hex (show_hex n) \<and> show_hex n \<noteq> []"
proof (induction n rule: show_hex.induct)
  case (1 n)
  show ?case
  proof (cases "n < 16")
    case True
    then show ?thesis by (simp add: show_hex.simps hex_value_def is_hex_def hex_char_digit)
  next
    case False
    then show ?thesis using 1
      by (simp add: show_hex.simps [of n] hex_value_def is_hex_def hex_char_digit)
  qed
qed

lemma show_hex_length: "n < 16 ^ k \<Longrightarrow> 0 < k \<Longrightarrow> length (show_hex n) \<le> k"
proof (induction n arbitrary: k rule: show_hex.induct)
  case (1 n)
  show ?case
  proof (cases "n < 16")
    case True
    then show ?thesis using 1(3) by (simp add: show_hex.simps)
  next
    case False
    then obtain j where k: "k = Suc j" "0 < j" using 1(2,3) by (cases k; cases "k - 1") auto
    then have "n div 16 < 16 ^ j" using 1(2) by (simp add: less_mult_imp_div_less mult.commute)
    then show ?thesis using 1(1) [OF False _ k(2)] False k(1) by (simp add: show_hex.simps [of n])
  qed
qed

lemma hex_not: "is_hex c \<Longrightarrow> c \<noteq> CHR '':'' \<and> c \<noteq> CHR ''.'' \<and> c \<noteq> CHR ''%'' \<and> c \<noteq> CHR ''/''"
  by (auto simp: is_hex_def hex_digit_def)

section \<open>IPv6 text\<close>

text \<open>
  The loop of the parser over at most \<open>n\<close> more groups; it returns the rest of the text, the
  groups and the position of \<open>::\<close>.
\<close>

fun p6 :: "nat \<Rightarrow> string \<Rightarrow> nat list \<Rightarrow> nat option \<Rightarrow> (string \<times> nat list \<times> nat option) option" where
  "p6 0 s acc ell = Some (s, acc, ell)"
| "p6 (Suc n) s acc ell =
     (let ds = takeWhile is_hex s; r = dropWhile is_hex s
      in if length ds > 4 \<or> ds = [] then None
      else if r \<noteq> [] \<and> hd r = CHR ''.'' then
        (if ell = None \<and> length acc \<noteq> 6 \<or> length acc + 2 > 8 then None
         else (case parse_ipv4 s of
                 None \<Rightarrow> None
               | Some b \<Rightarrow> Some ([], acc @ [be_nat (take 2 b), be_nat (drop 2 b)], ell)))
      else
      let acc' = acc @ [hex_value ds]
      in (case r of
            [] \<Rightarrow> Some ([], acc', ell)
          | c # r1 \<Rightarrow>
              if c \<noteq> CHR '':'' \<or> r1 = [] then None
              else if hd r1 = CHR '':'' then
                (if ell \<noteq> None then None
                 else if tl r1 = [] then Some ([], acc', Some (length acc'))
                 else p6 n (tl r1) acc' (Some (length acc')))
              else p6 n r1 acc' ell))"

definition parse_ipv6 :: "string \<Rightarrow> nat list option" where
  "parse_ipv6 s =
     (let start = (length s \<ge> 2 \<and> s ! 0 = CHR '':'' \<and> s ! 1 = CHR '':'')
      in if start \<and> drop 2 s = [] then Some (replicate 8 0)
         else (case (if start then p6 8 (drop 2 s) [] (Some 0) else p6 8 s [] None) of
                 None \<Rightarrow> None
               | Some (rest, acc, ell) \<Rightarrow>
                   if rest \<noteq> [] then None
                   else if length acc < 8 then
                     (case ell of
                        None \<Rightarrow> None
                      | Some e \<Rightarrow> Some (take e acc @ replicate (8 - length acc) 0 @ drop e acc))
                   else if ell \<noteq> None then None else Some acc))"

text \<open>The longest run of at least two zero groups, the first of equals: its start and end.\<close>

definition zero_run :: "nat list \<Rightarrow> nat \<Rightarrow> nat" where
  "zero_run gs i = i + length (takeWhile (\<lambda>g. g = 0) (drop i gs))"

definition best_run :: "nat list \<Rightarrow> nat \<times> nat" where
  "best_run gs =
     foldl (\<lambda>(a, b) i. let j = zero_run gs i in if j - i \<ge> 2 \<and> j - i > b - a then (i, j) else (a, b))
       (255, 255) [0..<8]"

definition show_ipv6 :: "nat list \<Rightarrow> string" where
  "show_ipv6 gs =
     (let (a, b) = best_run gs
      in if a = 255 then join_with CHR '':'' (map show_hex gs)
         else join_with CHR '':'' (map show_hex (take a gs)) @ ''::'' @
              join_with CHR '':'' (map show_hex (drop b gs)))"

lemma take_hex: "takeWhile is_hex (show_hex g @ CHR '':'' # r) = show_hex g"
  "dropWhile is_hex (show_hex g @ CHR '':'' # r) = CHR '':'' # r"
  "takeWhile is_hex (show_hex g) = show_hex g" "dropWhile is_hex (show_hex g) = []"
proof -
  have h: "\<forall>x \<in> set (show_hex g). is_hex x" using show_hex_ok [of g] by (simp add: list_all_iff)
  have c: "\<not> is_hex CHR '':''" using hex_not by blast
  show "takeWhile is_hex (show_hex g @ CHR '':'' # r) = show_hex g"
    "dropWhile is_hex (show_hex g @ CHR '':'' # r) = CHR '':'' # r"
    using h c by (simp_all add: takeWhile_append2 dropWhile_append2)
  show "takeWhile is_hex (show_hex g) = show_hex g" "dropWhile is_hex (show_hex g) = []"
    using h by (simp_all add: takeWhile_eq_all_conv)
qed

lemma show_hex_4: "g < 65536 \<Longrightarrow> length (show_hex g) \<le> 4"
  using show_hex_length [of g 4] by simp

lemma show_hex_hd: "hd (show_hex g @ xs) \<noteq> CHR '':''" "show_hex g \<noteq> []"
proof -
  obtain c cs where s: "show_hex g = c # cs" using show_hex_ok [of g] by (cases "show_hex g") auto
  then have "is_hex c" using show_hex_ok [of g] by simp
  then show "hd (show_hex g @ xs) \<noteq> CHR '':''" "show_hex g \<noteq> []" using s hex_not by auto
qed

lemma join_Cons: "ws \<noteq> [] \<Longrightarrow> join_with c (w # ws) = w @ c # join_with c ws"
  by (cases ws) auto

lemma join_hex_hd: "gs \<noteq> [] \<Longrightarrow> hd (join_with CHR '':'' (map show_hex gs) @ xs) \<noteq> CHR '':'' \<and>
    join_with CHR '':'' (map show_hex gs) \<noteq> []"
proof (cases gs)
  case (Cons g gs')
  then show ?thesis using show_hex_hd [of g] by (cases "map show_hex gs'") auto
qed simp

lemma p6_hex:
  assumes "g < 65536"
  shows "p6 (Suc n) (show_hex g) acc ell = Some ([], acc @ [g], ell)"
    "r \<noteq> [] \<Longrightarrow> hd r \<noteq> CHR '':'' \<Longrightarrow> p6 (Suc n) (show_hex g @ CHR '':'' # r) acc ell = p6 n r (acc @ [g]) ell"
    "p6 (Suc n) (show_hex g @ ''::'') acc None = Some ([], acc @ [g], Some (Suc (length acc)))"
    "r \<noteq> [] \<Longrightarrow> p6 (Suc n) (show_hex g @ CHR '':'' # CHR '':'' # r) acc None = p6 n r (acc @ [g]) (Some (Suc (length acc)))"
  using show_hex_4 [OF assms] show_hex_ok [of g] show_hex_hd(2) [of g]
  by (auto simp: take_hex take_hex(1,2) [of g "'':''"])

lemma p6_join:
  assumes "gs \<noteq> []" "length gs \<le> n" "list_all (\<lambda>g. g < 65536) gs"
  shows "p6 n (join_with CHR '':'' (map show_hex gs)) acc ell = Some ([], acc @ gs, ell)"
  using assms
proof (induction gs arbitrary: n acc)
  case (Cons g gs)
  then obtain m where n: "n = Suc m" by (cases n) auto
  show ?case
  proof (cases "gs = []")
    case True
    then show ?thesis using Cons.prems p6_hex(1) [of g m acc ell] by (simp add: n)
  next
    case False
    then have "join_with CHR '':'' (map show_hex (g # gs)) = show_hex g @ CHR '':'' # join_with CHR '':'' (map show_hex gs)"
      by (simp add: join_Cons)
    moreover have "hd (join_with CHR '':'' (map show_hex gs)) \<noteq> CHR '':''" "join_with CHR '':'' (map show_hex gs) \<noteq> []"
      using join_hex_hd [OF False, of "[]"] by simp_all
    ultimately show ?thesis using Cons p6_hex(2) [of g] False n by simp
  qed
qed simp

lemma p6_join_ellipsis:
  assumes "gs \<noteq> []" "length gs \<le> n" "list_all (\<lambda>g. g < 65536) gs"
  shows "p6 n (join_with CHR '':'' (map show_hex gs) @ ''::'' @ r) acc None =
    (if r = [] then Some ([], acc @ gs, Some (length (acc @ gs)))
     else p6 (n - length gs) r (acc @ gs) (Some (length (acc @ gs))))"
  using assms
proof (induction gs arbitrary: n acc)
  case (Cons g gs)
  then obtain m where n: "n = Suc m" by (cases n) auto
  show ?case
  proof (cases "gs = []")
    case True
    then show ?thesis using Cons.prems p6_hex(3) [of g m acc] p6_hex(4) [of g r m acc] by (cases "r = []") (simp_all add: n)
  next
    case False
    then have "join_with CHR '':'' (map show_hex (g # gs)) = show_hex g @ CHR '':'' # join_with CHR '':'' (map show_hex gs)"
      by (simp add: join_Cons)
    moreover have "hd (join_with CHR '':'' (map show_hex gs) @ ''::'' @ r) \<noteq> CHR '':''" "join_with CHR '':'' (map show_hex gs) \<noteq> []"
      using join_hex_hd [OF False, of "[]"] by (simp_all add: hd_append)
    ultimately show ?thesis using Cons p6_hex(2) [of g] False n by simp
  qed
qed simp

lemma zero_run_ok:
  assumes "i < length gs"
  shows "zero_run gs i \<le> length gs" "i \<le> zero_run gs i" "\<forall>x \<in> set (slice i (zero_run gs i) gs). x = 0"
proof -
  have "length (takeWhile (\<lambda>g. g = 0) (drop i gs)) \<le> length gs - i"
    using length_takeWhile_le [of "\<lambda>g. g = 0" "drop i gs"] by simp
  then show "zero_run gs i \<le> length gs" "i \<le> zero_run gs i" using assms by (simp_all add: zero_run_def)
  have "slice i (zero_run gs i) gs = takeWhile (\<lambda>g. g = 0) (drop i gs)"
    by (simp add: slice_def zero_run_def takeWhile_eq_take [symmetric])
  then show "\<forall>x \<in> set (slice i (zero_run gs i) gs). x = 0" by (auto dest: set_takeWhileD)
qed

definition run_ok :: "nat list \<Rightarrow> nat \<times> nat \<Rightarrow> bool" where
  "run_ok gs ab = (case ab of (a, b) \<Rightarrow>
     a = 255 \<or> (a + 2 \<le> b \<and> b \<le> length gs \<and> (\<forall>x \<in> set (slice a b gs). x = 0)))"

lemma best_run_ok:
  assumes "length gs = 8"
  shows "run_ok gs (best_run gs)"
proof -
  have "run_ok gs ab \<Longrightarrow> set is \<subseteq> {0..<8} \<Longrightarrow>
    run_ok gs (foldl (\<lambda>(a, b) i. let j = zero_run gs i in if j - i \<ge> 2 \<and> j - i > b - a then (i, j) else (a, b)) ab is)"
    for ab "is"
  proof (induction "is" arbitrary: ab)
    case (Cons i "is")
    obtain a b where ab: "ab = (a, b)" by fastforce
    have "run_ok gs (let j = zero_run gs i in if j - i \<ge> 2 \<and> j - i > b - a then (i, j) else (a, b))"
      using Cons.prems zero_run_ok [of i gs] assms ab by (auto simp: run_ok_def Let_def)
    then show ?case using Cons.IH Cons.prems(2) ab by simp
  qed simp
  moreover have "run_ok gs (255, 255)" by (simp add: run_ok_def)
  ultimately show ?thesis unfolding best_run_def by simp
qed

lemma split_at_run:
  assumes "a \<le> b" "b \<le> length gs" "\<forall>x \<in> set (slice a b gs). x = 0"
  shows "gs = take a gs @ replicate (b - a) 0 @ drop b gs"
proof -
  have "length (slice a b gs) = b - a" using assms by (simp add: slice_def)
  then have "slice a b gs = replicate (b - a) 0" using assms(3) by (metis replicate_eqI)
  moreover have "gs = take a gs @ slice a b gs @ drop b gs"
    using assms(1) by (simp add: slice_def) (metis append_take_drop_id drop_drop le_add_diff_inverse2)
  ultimately show ?thesis by simp
qed

lemma parse_show_ipv6:
  assumes "length gs = 8" "list_all (\<lambda>g. g < 65536) gs"
  shows "parse_ipv6 (show_ipv6 gs) = Some gs"
proof -
  obtain a b where ab: "best_run gs = (a, b)" by fastforce
  let ?j = "\<lambda>xs. join_with CHR '':'' (map show_hex xs)"
  have nostart: "\<not> (?j xs @ ys) ! 0 = CHR '':''" if "xs \<noteq> []" for xs ys
    using join_hex_hd [OF that, of ys] that by (metis Nil_is_append_conv hd_conv_nth)
  show ?thesis
  proof (cases "a = 255")
    case True
    then have s: "show_ipv6 gs = ?j gs" using ab by (simp add: show_ipv6_def)
    have ne: "gs \<noteq> []" using assms(1) by auto
    have "p6 8 (?j gs) [] None = Some ([], gs, None)" using p6_join [OF ne _ assms(2), of 8 "[]" None] assms(1) by simp
    then show ?thesis using nostart [OF ne, of "[]"] assms(1) unfolding parse_ipv6_def s by simp
  next
    case False
    then have run: "a + 2 \<le> b" "b \<le> 8" "\<forall>x \<in> set (slice a b gs). x = 0"
      using best_run_ok [OF assms(1)] ab assms(1) by (auto simp: run_ok_def)
    have gs: "gs = take a gs @ replicate (b - a) 0 @ drop b gs"
      using split_at_run [of a b gs] run assms(1) by simp
    have s: "show_ipv6 gs = ?j (take a gs) @ ''::'' @ ?j (drop b gs)" using ab False by (simp add: show_ipv6_def)
    have all: "list_all (\<lambda>g. g < 65536) (take a gs)" "list_all (\<lambda>g. g < 65536) (drop b gs)"
      using assms(2) by (auto simp: list_all_iff dest: in_set_takeD in_set_dropD)
    have len: "length (take a gs) = a" "length (drop b gs) = 8 - b" using run assms(1) by simp_all
    have rest: "p6 n (?j (drop b gs)) acc ell = Some ([], acc @ drop b gs, ell)" if "drop b gs \<noteq> []" "8 - b \<le> n" for n acc ell
      using p6_join [OF that(1) _ all(2)] that(2) len by simp
    have jne: "xs \<noteq> [] \<Longrightarrow> ?j xs \<noteq> []" for xs using join_hex_hd [of xs "[]"] by simp
    have fill: "8 - (a + (8 - b)) = b - a" using run by simp
    show ?thesis
    proof (cases "a = 0")
      case True
      then have "show_ipv6 gs = ''::'' @ ?j (drop b gs)" using s by simp
      then show ?thesis using rest [of 8 "[]" "Some 0"] jne [of "drop b gs"] gs True len run fill
        by (cases "drop b gs = []") (simp_all add: parse_ipv6_def)
    next
      case False
      then have ne: "take a gs \<noteq> []" using len by auto
      have "p6 8 (show_ipv6 gs) [] None = Some ([], take a gs @ drop b gs, Some a)"
        unfolding s using p6_join_ellipsis [OF ne _ all(1), of 8 "?j (drop b gs)" "[]"] rest [of "8 - a"] jne [of "drop b gs"] len run
        by (cases "drop b gs = []") simp_all
      then show ?thesis using nostart [OF ne, of "''::'' @ ?j (drop b gs)"] gs len run fill
        unfolding parse_ipv6_def s [symmetric] by (simp add: Let_def)
    qed
  qed
qed

section \<open>Addresses, prefixes and ports\<close>

definition addr_groups :: "bytes \<Rightarrow> nat list" where
  "addr_groups b = map (\<lambda>i. be_nat (slice (2 * i) (2 * i + 2) b)) [0..<8]"

definition groups_bytes :: "nat list \<Rightarrow> bytes" where
  "groups_bytes gs = concat (map (be_bytes 2) gs)"

definition is_4in6 :: "bytes \<Rightarrow> bool" where
  "is_4in6 b = (take 12 b = replicate 10 0 @ [0xFF, 0xFF])"

fun show_addr :: "Addr \<Rightarrow> string" where
  "show_addr AddrZero = ''invalid IP''"
| "show_addr (Addr4 b) = show_ipv4 b"
| "show_addr (Addr6 b) =
     (if is_4in6 b then ''::ffff:'' @ show_ipv4 (drop 12 b) else show_ipv6 (addr_groups b))"

definition addr_mark :: "char \<Rightarrow> bool" where
  "addr_mark c = (c = CHR ''.'' \<or> c = CHR '':'' \<or> c = CHR ''%'')"

definition ParseAddr :: "string \<Rightarrow> Addr option" where
  "ParseAddr s =
     (case find addr_mark s of
        None \<Rightarrow> None
      | Some c \<Rightarrow>
          if c = CHR ''.'' then map_option Addr4 (parse_ipv4 s)
          else if c = CHR '':'' \<and> CHR ''%'' \<notin> set s
          then map_option (\<lambda>gs. Addr6 (groups_bytes gs)) (parse_ipv6 s)
          else None)"

definition ParsePrefix :: "string \<Rightarrow> Prefix option" where
  "ParsePrefix s =
     (case last_cut CHR ''/'' s of
        None \<Rightarrow> None
      | Some (ip, bits) \<Rightarrow>
          (case ParseAddr ip of
             None \<Rightarrow> None
           | Some a \<Rightarrow>
               if length bits > 1 \<and> (hd bits = CHR ''0'' \<or> \<not> is_digit (hd bits)) then None
               else (case Atoi bits of
                       None \<Rightarrow> None
                     | Some n \<Rightarrow>
                         if n < 0 \<or> n > 8 * int (length (AsSlice a)) then None
                         else Some \<lparr>pAddr = a, pBits = nat n\<rparr>)))"

definition show_prefix :: "Prefix \<Rightarrow> string" where
  "show_prefix p = show_addr (pAddr p) @ CHR ''/'' # show_nat (pBits p)"

definition ParseAddrPort :: "string \<Rightarrow> (Addr \<times> u16) option" where
  "ParseAddrPort s =
     (case last_cut CHR '':'' s of
        None \<Rightarrow> None
      | Some (ip, port) \<Rightarrow>
          if ip = [] \<or> port = [] then None
          else
          let v6 = (hd ip = CHR ''['')
          in if v6 \<and> (length ip < 2 \<or> last ip \<noteq> CHR '']'') then None
             else
             (case ParseUint 16 port of
                None \<Rightarrow> None
              | Some p \<Rightarrow>
                  (case ParseAddr (if v6 then butlast (tl ip) else ip) of
                     None \<Rightarrow> None
                   | Some a \<Rightarrow>
                       if v6 = (case a of Addr6 _ \<Rightarrow> True | _ \<Rightarrow> False) then Some (a, of_nat p) else None)))"

fun show_addrport :: "Addr \<Rightarrow> u16 \<Rightarrow> string" where
  "show_addrport AddrZero p = ''invalid AddrPort''"
| "show_addrport (Addr4 b) p = show_addr (Addr4 b) @ CHR '':'' # show_nat (unat p)"
| "show_addrport (Addr6 b) p = CHR ''['' # show_addr (Addr6 b) @ CHR '']'' # CHR '':'' # show_nat (unat p)"

lemma groups_roundtrip:
  assumes "length b = 16"
  shows "groups_bytes (addr_groups b) = b"
proof -
  have two: "be_bytes 2 (be_nat (slice i (i + 2) b)) = slice i (i + 2) b" if "i + 2 \<le> 16" for i
    using be_bytes_be_nat [of "slice i (i + 2) b"] assms that by (simp add: length_slice)
  obtain x0 x1 x2 x3 x4 x5 x6 x7 x8 x9 xa xb xc xd xe xf where
    b: "b = [x0, x1, x2, x3, x4, x5, x6, x7, x8, x9, xa, xb, xc, xd, xe, xf]"
    using assms by (auto simp: numeral_eq_Suc length_Suc_conv)
  have "groups_bytes (addr_groups b) = concat (map (\<lambda>i. slice (2 * i) (2 * i + 2) b) [0..<8])"
    unfolding groups_bytes_def addr_groups_def map_map
    by (intro arg_cong [where f = concat] map_cong) (auto simp: two simp del: add_2_eq_Suc add_2_eq_Suc')
  also have "\<dots> = b" by (simp add: upt_rec slice_def b)
  finally show ?thesis .
qed

lemma addr_groups_ok: "length (addr_groups b) = 8" "list_all (\<lambda>g. g < 65536) (addr_groups b)"
proof -
  show "length (addr_groups b) = 8" by (simp add: addr_groups_def)
  have "be_nat (slice i (i + 2) b) < 256 ^ 2" for i
  proof (rule less_le_trans [OF be_nat_less])
    show "256 ^ length (slice i (i + 2) b) \<le> (256 :: nat) ^ 2"
      by (rule power_increasing) (simp_all add: length_slice)
  qed
  then show "list_all (\<lambda>g. g < 65536) (addr_groups b)" by (simp add: addr_groups_def list_all_iff)
qed

lemma set_join: "set (join_with c ws) \<subseteq> insert c (\<Union>w \<in> set ws. set w)"
  by (induction c ws rule: join_with.induct) auto

lemma show_ipv6_chars: "x \<in> set (show_ipv6 gs) \<Longrightarrow> is_hex x \<or> x = CHR '':''"
proof -
  have h: "x \<in> set (join_with CHR '':'' (map show_hex xs)) \<Longrightarrow> is_hex x \<or> x = CHR '':''" for xs
    using set_join [of "CHR '':''" "map show_hex xs"] show_hex_ok by (auto simp: list_all_iff)
  assume "x \<in> set (show_ipv6 gs)"
  then show ?thesis using h by (auto simp: show_ipv6_def split: prod.splits if_splits)
qed

lemma show_ipv6_colon: "length gs = 8 \<Longrightarrow> CHR '':'' \<in> set (show_ipv6 gs)"
proof -
  assume l: "length gs = 8"
  then obtain g h r where "gs = g # h # r" by (auto simp: numeral_eq_Suc length_Suc_conv)
  then have "CHR '':'' \<in> set (join_with CHR '':'' (map show_hex gs))" by (simp add: join_Cons)
  then show ?thesis by (cases "best_run gs") (auto simp: show_ipv6_def)
qed

lemma find_mark:
  "\<forall>x \<in> set s. x \<noteq> c \<longrightarrow> \<not> addr_mark x \<Longrightarrow> c \<in> set s \<Longrightarrow> addr_mark c \<Longrightarrow> find addr_mark s = Some c"
  by (induction s) auto

lemma show_ipv4_chars: "x \<in> set (show_ipv4 b) \<Longrightarrow> is_digit x \<or> x = CHR ''.''"
  using set_join [of "CHR ''.''" "map (show_nat \<circ> unat) b"] show_nat_ok
  by (fastforce simp: show_ipv4_def list_all_iff)

lemma show_ipv4_dot: "length b = 4 \<Longrightarrow> CHR ''.'' \<in> set (show_ipv4 b)"
  by (auto simp: show_ipv4_def numeral_eq_Suc length_Suc_conv)

lemma digit_hex: "is_digit c \<Longrightarrow> is_hex c"
  by (simp add: is_digit_def is_hex_def hex_digit_def)

lemma show_nat_length: "n < 10 ^ k \<Longrightarrow> 0 < k \<Longrightarrow> length (show_nat n) \<le> k"
proof (induction n arbitrary: k rule: show_nat.induct)
  case (1 n)
  show ?case
  proof (cases "n < 10")
    case True
    then show ?thesis using 1(3) by (simp add: show_nat.simps)
  next
    case False
    then obtain j where k: "k = Suc j" "0 < j" using 1(2,3) by (cases k; cases "k - 1") auto
    then have "n div 10 < 10 ^ j" using 1(2) by (simp add: less_mult_imp_div_less mult.commute)
    then show ?thesis using 1(1) [OF False _ k(2)] False k(1) by (simp add: show_nat.simps [of n])
  qed
qed

lemma p6_dotted:
  assumes "length b = 4" "length acc + 2 \<le> 8"
  shows "p6 (Suc n) (show_ipv4 b) acc (Some e) = Some ([], acc @ [be_nat (take 2 b), be_nat (drop 2 b)], Some e)"
proof -
  obtain w rest where b: "b = w # rest" "rest \<noteq> []" using assms(1) by (cases b; cases "tl b") auto
  have s: "show_ipv4 b = show_nat (unat w) @ CHR ''.'' # join_with CHR ''.'' (map (show_nat \<circ> unat) rest)"
    using b by (simp add: show_ipv4_def join_Cons)
  have h: "\<forall>x \<in> set (show_nat (unat w)). is_hex x" using show_nat_ok digit_hex by (auto simp: list_all_iff)
  have d: "\<not> is_hex CHR ''.''" using hex_not by blast
  have tw: "takeWhile is_hex (show_ipv4 b) = show_nat (unat w)"
    "dropWhile is_hex (show_ipv4 b) = CHR ''.'' # join_with CHR ''.'' (map (show_nat \<circ> unat) rest)"
    unfolding s using h d by (simp_all add: takeWhile_append2 dropWhile_append2)
  have "unat w < 10 ^ 3" using less_trans [OF unat_byte_less, of 1000 w] by simp
  then have "length (show_nat (unat w)) \<le> 3" by (rule show_nat_length) simp
  then show ?thesis using tw show_nat_ok [of "unat w"] parse_show_ipv4 [OF assms(1)] assms(2) by simp
qed

lemma mapped_groups:
  assumes "length b = 16" "is_4in6 b"
  shows "addr_groups b = replicate 5 0 @ [65535, be_nat (take 2 (drop 12 b)), be_nat (drop 2 (drop 12 b))]"
proof -
  have b: "b = (replicate 10 0 @ [0xFF, 0xFF]) @ drop 12 b"
    using assms(2) append_take_drop_id [of 12 b] unfolding is_4in6_def by metis
  have "length (drop 12 b) = Suc (Suc (Suc (Suc 0)))" using assms(1) by simp
  then obtain w x y z where d: "drop 12 b = [w, x, y, z]" by (auto simp only: length_Suc_conv length_0_conv)
  have e: "b = [0, 0, 0, 0, 0, 0, 0, 0, 0, 0, 0xFF, 0xFF, w, x, y, z]"
    using b unfolding d by (simp add: eval_nat_numeral)
  show ?thesis by (simp add: e addr_groups_def upt_rec slice_def) (simp add: eval_nat_numeral(1-3))
qed

lemma parse_show_addr:
  assumes "addr_ok a"
  shows "ParseAddr (show_addr a) = Some a"
proof (cases a)
  case AddrZero
  then show ?thesis using assms by simp
next
  case (Addr4 b)
  then have l: "length b = 4" using assms by simp
  have "find addr_mark (show_ipv4 b) = Some CHR ''.''"
    by (rule find_mark) (use show_ipv4_chars [of _ b] show_ipv4_dot [OF l] digit_hex hex_not in \<open>auto simp: addr_mark_def\<close>)
  then show ?thesis using parse_show_ipv4 [OF l] Addr4 by (simp add: ParseAddr_def)
next
  case (Addr6 b)
  then have l: "length b = 16" using assms by simp
  show ?thesis
  proof (cases "is_4in6 b")
    case False
    let ?s = "show_ipv6 (addr_groups b)"
    have "find addr_mark ?s = Some CHR '':''"
      by (rule find_mark) (use show_ipv6_chars [of _ "addr_groups b"] show_ipv6_colon [OF addr_groups_ok(1)] hex_not in \<open>auto simp: addr_mark_def\<close>)
    moreover have "CHR ''%'' \<notin> set ?s" using show_ipv6_chars [of "CHR ''%''" "addr_groups b"] hex_not by auto
    ultimately show ?thesis using parse_show_ipv6 [OF addr_groups_ok, of b] groups_roundtrip [OF l] Addr6 False
      by (simp add: ParseAddr_def)
  next
    case True
    let ?v = "show_ipv4 (drop 12 b)"
    have l4: "length (drop 12 b) = 4" using l by simp
    have "CHR ''%'' \<notin> set ?v" using show_ipv4_chars [of "CHR ''%''" "drop 12 b"] by (auto simp: is_digit_def)
    moreover have "parse_ipv6 (''::ffff:'' @ ?v) = Some (addr_groups b)"
    proof -
      have f: "show_hex 65535 = ''ffff''" by (simp add: show_hex.simps hex_char_def) code_simp
      have ne: "?v \<noteq> []" using show_ipv4_dot [OF l4] by auto
      have hd: "hd ?v \<noteq> CHR '':''"
        using show_ipv4_chars [of "hd ?v" "drop 12 b"] ne by (auto simp: is_digit_def)
      have "p6 (Suc 7) (show_hex 65535 @ CHR '':'' # ?v) [] (Some 0) = p6 (Suc 6) ?v ([] @ [65535]) (Some 0)"
        using p6_hex(2) [OF _ ne hd, of 65535 7 "[]" "Some 0"] by simp
      also have "\<dots> = Some ([], [65535] @ [be_nat (take 2 (drop 12 b)), be_nat (drop 2 (drop 12 b))], Some 0)"
        using p6_dotted [OF l4, of "[65535]" 6 0] by simp
      finally show ?thesis using mapped_groups [OF l True] by (simp add: parse_ipv6_def f)
    qed
    ultimately show ?thesis using True Addr6 groups_roundtrip [OF l]
      by (simp add: ParseAddr_def addr_mark_def)
  qed
qed

lemma parse_show_prefix:
  assumes "prefix_ok p"
  shows "ParsePrefix (show_prefix p) = Some p"
proof -
  have n: "pBits p \<le> 8 * length (AsSlice (pAddr p))" "addr_ok (pAddr p)" using assms by (auto simp: prefix_ok_def)
  then have "pBits p \<le> 128" by (cases "pAddr p") auto
  then have a: "Atoi (show_nat (pBits p)) = Some (int (pBits p))" by (intro Atoi_show) simp
  have h: "\<not> (length (show_nat (pBits p)) > 1 \<and> (hd (show_nat (pBits p)) = CHR ''0'' \<or> \<not> is_digit (hd (show_nat (pBits p)))))"
  proof -
    have "is_digit (hd (show_nat (pBits p)))" using show_nat_ok [of "pBits p"] by (cases "show_nat (pBits p)") auto
    then show ?thesis using show_nat_head [of "pBits p"] by (cases "pBits p = 0") (auto simp: show_nat.simps [of 0])
  qed
  show ?thesis unfolding ParsePrefix_def show_prefix_def last_cut_append [OF show_nat_free(2)]
    using parse_show_addr [OF n(2)] a h n(1) by simp
qed

lemma parse_show_addrport:
  assumes "addr_ok a"
  shows "ParseAddrPort (show_addrport a p) = Some (a, p)"
proof -
  have u: "ParseUint 16 (show_nat (unat p)) = Some (unat p)" using unsigned_less [of p] by (intro ParseUint_show) simp
  note cut = last_cut_append [OF show_nat_free(5)]
  show ?thesis
  proof (cases a)
    case (Addr4 b)
    then have l: "length b = 4" using assms by simp
    have ne: "show_ipv4 b \<noteq> []" using show_ipv4_dot [OF l] by auto
    have "hd (show_ipv4 b) \<noteq> CHR ''[''" using show_ipv4_chars [of "hd (show_ipv4 b)" b] ne by (auto simp: is_digit_def)
    then show ?thesis using Addr4 parse_show_addr [OF assms] u ne show_nat_ok [of "unat p"]
      by (simp add: ParseAddrPort_def cut)
  next
    case (Addr6 b)
    let ?ip = "CHR ''['' # show_addr a @ '']''"
    have s: "show_addrport a p = ?ip @ CHR '':'' # show_nat (unat p)" using Addr6 by simp
    have c: "last_cut CHR '':'' (show_addrport a p) = Some (?ip, show_nat (unat p))" unfolding s by (rule cut)
    show ?thesis using Addr6 parse_show_addr [OF assms] u show_nat_ok [of "unat p"]
      unfolding ParseAddrPort_def c by (simp del: show_addr.simps add: butlast_append)
  qed (use assms in simp)
qed

end
