(* ===== verification/Transport.thy ===== *)
theory Transport
  imports Send_Lemmas Receive
begin

text \<open>
  The data path from the outbound queue of one device to the TUN device of another: framing,
  encryption, dispatch, decryption, replay check and the cut to the length of the IP packet.
\<close>

section \<open>Framing\<close>

definition wire_packet :: "Crypto \<Rightarrow> Keypair \<Rightarrow> int \<Rightarrow> u64 \<Rightarrow> bytes \<Rightarrow> bytes" where
  "wire_packet C kp mtu n pkt =
     put_u32 MessageTransportType @ put_u32 (kp_remoteIndex kp) @ put_u64 n @
     aeadSeal C (kp_send kp) (transport_nonce n)
       (pkt @ replicate (nat (calculatePaddingSize (int (length pkt)) mtu)) 0) []"

lemma those_map_Some: "(\<And>x. x \<in> set xs \<Longrightarrow> f x = Some (g x)) \<Longrightarrow> those (map f xs) = Some (map g xs)"
  by (induction xs) auto

lemma encrypt_elem_ok:
  assumes "oe_keypair e = Some k" "0 \<le> d_mtu d"
  shows "encrypt_elem C d e = Some (e\<lparr>oe_packet :=
    wire_packet C (kp_heap d k) (d_mtu d) (oe_nonce e) (oe_packet e)\<rparr>)"
  using assms calculatePaddingSize_range [of "int (length (oe_packet e))" "d_mtu d"]
  by (simp add: encrypt_elem_def wire_packet_def Let_def PaddingMultiple_def)

lemma le_nat_4: "le_nat [4, 0, 0, 0] = 4"
  by (simp add: le_nat_def)

lemma put_u32_4: "put_u32 4 = [4, 0, 0, 0]"
proof -
  have "length [4, 0, 0, 0 :: byte] = 4" by simp
  then have "le_bytes 4 4 = [4, 0, 0, 0]" using le_bytes_le_nat [of "[4, 0, 0, 0]"] unfolding le_nat_4 by metis
  then show ?thesis by (simp add: put_u32_def)
qed

lemma get_u32_type: "get_u32 0 (4 # 0 # 0 # 0 # xs) = 4"
  by (simp add: get_u32_def slice_def le_nat_4)

lemma wire_packet_fields:
  assumes "crypto_ok C"
  shows "length (wire_packet C kp mtu n pkt) \<ge> MessageTransportSize"
    "get_u32 0 (wire_packet C kp mtu n pkt) = MessageTransportType"
    "get_u32 MessageTransportOffsetReceiver (wire_packet C kp mtu n pkt) = kp_remoteIndex kp"
    "get_u64 MessageTransportOffsetCounter (wire_packet C kp mtu n pkt) = n"
    "drop MessageTransportOffsetContent (wire_packet C kp mtu n pkt) = aeadSeal C (kp_send kp) (transport_nonce n)
       (pkt @ replicate (nat (calculatePaddingSize (int (length pkt)) mtu)) 0) []"
    "clear_reserved (wire_packet C kp mtu n pkt) = wire_packet C kp mtu n pkt"
proof -
  let ?w = "wire_packet C kp mtu n pkt"
  show "length ?w \<ge> MessageTransportSize"
    by (simp add: wire_packet_def crypto_okD(6) [OF assms] message_sizes)
  show "get_u32 0 ?w = MessageTransportType"
    by (simp add: wire_packet_def message_types put_u32_4 get_u32_type)
  show "get_u32 MessageTransportOffsetReceiver ?w = kp_remoteIndex kp"
    "get_u64 MessageTransportOffsetCounter ?w = n"
    "drop MessageTransportOffsetContent ?w = aeadSeal C (kp_send kp) (transport_nonce n)
       (pkt @ replicate (nat (calculatePaddingSize (int (length pkt)) mtu)) 0) []"
    by (simp_all add: wire_packet_def get_u32_def get_u64_def slice_def message_sizes get_put_u32 get_put_u64)
  show "clear_reserved ?w = ?w"
    by (simp add: wire_packet_def message_types put_u32_4 clear_reserved_def)
qed

section \<open>Arrival\<close>

text \<open>The receiver knows the session: its index leads to the keypair and a running peer.\<close>

definition knows_session :: "Env \<Rightarrow> u32 \<Rightarrow> nat \<Rightarrow> nat \<Rightarrow> Device \<Rightarrow> bool" where
  "knows_session E i q k d =
     (it_peer (idx_Lookup i (d_indexTable d)) = Some q \<and> it_keypair (idx_Lookup i (d_indexTable d)) = Some k \<and>
      \<not> kp_created (kp_heap d k) + RejectAfterTime < e_clock E At_Expiry)"

lemma dispatch_wire:
  assumes "crypto_ok C" "length r = 3" "knows_session E (kp_remoteIndex kp) q k d"
  shows "dispatch E (put_reserved r (wire_packet C kp mtu n pkt)) ep d =
    Some (ToDecryption q \<lparr>ie_packet = Some (wire_packet C kp mtu n pkt), ie_counter = 0, ie_keypair = k, ie_endpoint = ep\<rparr>)"
proof -
  let ?w = "wire_packet C kp mtu n pkt"
  have len: "length (put_reserved r ?w) = length ?w" using assms(2) by simp
  have clr: "clear_reserved (put_reserved r ?w) = ?w"
    using clear_put_reserved [OF assms(2)] wire_packet_fields(6) [OF assms(1)] by simp
  show ?thesis using assms(3) wire_packet_fields(1) [OF assms(1), of kp mtu n pkt]
    unfolding dispatch_def Let_def len clr
    by (simp add: wire_packet_fields(2-4) [OF assms(1)] knows_session_def MinMessageSize_def MessageKeepaliveSize_def)
qed

lemma decrypt_wire:
  assumes "crypto_ok C" "kp_receive (kp_heap d k) = kp_send kp"
  shows "decrypt_elem C d \<lparr>ie_packet = Some (wire_packet C kp mtu n pkt), ie_counter = c, ie_keypair = k, ie_endpoint = ep\<rparr> =
    Some \<lparr>ie_packet = Some (pkt @ replicate (nat (calculatePaddingSize (int (length pkt)) mtu)) 0),
      ie_counter = n, ie_keypair = k, ie_endpoint = ep\<rparr>"
proof -
  have "length (wire_packet C kp mtu n pkt) \<ge> MessageTransportOffsetContent"
    using wire_packet_fields(1) [OF assms(1), of kp mtu n pkt] by (simp add: message_sizes)
  then show ?thesis
    by (simp add: decrypt_elem_def Let_def wire_packet_fields(4,5) [OF assms(1)] assms(2) crypto_okD(7) [OF assms(1)])
qed

text \<open>An IP packet whose header gives its length and whose source address is routed to the peer.\<close>

definition from_peer :: "nat \<Rightarrow> Device \<Rightarrow> bytes \<Rightarrow> bool" where
  "from_peer q d pkt =
     (pkt \<noteq> [] \<and>
      (if ip_version pkt = 4
       then length pkt \<ge> 20 \<and> be_nat (slice 2 4 pkt) = length pkt \<and>
            Lookup (slice 12 16 pkt) (d_allowedips d) = Some (Some q)
       else ip_version pkt = 6 \<and> length pkt \<ge> 40 \<and> length pkt < 2 ^ 16 \<and>
            be_nat (slice 4 6 pkt) + 40 = length pkt \<and>
            Lookup (slice 8 24 pkt) (d_allowedips d) = Some (Some q)))"

lemma slice_append1: "j \<le> length xs \<Longrightarrow> slice i j (xs @ ys) = slice i j xs"
  by (auto simp: slice_def)

lemma inbound_payload_padded:
  assumes "from_peer q d pkt"
  shows "inbound_payload q (pkt @ replicate z 0) d = Some (Some pkt)"
proof -
  have v: "ip_version (pkt @ replicate z 0) = ip_version pkt"
    using assms by (auto simp: ip_version_def nth_append from_peer_def)
  show ?thesis
  proof (cases "ip_version pkt = 4")
    case True
    then show ?thesis using assms
      by (simp add: inbound_payload_def v from_peer_def ip_layout slice_append1 Let_def)
  next
    case False
    have n: "be_nat (slice 4 6 pkt) + 40 = length pkt" "length pkt < 2 ^ 16" "40 \<le> length pkt"
      using False assms by (auto simp: from_peer_def)
    have "unat ((of_nat (be_nat (slice 4 6 pkt)) :: u16) + 40) = length pkt"
    proof -
      have "(of_nat (be_nat (slice 4 6 pkt)) :: u16) + 40 = of_nat (length pkt)"
        unfolding n(1) [symmetric] by simp
      then show ?thesis using n(2) by (simp add: unat_of_nat take_bit_eq_mod)
    qed
    then show ?thesis using False assms
      by (simp add: inbound_payload_def v from_peer_def ip_layout slice_append1 Let_def)
  qed
qed

section \<open>What receiving leaves alone\<close>

definition data_frame :: "Device \<Rightarrow> Device \<Rightarrow> bool" where
  "data_frame d d' =
     (d_allowedips d' = d_allowedips d \<and> tun_out d' = tun_out d \<and>
      (\<forall>q. p_inbound (peer_heap d' q) = p_inbound (peer_heap d q)) \<and>
      (\<forall>k. kp_heap d' k = (kp_heap d k)\<lparr>kp_sendNonce := kp_sendNonce (kp_heap d' k)\<rparr>))"

lemma data_frame_refl [simp]: "data_frame d d"
  by (simp add: data_frame_def)

lemma data_frame_trans [trans]: "data_frame a b \<Longrightarrow> data_frame b c \<Longrightarrow> data_frame a c"
  unfolding data_frame_def by (metis (no_types, lifting) Keypair.update_convs(1) Keypair.surjective)

lemma data_frame_filter:
  assumes "data_frame d d'"
  shows "kp_replayFilter (kp_heap d' k) = kp_replayFilter (kp_heap d k)"
proof -
  have "kp_heap d' k = (kp_heap d k)\<lparr>kp_sendNonce := kp_sendNonce (kp_heap d' k)\<rparr>"
    using assms unfolding data_frame_def by blast
  then show ?thesis by (metis Keypair.ext_inject Keypair.surjective Keypair.update_convs(1))
qed

lemma data_frameD:
  assumes "data_frame d d'"
  shows "d_allowedips d' = d_allowedips d" "tun_out d' = tun_out d"
    "p_inbound (peer_heap d' q) = p_inbound (peer_heap d q)"
  using assms by (simp_all add: data_frame_def)

lemma same_data_data_frame: "same_data d d' \<Longrightarrow> data_frame d d'"
  by (simp add: data_frame_def same_data_def)

lemma data_frame_upd_peer:
  assumes "\<And>x. p_inbound (f x) = p_inbound x"
  shows "data_frame d (upd_peer p f d)"
  using assms by (simp add: data_frame_def)

lemma data_frame_nonce: "data_frame d (upd_kp k (\<lambda>x. x\<lparr>kp_sendNonce := n\<rparr>) d)"
  by (simp add: data_frame_def upd_kp_def)

lemma data_frame_SetEndpoint: "data_frame d (SetEndpointFromPacket p ep d)"
  by (simp add: SetEndpointFromPacket_def data_frame_upd_peer)

lemma data_frame_pass: "staged_pass p k cs d = (b, d') \<Longrightarrow> data_frame d d'"
proof (induction cs arbitrary: d)
  case (Cons c cs)
  obtain n kept ooo where a: "assign_nonces k c (kp_sendNonce (kp_heap d k)) = (n, kept, ooo)"
    by (metis prod.exhaust)
  define d1 where "d1 = upd_kp k (\<lambda>x. x\<lparr>kp_sendNonce := n\<rparr>) (upd_peer p (\<lambda>x. x\<lparr>p_staged := cs\<rparr>) d)"
  define d2 where "d2 = (if ooo \<noteq> [] then StagePackets p ooo d1 else d1)"
  define d3 where "d3 = (if p_isRunning (peer_heap d2 p)
    then upd_peer p (\<lambda>x. x\<lparr>p_outbound := p_outbound x @ [\<lparr>oc_locked = True, oc_elems = kept\<rparr>]\<rparr>) d2 else d2)"
  have "data_frame d (upd_peer p (\<lambda>x. x\<lparr>p_staged := cs\<rparr>) d)" by (simp add: data_frame_upd_peer)
  also have "data_frame \<dots> d1" unfolding d1_def by (rule data_frame_nonce)
  also have "data_frame d1 d2" by (simp add: d2_def StagePackets_def data_frame_upd_peer)
  finally have 2: "data_frame d d2" .
  have 3: "data_frame d2 d3" by (simp add: d3_def data_frame_upd_peer)
  have "d' = d2 \<or> d' = d3 \<or> staged_pass p k cs d3 = (b, d')"
    using Cons.prems unfolding staged_pass.simps Let_def a prod.case d1_def [symmetric] d2_def [symmetric]
      d3_def [symmetric] by (auto split: if_splits)
  then show ?case using Cons.IH [of d3] 2 3 data_frame_trans by blast
qed simp

lemma data_frame_initiation: "SendHandshakeInitiation C E r p d = Some (e, d') \<Longrightarrow> data_frame d d'"
  by (rule same_data_data_frame [OF same_data_initiation])

lemma data_frame_staged_top: "staged_top f C E p d = Some d' \<Longrightarrow> data_frame d d'"
proof (induction f arbitrary: d)
  case (Suc f)
  consider "d' = d" | e where "SendHandshakeInitiation C E False p d = Some (e, d')"
    | k b d1 where "staged_pass p k (p_staged (peer_heap d p)) d = (b, d1)" "d' = d1 \<or> staged_top f C E p d1 = Some d'"
    using Suc.prems by (auto split: if_splits option.splits prod.splits bool.splits)
  then show ?case
    by cases (use Suc.IH data_frame_pass data_frame_trans data_frame_initiation in \<open>auto, blast+\<close>)
qed simp

lemma data_frame_SendStaged: "SendStagedPackets C E p d = Some d' \<Longrightarrow> data_frame d d'"
  unfolding SendStagedPackets_def by (rule data_frame_staged_top)

lemma tun_out_DeleteKeypair [simp]: "tun_out (DeleteKeypair k d) = tun_out d"
  by (simp add: DeleteKeypair_def split: option.split)

lemma data_frame_received: "ReceivedWithKeypair p k d = (b, d') \<Longrightarrow> data_frame d d'"
  by (auto simp: ReceivedWithKeypair_def Let_def data_frame_def upd_kps_def split: if_splits)

lemma data_frame_confirm:
  assumes "confirm_keypair C E p e d = Some d'"
  shows "data_frame d d'"
proof -
  obtain b d1 where r: "ReceivedWithKeypair p (ie_keypair e) d = (b, d1)" by fastforce
  have 1: "data_frame d d1" by (rule data_frame_received [OF r])
  show ?thesis
  proof (cases b)
    case True
    let ?d3 = "timersHandshakeComplete E p (SetEndpointFromPacket p (ie_endpoint e) d1)"
    have "SendStagedPackets C E p ?d3 = Some d'" using assms r True by (simp add: confirm_keypair_def)
    from data_frame_SendStaged [OF this] have 3: "data_frame ?d3 d'" .
    note 1
    also have "data_frame d1 (SetEndpointFromPacket p (ie_endpoint e) d1)" by (rule data_frame_SetEndpoint)
    also have "data_frame \<dots> ?d3" by (rule same_data_data_frame) simp
    also note 3
    finally show ?thesis .
  next
    case False
    then show ?thesis using assms r 1 by (simp add: confirm_keypair_def)
  qed
qed

section \<open>The sequential receiver\<close>

text \<open>The filter of a keypair has accepted only counters below \<open>n\<close>.\<close>

definition below :: "nat \<Rightarrow> nat \<Rightarrow> Device \<Rightarrow> bool" where
  "below n k d =
     (\<exists>S. filter_rel (kp_replayFilter (kp_heap d k)) S \<and> (\<forall>c \<in> S. unat c < n) \<and>
        unat (last_ctr (kp_replayFilter (kp_heap d k))) \<le> n)"

lemma below_accepts:
  assumes "below n k d" "n < reject_nat"
  obtains flt where "ValidateCounter (kp_replayFilter (kp_heap d k)) (of_nat n) RejectAfterMessages = (True, flt)"
    "below (Suc n) k (upd_kp k (\<lambda>x. x\<lparr>kp_replayFilter := flt\<rparr>) d)"
proof -
  let ?f = "kp_replayFilter (kp_heap d k)" and ?c = "of_nat n :: u64"
  obtain S where S: "filter_rel ?f S" "\<forall>c \<in> S. unat c < n" "unat (last_ctr ?f) \<le> n"
    using assms(1) by (auto simp: below_def)
  have c: "unat ?c = n" using assms(2) by (simp add: unat_of_nat take_bit_eq_mod reject_nat_def)
  have lt: "?c < RejectAfterMessages" using c assms(2) by (simp add: nonce_lt_iff)
  have w: "in_window (last_ctr ?f) ?c"
    using S(3) c by (auto simp: in_window_def word_less_nat_alt)
  have new: "?c \<notin> S" using S(2) c by auto
  obtain f' where f': "ValidateCounter ?f ?c RejectAfterMessages = (True, f')" "filter_rel f' (insert ?c S)"
    "last_ctr f' = max (last_ctr ?f) ?c"
    using ValidateCounter_rel [OF S(1), of ?c RejectAfterMessages] lt w new by auto
  have "unat (last_ctr f') \<le> Suc n" using f'(3) S(3) c by (simp add: max_def)
  then have "below (Suc n) k (upd_kp k (\<lambda>x. x\<lparr>kp_replayFilter := f'\<rparr>) d)"
    unfolding below_def using f'(2) S(2) c by (intro exI [of _ "insert ?c S"]) (auto simp: upd_kp_def)
  then show ?thesis using f'(1) that by blast
qed

lemma below_frame: "below n k d \<Longrightarrow> data_frame d d' \<Longrightarrow> below n k d'"
  by (simp add: below_def data_frame_filter)

lemma from_peer_cong: "d_allowedips d' = d_allowedips d \<Longrightarrow> from_peer q d' = from_peer q d"
  by (simp add: from_peer_def fun_eq_iff)

text \<open>A packet that decryption delivers: the IP packet or nothing, followed by padding.\<close>

definition opened :: "nat \<Rightarrow> Endpoint \<Rightarrow> int \<Rightarrow> nat \<Rightarrow> bytes \<Rightarrow> QueueInboundElement" where
  "opened k ep mtu n pkt =
     \<lparr>ie_packet = Some (pkt @ replicate (nat (calculatePaddingSize (int (length pkt)) mtu)) 0),
      ie_counter = of_nat n, ie_keypair = k, ie_endpoint = ep\<rparr>"

lemma padding_of_empty: "0 \<le> mtu \<Longrightarrow> calculatePaddingSize 0 mtu = 0"
  using padding_cases [of 0 mtu] by (auto split: if_splits)

lemma receive_elem_opened:
  assumes "receive_elem C E q (opened k ep mtu n pkt) s = Some s'" "0 \<le> mtu" "n < reject_nat"
    "below n k (rs_dev s)" "pkt \<noteq> [] \<longrightarrow> from_peer q (rs_dev s) pkt"
  shows "rs_bufs s' = rs_bufs s @ filter (\<lambda>x. x \<noteq> []) [pkt]" "below (Suc n) k (rs_dev s')"
    "d_allowedips (rs_dev s') = d_allowedips (rs_dev s)" "tun_out (rs_dev s') = tun_out (rs_dev s)"
proof -
  obtain flt where f: "ValidateCounter (kp_replayFilter (kp_heap (rs_dev s) k)) (of_nat n) RejectAfterMessages = (True, flt)"
    "below (Suc n) k (upd_kp k (\<lambda>x. x\<lparr>kp_replayFilter := flt\<rparr>) (rs_dev s))"
    using below_accepts [OF assms(4,3)] by metis
  define d1 where "d1 = upd_kp k (\<lambda>x. x\<lparr>kp_replayFilter := flt\<rparr>) (rs_dev s)"
  have 1: "d_allowedips d1 = d_allowedips (rs_dev s)" "tun_out d1 = tun_out (rs_dev s)"
    by (simp_all add: d1_def upd_kp_def)
  let ?e = "opened k ep mtu n pkt" and ?z = "nat (calculatePaddingSize (int (length pkt)) mtu)"
  obtain d2 where d2: "confirm_keypair C E q ?e d1 = Some d2"
    using assms(1) f(1) by (auto simp: receive_elem_def opened_def d1_def elim!: bind_SomeE)
  have fr: "data_frame d1 d2" by (rule data_frame_confirm [OF d2])
  have z: "pkt = [] \<Longrightarrow> ?z = 0" using padding_of_empty [OF assms(2)] by simp
  have pay: "pkt \<noteq> [] \<Longrightarrow> inbound_payload q (pkt @ replicate ?z 0) d2 = Some (Some pkt)"
    using assms(5) from_peer_cong [of d2 "rs_dev s" q] data_frameD(1) [OF fr] 1(1)
    by (intro inbound_payload_padded) simp
  have s': "rs_bufs s' = rs_bufs s @ filter (\<lambda>x. x \<noteq> []) [pkt] \<and> rs_dev s' = d2"
    using assms(1) f(1) d2 z pay
    by (auto simp: receive_elem_def opened_def d1_def Let_def split: if_splits)
  then show "rs_bufs s' = rs_bufs s @ filter (\<lambda>x. x \<noteq> []) [pkt]" by blast
  show "below (Suc n) k (rs_dev s')"
    using below_frame [OF f(2) [folded d1_def] fr] s' by simp
  show "d_allowedips (rs_dev s') = d_allowedips (rs_dev s)" "tun_out (rs_dev s') = tun_out (rs_dev s)"
    using s' 1 data_frameD [OF fr] by simp_all
qed

fun opened_run :: "nat \<Rightarrow> Endpoint \<Rightarrow> int \<Rightarrow> nat \<Rightarrow> bytes list \<Rightarrow> QueueInboundElement list" where
  "opened_run k ep mtu n [] = []"
| "opened_run k ep mtu n (pkt # ps) = opened k ep mtu n pkt # opened_run k ep mtu (Suc n) ps"

lemma receive_elems_opened:
  assumes "receive_elems C E q (opened_run k ep mtu n ps) s = Some s'" "0 \<le> mtu" "n + length ps \<le> reject_nat"
    "below n k (rs_dev s)" "\<forall>pkt \<in> set ps. pkt \<noteq> [] \<longrightarrow> from_peer q (rs_dev s) pkt"
  shows "rs_bufs s' = rs_bufs s @ filter (\<lambda>x. x \<noteq> []) ps \<and> tun_out (rs_dev s') = tun_out (rs_dev s)"
  using assms
proof (induction ps arbitrary: n s)
  case (Cons pkt ps)
  obtain s1 where s1: "receive_elem C E q (opened k ep mtu n pkt) s = Some s1"
    "receive_elems C E q (opened_run k ep mtu (Suc n) ps) s1 = Some s'"
    using Cons.prems(1) by (auto elim: bind_SomeE)
  note r = receive_elem_opened [OF s1(1) Cons.prems(2)]
  have 1: "rs_bufs s1 = rs_bufs s @ filter (\<lambda>x. x \<noteq> []) [pkt]" "below (Suc n) k (rs_dev s1)"
    "d_allowedips (rs_dev s1) = d_allowedips (rs_dev s)" "tun_out (rs_dev s1) = tun_out (rs_dev s)"
    using r Cons.prems(3-5) by simp_all
  then have "\<forall>pkt \<in> set ps. pkt \<noteq> [] \<longrightarrow> from_peer q (rs_dev s1) pkt"
    using Cons.prems(5) from_peer_cong [of "rs_dev s1" "rs_dev s" q] by simp
  then show ?case using Cons.IH [OF s1(2) Cons.prems(2) _ 1(2)] Cons.prems(3) 1 by simp
qed simp

text \<open>
  A peer that has nothing staged and whose keypairs need no last-minute handshake receives
  without starting one.
\<close>

definition quiet :: "Env \<Rightarrow> nat \<Rightarrow> nat \<Rightarrow> Device \<Rightarrow> bool" where
  "quiet E q k d =
     (p_staged (peer_heap d q) = [] \<and>
      (\<forall>j. j = k \<or> kps_current (kps_of d q) = Some j \<longrightarrow>
         \<not> (kp_isInitiator (kp_heap d j) \<and> time_Sub (e_clock E At_LastMinute) (kp_created (kp_heap d j)) >
              RejectAfterTime - KeepaliveTimeout - RekeyTimeout)))"

lemma quiet_same_data: "same_data d d' \<Longrightarrow> quiet E q k d \<Longrightarrow> quiet E q k d'"
  by (simp add: quiet_def same_dataD)

lemma quiet_confirm:
  assumes "quiet E q (ie_keypair e) d"
  shows "\<exists>d'. confirm_keypair C E q e d = Some d' \<and> quiet E q (ie_keypair e) d'"
proof -
  let ?k = "ie_keypair e"
  obtain b d1 where r: "ReceivedWithKeypair q ?k d = (b, d1)" by fastforce
  have 1: "kp_heap d1 = kp_heap d" "p_staged (peer_heap d1 q) = []"
    "kps_current (kps_of d1 q) = kps_current (kps_of d q) \<or> kps_current (kps_of d1 q) = Some ?k"
    using r assms by (auto simp: ReceivedWithKeypair_def Let_def quiet_def split: if_splits)
  then have q1: "quiet E q ?k d1" using assms by (auto simp: quiet_def)
  show ?thesis
  proof (cases b)
    case False
    then show ?thesis using r q1 by (simp add: confirm_keypair_def)
  next
    case True
    let ?d2 = "SetEndpointFromPacket q (ie_endpoint e) d1"
    have q2: "quiet E q ?k ?d2" using q1 by (auto simp: quiet_def SetEndpointFromPacket_def)
    have "quiet E q ?k (timersHandshakeComplete E q ?d2)" using quiet_same_data [OF same_data_hooks(8) q2] .
    moreover from this have "SendStagedPackets C E q (timersHandshakeComplete E q ?d2) =
        Some (timersHandshakeComplete E q ?d2)"
      by (simp add: quiet_def SendStagedPackets_def numeral_2_eq_2)
    ultimately show ?thesis using r True by (simp add: confirm_keypair_def)
  qed
qed

lemma receive_elem_total:
  assumes "0 \<le> mtu" "n < reject_nat" "below n k (rs_dev s)" "pkt \<noteq> [] \<longrightarrow> from_peer q (rs_dev s) pkt"
    "quiet E q k (rs_dev s)"
  shows "\<exists>s'. receive_elem C E q (opened k ep mtu n pkt) s = Some s' \<and> quiet E q k (rs_dev s')"
proof -
  obtain flt where f: "ValidateCounter (kp_replayFilter (kp_heap (rs_dev s) k)) (of_nat n) RejectAfterMessages = (True, flt)"
    using below_accepts [OF assms(3,2)] by metis
  define d1 where "d1 = upd_kp k (\<lambda>x. x\<lparr>kp_replayFilter := flt\<rparr>) (rs_dev s)"
  let ?e = "opened k ep mtu n pkt" and ?z = "nat (calculatePaddingSize (int (length pkt)) mtu)"
  have "quiet E q (ie_keypair ?e) d1" using assms(5) by (auto simp: quiet_def d1_def upd_kp_def opened_def)
  from quiet_confirm [OF this] obtain d2 where d2: "confirm_keypair C E q ?e d1 = Some d2" "quiet E q k d2"
    by (auto simp: opened_def)
  have a: "d_allowedips d2 = d_allowedips (rs_dev s)"
    using data_frameD(1) [OF data_frame_confirm [OF d2(1)]] by (simp add: d1_def upd_kp_def)
  have z: "pkt = [] \<Longrightarrow> ?z = 0" using padding_of_empty [OF assms(1)] by simp
  have pay: "pkt \<noteq> [] \<Longrightarrow> inbound_payload q (pkt @ replicate ?z 0) d2 = Some (Some pkt)"
    using assms(4) from_peer_cong [of d2 "rs_dev s" q] a by (intro inbound_payload_padded) simp
  show ?thesis using f d2 z pay by (auto simp: receive_elem_def opened_def d1_def Let_def)
qed

lemma receive_elems_total:
  assumes "0 \<le> mtu" "n + length ps \<le> reject_nat" "below n k (rs_dev s)"
    "\<forall>pkt \<in> set ps. pkt \<noteq> [] \<longrightarrow> from_peer q (rs_dev s) pkt" "quiet E q k (rs_dev s)"
  shows "\<exists>s'. receive_elems C E q (opened_run k ep mtu n ps) s = Some s' \<and> quiet E q k (rs_dev s')"
  using assms
proof (induction ps arbitrary: n s)
  case (Cons pkt ps)
  obtain s1 where s1: "receive_elem C E q (opened k ep mtu n pkt) s = Some s1" "quiet E q k (rs_dev s1)"
    using receive_elem_total [of mtu n k s pkt q E C ep] Cons.prems by auto
  note r = receive_elem_opened [OF s1(1) Cons.prems(1)]
  have "\<forall>pkt \<in> set ps. pkt \<noteq> [] \<longrightarrow> from_peer q (rs_dev s1) pkt"
    using Cons.prems(2-4) r(3) from_peer_cong [of "rs_dev s1" "rs_dev s" q] by simp
  then show ?case using Cons.IH [of "Suc n" s1] Cons.prems r(2) s1 by simp
qed simp

lemma tun_out_keepKeyFresh: "keepKeyFreshReceiving C E p d = Some d' \<Longrightarrow> tun_out d' = tun_out d"
proof -
  assume a: "keepKeyFreshReceiving C E p d = Some d'"
  then consider "d' = d" | e d1 where "SendHandshakeInitiation C E False p d1 = Some (e, d')" "same_data d d1"
    by (auto simp: keepKeyFreshReceiving_def split: if_splits option.splits intro: same_data_hooks)
  then show ?thesis by cases (auto dest: same_data_initiation simp: same_dataD)
qed

lemma keepKeyFresh_quiet: "quiet E q k d \<Longrightarrow> keepKeyFreshReceiving C E q d = Some d"
  by (auto simp: keepKeyFreshReceiving_def quiet_def kps_Current_def split: option.splits)

lemma receiver_delivers:
  assumes "p_inbound (peer_heap d q) = [\<lparr>ic_locked = False, ic_elems = opened_run k ep mtu n ps\<rparr>]"
    "0 \<le> mtu" "n + length ps \<le> reject_nat" "below n k d" "\<forall>pkt \<in> set ps. pkt \<noteq> [] \<longrightarrow> from_peer q d pkt"
    "quiet E q k d"
  shows "\<exists>d'. RoutineSequentialReceiver C E q d = Some d' \<and> tun_out d' = tun_out d @ filter (\<lambda>x. x \<noteq> []) ps"
proof -
  let ?d0 = "upd_peer q (\<lambda>x. x\<lparr>p_inbound := []\<rparr>) d"
  let ?s = "\<lparr>rs_dev = ?d0, rs_tail = None, rs_data = False, rs_rx = 0, rs_bufs = []\<rparr>"
  have pre: "below n k (rs_dev ?s)" "\<forall>pkt \<in> set ps. pkt \<noteq> [] \<longrightarrow> from_peer q (rs_dev ?s) pkt" "quiet E q k (rs_dev ?s)"
    using assms(4-6) from_peer_cong [of ?d0 d q] by (auto simp: below_def quiet_def)
  obtain s' where s': "receive_elems C E q (opened_run k ep mtu n ps) ?s = Some s'" "quiet E q k (rs_dev s')"
    using receive_elems_total [OF assms(2,3) pre] by blast
  have b: "rs_bufs s' = filter (\<lambda>x. x \<noteq> []) ps" "tun_out (rs_dev s') = tun_out d"
    using receive_elems_opened [OF s'(1) assms(2,3) pre(1,2)] by simp_all
  define d1 where "d1 = add_rx q (rs_rx s') (rs_dev s')"
  have d1: "quiet E q k (SetEndpointFromPacket q x d1)" "tun_out (SetEndpointFromPacket q x d1) = tun_out d" "tun_out d1 = tun_out d" for x
    using s'(2) b by (auto simp: quiet_def d1_def add_rx_def SetEndpointFromPacket_def)
  note t = same_dataD(6) [OF same_data_hooks(7)] same_dataD(6) [OF same_data_hooks(4)] same_dataD(6) [OF same_data_hooks(2)]
  show ?thesis using assms(1) s'(1) b d1 keepKeyFresh_quiet [OF d1(1)]
    by (auto simp: RoutineSequentialReceiver_def Let_def d1_def [symmetric] t split: option.split)
qed

section \<open>From queue to queue\<close>

fun wire_run :: "Crypto \<Rightarrow> Keypair \<Rightarrow> int \<Rightarrow> nat \<Rightarrow> bytes list \<Rightarrow> bytes list" where
  "wire_run C kp mtu n [] = []"
| "wire_run C kp mtu n (pkt # ps) = wire_packet C kp mtu (of_nat n) pkt # wire_run C kp mtu (Suc n) ps"

lemma encrypt_numbered:
  assumes "0 \<le> d_mtu d"
  shows "\<exists>sent. those (map (encrypt_elem C d) (numbered k n es)) = Some sent \<and>
    map oe_packet sent = wire_run C (kp_heap d k) (d_mtu d) n (map oe_packet es)"
  by (induction k n es rule: numbered.induct) (auto simp: encrypt_elem_ok assms)

lemma encrypt_container:
  assumes "0 \<le> d_mtu d" "i < length (p_outbound (peer_heap d p))"
    "p_outbound (peer_heap d p) ! i = \<lparr>oc_locked = True, oc_elems = numbered k n es\<rparr>"
  shows "\<exists>d1 sent. RoutineEncryption C p i d = Some d1 \<and>
    p_outbound (peer_heap d1 p) ! i = \<lparr>oc_locked = False, oc_elems = sent\<rparr> \<and>
    map oe_packet sent = wire_run C (kp_heap d k) (d_mtu d) n (map oe_packet es)"
proof -
  obtain sent where "those (map (encrypt_elem C d) (numbered k n es)) = Some sent"
    "map oe_packet sent = wire_run C (kp_heap d k) (d_mtu d) n (map oe_packet es)"
    using encrypt_numbered [OF assms(1)] by blast
  then show ?thesis using assms(2,3) by (simp add: RoutineEncryption_def Let_def)
qed

fun sealed_run :: "Crypto \<Rightarrow> Keypair \<Rightarrow> int \<Rightarrow> nat \<Rightarrow> Endpoint \<Rightarrow> nat \<Rightarrow> bytes list \<Rightarrow> QueueInboundElement list" where
  "sealed_run C kp mtu k ep n [] = []"
| "sealed_run C kp mtu k ep n (pkt # ps) =
     \<lparr>ie_packet = Some (wire_packet C kp mtu (of_nat n) pkt), ie_counter = 0, ie_keypair = k, ie_endpoint = ep\<rparr> #
     sealed_run C kp mtu k ep (Suc n) ps"

lemma receive_batch_wire:
  assumes "crypto_ok C" "length r = 3" "knows_session E (kp_remoteIndex kp) q k d"
  shows "receive_batch E (map (\<lambda>b. (put_reserved r b, ep)) (wire_run C kp mtu n ps)) [(q, es)] d =
    Some ([(q, es @ sealed_run C kp mtu k ep n ps)], d)"
  by (induction ps arbitrary: n es) (simp_all add: dispatch_wire [OF assms])

lemma receive_incoming_wire:
  assumes "crypto_ok C" "length r = 3" "knows_session E (kp_remoteIndex kp) q k d" "p_isRunning (peer_heap d q)"
    "ps \<noteq> []"
  shows "RoutineReceiveIncoming E (map (\<lambda>b. (put_reserved r b, ep)) (wire_run C kp mtu n ps)) d =
    Some (upd_peer q (\<lambda>x. x\<lparr>p_inbound := p_inbound x @
      [\<lparr>ic_locked = True, ic_elems = sealed_run C kp mtu k ep n ps\<rparr>]\<rparr>) d)"
proof -
  obtain pkt rest where ps: "ps = pkt # rest" using assms(5) by (cases ps) auto
  have "receive_batch E (map (\<lambda>b. (put_reserved r b, ep)) (wire_run C kp mtu n ps)) [] d =
      Some ([(q, sealed_run C kp mtu k ep n ps)], d)"
    by (simp add: ps dispatch_wire [OF assms(1-3)] receive_batch_wire [OF assms(1-3)])
  then show ?thesis using assms(4) by (simp add: RoutineReceiveIncoming_def enqueue_inbound_def)
qed

lemma decrypt_sealed:
  assumes "crypto_ok C" "kp_receive (kp_heap d k) = kp_send kp"
  shows "those (map (decrypt_elem C d) (sealed_run C kp mtu k ep n ps)) = Some (opened_run k ep mtu n ps)"
  by (induction ps arbitrary: n) (simp_all add: decrypt_wire [OF assms] opened_def)


definition example_ep :: Endpoint where
  "example_ep = \<lparr>ep_addr = Addr4 [192, 0, 2, 1], ep_port = 2408, ep_src = []\<rparr>"

definition example_packet :: bytes where
  "example_packet = [0x45, 0, 0, 20, 0, 0, 0, 0, 64, 17, 0, 0, 10, 0, 0, 1, 10, 0, 0, 2]"

definition example_elem :: "bytes \<Rightarrow> QueueOutboundElement" where
  "example_elem pkt = \<lparr>oe_packet = pkt, oe_nonce = 0, oe_keypair = None\<rparr>"

definition example_from :: Device where
  "example_from =
     zero_Device\<lparr>d_mtu := 1420,
       peer_heap := (peer_heap zero_Device)(0 := zero_Peer\<lparr>p_outbound :=
         [\<lparr>oc_locked = True, oc_elems = numbered 0 5 [example_elem example_packet, example_elem []]\<rparr>]\<rparr>),
       kp_heap := (kp_heap zero_Device)(0 := zero_Keypair\<lparr>kp_remoteIndex := 7\<rparr>)\<rparr>"

definition example_to :: Device where
  "example_to =
     zero_Device\<lparr>d_indexTable := [7 \<mapsto> \<lparr>it_peer = Some 0, it_handshake = None, it_keypair = Some 0\<rparr>],
       d_allowedips := zero_AllowedIPs\<lparr>IPv4 := Node (Some 0) [0, 0, 0, 0] 0 Nilp Nilp\<rparr>,
       peer_heap := (peer_heap zero_Device)(0 := zero_Peer\<lparr>p_isRunning := True,
         p_keypairs := zero_Keypairs\<lparr>kps_current := Some 0\<rparr>\<rparr>)\<rparr>"

lemma example_to_facts:
  "peer_heap example_to 0 = zero_Peer\<lparr>p_isRunning := True, p_keypairs := zero_Keypairs\<lparr>kps_current := Some 0\<rparr>\<rparr>"
  "kp_heap example_to j = zero_Keypair" "tun_out example_to = []"
  "d_allowedips example_to = zero_AllowedIPs\<lparr>IPv4 := Node (Some 0) [0, 0, 0, 0] 0 Nilp Nilp\<rparr>"
  by (simp_all add: example_to_def zero_Device_def)

lemma example_to_session:
  "knows_session (example_env 0) 7 0 0 example_to" "below 5 0 example_to" "quiet (example_env 0) 0 0 example_to"
  "from_peer 0 example_to example_packet"
proof -
  show "knows_session (example_env 0) 7 0 0 example_to"
    by (simp add: knows_session_def example_to_def zero_Device_def idx_Lookup_def zero_Keypair_def example_env_def
        RejectAfterTime_def Second_def)
  show "below 5 0 example_to" unfolding below_def example_to_facts
    using filter_rel_zero by (intro exI [of _ "{}"]) (simp add: zero_Keypair_def zero_Filter_def)
  show "quiet (example_env 0) 0 0 example_to"
    by (simp add: quiet_def example_to_facts zero_Keypair_def zero_Peer_def)
  have "slice 12 16 example_packet = [10, 0, 0, 1]" "slice 2 4 example_packet = [0, 20]" "ip_version example_packet = 4"
    by (simp_all add: example_packet_def slice_def ip_version_def)
  then show "from_peer 0 example_to example_packet"
    by (simp add: from_peer_def example_to_facts Lookup_def lookup_def bitAtByte_def) (simp add: example_packet_def)
qed


end
