(* ===== verification/Receive_Safety.thy ===== *)
theory Receive_Safety
  imports Transport "HOL-Library.Sublist"
begin

text \<open>
  What the sequential receiver lets through, whatever the network sends: packets that were
  authenticated, that are not replays, and whose source address is routed to the peer.
\<close>

section \<open>One packet\<close>

text \<open>\<open>admitted p a full b\<close>: the decrypted packet \<open>full\<close> comes from an address of peer \<open>p\<close>; \<open>b\<close> is its start.\<close>

definition admitted :: "nat \<Rightarrow> nat AllowedIPs \<Rightarrow> bytes \<Rightarrow> bytes \<Rightarrow> bool" where
  "admitted p a full b =
     ((ip_version full = 4 \<and> 20 \<le> length b \<and> Lookup (slice 12 16 full) a = Some (Some p) \<or>
       ip_version full = 6 \<and> 40 \<le> length full \<and> Lookup (slice 8 24 full) a = Some (Some p)) \<and>
      prefix b full)"

lemma inbound_payload_admitted:
  "inbound_payload p full d = Some (Some b) \<Longrightarrow> admitted p (d_allowedips d) full b"
  by (auto simp: inbound_payload_def admitted_def Let_def ip_layout take_is_prefix split: if_splits option.splits)

text \<open>The counters accepted so far, for every keypair.\<close>

definition tracks :: "(nat \<Rightarrow> u64 set) \<Rightarrow> Device \<Rightarrow> bool" where
  "tracks S d = (\<forall>k. filter_rel (kp_replayFilter (kp_heap d k)) (S k))"

lemma tracks_frame: "data_frame d d' \<Longrightarrow> tracks S d \<Longrightarrow> tracks S d'"
  by (simp add: tracks_def data_frame_filter)

lemma tracks_validate:
  assumes "tracks S d" "ValidateCounter (kp_replayFilter (kp_heap d k)) c RejectAfterMessages = (ok, flt)"
  defines "d1 \<equiv> upd_kp k (\<lambda>x. x\<lparr>kp_replayFilter := flt\<rparr>) d"
  shows "if ok then c < RejectAfterMessages \<and> c \<notin> S k \<and> tracks (S(k := insert c (S k))) d1 else tracks S d1"
  using assms rf.accept_fresh [of "kp_replayFilter (kp_heap d k)" "S k" c RejectAfterMessages flt]
    rf.reject_keeps [of "kp_replayFilter (kp_heap d k)" "S k" c RejectAfterMessages flt]
  by (auto simp: tracks_def upd_kp_def)

text \<open>
  \<open>lets_through p a S S' es kept\<close>: of the queued elements \<open>es\<close> the receiver passes on \<open>kept\<close>, in order.
\<close>

definition lets_through ::
  "nat \<Rightarrow> nat AllowedIPs \<Rightarrow> (nat \<Rightarrow> u64 set) \<Rightarrow> (nat \<Rightarrow> u64 set) \<Rightarrow> QueueInboundElement list \<Rightarrow>
   (QueueInboundElement \<times> bytes) list \<Rightarrow> bool" where
  "lets_through p a S S' es kept =
     (subseq (map fst kept) es \<and> (\<forall>k. S k \<subseteq> S' k) \<and>
      distinct (map (\<lambda>(e, b). (ie_keypair e, ie_counter e)) kept) \<and>
      (\<forall>(e, b) \<in> set kept. ie_counter e < RejectAfterMessages \<and> ie_counter e \<notin> S (ie_keypair e) \<and>
         ie_counter e \<in> S' (ie_keypair e) \<and> (\<exists>full. ie_packet e = Some full \<and> admitted p a full b)))"

lemma lets_through_skip:
  assumes "lets_through p a S1 S' es kept" "\<And>k. S k \<subseteq> S1 k"
  shows "lets_through p a S S' (e # es) kept"
proof -
  have "c \<notin> S1 k \<Longrightarrow> c \<notin> S k" "S1 k \<subseteq> S' k \<Longrightarrow> S k \<subseteq> S' k" for c k using assms(2) by blast+
  then show ?thesis using assms(1) unfolding lets_through_def by (auto intro: list_emb_Cons)
qed

lemma lets_through_keep:
  assumes "lets_through p a (S(ie_keypair e := insert (ie_counter e) (S (ie_keypair e)))) S' es kept"
    "ie_counter e < RejectAfterMessages" "ie_counter e \<notin> S (ie_keypair e)"
    "ie_packet e = Some full" "admitted p a full b"
  shows "lets_through p a S S' (e # es) ((e, b) # kept)"
  using assms unfolding lets_through_def
  by (auto split: if_splits)

lemma receive_elem_cases:
  assumes "receive_elem C E p e s = Some s'" "tracks S (rs_dev s)"
  shows "tun_out (rs_dev s') = tun_out (rs_dev s) \<and> d_allowedips (rs_dev s') = d_allowedips (rs_dev s) \<and>
    (rs_bufs s' = rs_bufs s \<and> (\<exists>S1. tracks S1 (rs_dev s') \<and> (\<forall>k. S k \<subseteq> S1 k)) \<or>
     (\<exists>full b. rs_bufs s' = rs_bufs s @ [b] \<and> ie_packet e = Some full \<and>
        admitted p (d_allowedips (rs_dev s)) full b \<and> ie_counter e < RejectAfterMessages \<and>
        ie_counter e \<notin> S (ie_keypair e) \<and>
        tracks (S(ie_keypair e := insert (ie_counter e) (S (ie_keypair e)))) (rs_dev s')))"
proof (cases "ie_packet e")
  case None
  then show ?thesis using assms by (auto simp: receive_elem_def)
next
  case (Some full)
  let ?k = "ie_keypair e"
  let ?S = "S(?k := insert (ie_counter e) (S ?k))"
  obtain ok flt where v: "ValidateCounter (kp_replayFilter (kp_heap (rs_dev s) ?k)) (ie_counter e) RejectAfterMessages = (ok, flt)"
    by fastforce
  define d1 where "d1 = upd_kp ?k (\<lambda>x. x\<lparr>kp_replayFilter := flt\<rparr>) (rs_dev s)"
  note t = tracks_validate [OF assms(2) v, folded d1_def]
  have 1: "tun_out d1 = tun_out (rs_dev s)" "d_allowedips d1 = d_allowedips (rs_dev s)"
    by (simp_all add: d1_def upd_kp_def)
  show ?thesis
  proof (cases ok)
    case False
    then have "s' = s\<lparr>rs_dev := d1\<rparr>" using assms(1) v Some by (simp add: receive_elem_def d1_def)
    then show ?thesis using t False 1 by auto
  next
    case True
    obtain d2 where d2: "confirm_keypair C E p e d1 = Some d2"
      using assms(1) v Some True by (auto simp: receive_elem_def d1_def elim!: bind_SomeE)
    note fr = data_frame_confirm [OF d2]
    have tr: "tracks ?S d2" using tracks_frame [OF fr] t True by simp
    have s': "rs_dev s' = d2 \<and> (rs_bufs s' = rs_bufs s \<or>
        (\<exists>b. rs_bufs s' = rs_bufs s @ [b] \<and> inbound_payload p full d2 = Some (Some b)))"
      using assms(1) v Some True d2
      by (auto simp: receive_elem_def d1_def Let_def bind_eq_Some_conv split: if_splits option.splits)
    have "\<And>k. S k \<subseteq> ?S k" by auto
    then show ?thesis using s' tr t True data_frameD [OF fr] 1 Some
      by (auto dest!: inbound_payload_admitted)
  qed
qed

lemma receive_elems_safe:
  assumes "receive_elems C E p es s = Some s'" "tracks S (rs_dev s)"
  shows "\<exists>kept S'. rs_bufs s' = rs_bufs s @ map snd kept \<and> tracks S' (rs_dev s') \<and>
    lets_through p (d_allowedips (rs_dev s)) S S' es kept \<and> tun_out (rs_dev s') = tun_out (rs_dev s)"
  using assms
proof (induction es arbitrary: s S)
  case Nil
  then show ?case by (intro exI [of _ "[]"] exI [of _ S]) (simp add: lets_through_def)
next
  case (Cons e es)
  obtain s1 where s1: "receive_elem C E p e s = Some s1" "receive_elems C E p es s1 = Some s'"
    using Cons.prems(1) by (auto elim: bind_SomeE)
  note c = receive_elem_cases [OF s1(1) Cons.prems(2)]
  from c consider (skip) S1 where "rs_bufs s1 = rs_bufs s" "tracks S1 (rs_dev s1)" "\<forall>k. S k \<subseteq> S1 k"
    | (keep) full b where "rs_bufs s1 = rs_bufs s @ [b]" "ie_packet e = Some full"
        "admitted p (d_allowedips (rs_dev s)) full b" "ie_counter e < RejectAfterMessages"
        "ie_counter e \<notin> S (ie_keypair e)"
        "tracks (S(ie_keypair e := insert (ie_counter e) (S (ie_keypair e)))) (rs_dev s1)"
    by blast
  then show ?case
  proof cases
    case skip
    obtain kept S' where "rs_bufs s' = rs_bufs s1 @ map snd kept" "tracks S' (rs_dev s')"
      "lets_through p (d_allowedips (rs_dev s1)) S1 S' es kept" "tun_out (rs_dev s') = tun_out (rs_dev s1)"
      using Cons.IH [OF s1(2) skip(2)] by blast
    then show ?thesis using lets_through_skip [of p _ S1 S' es kept S e] skip c by (intro exI [of _ kept] exI [of _ S']) simp
  next
    case keep
    obtain kept S' where "rs_bufs s' = rs_bufs s1 @ map snd kept" "tracks S' (rs_dev s')"
      "lets_through p (d_allowedips (rs_dev s1)) (S(ie_keypair e := insert (ie_counter e) (S (ie_keypair e)))) S' es kept"
      "tun_out (rs_dev s') = tun_out (rs_dev s1)"
      using Cons.IH [OF s1(2) keep(6)] by blast
    then show ?thesis using lets_through_keep [where S = S and S' = S' and e = e and full = full and es = es] keep c
      by (intro exI [of _ "(e, b) # kept"] exI [of _ S']) simp
  qed
qed

section \<open>Properties\<close>

text \<open>The elements the sequential receiver of a peer takes next.\<close>

definition ready :: "nat \<Rightarrow> Device \<Rightarrow> QueueInboundElement list" where
  "ready p d =
     (case p_inbound (peer_heap d p) of [] \<Rightarrow> [] | c # _ \<Rightarrow> if ic_locked c then [] else ic_elems c)"

lemma tracks_same_data: "same_data d d' \<Longrightarrow> tracks S d' = tracks S d"
  by (simp add: tracks_def same_dataD)

lemma keepKeyFreshReceiving_data: "keepKeyFreshReceiving C E p d = Some d' \<Longrightarrow> same_data d d'"
  using same_data_trans [OF same_data_hooks(9) same_data_initiation]
  by (auto simp: keepKeyFreshReceiving_def split: if_splits option.splits)

lemma same_data_tail:
  assumes "(case tail of None \<Rightarrow> Some d1
     | Some ep \<Rightarrow> do { d' \<leftarrow> keepKeyFreshReceiving C E p (SetEndpointFromPacket p ep d1);
         Some (timersAnyAuthenticatedPacketReceived p (timersAnyAuthenticatedPacketTraversal E p d')) }) = Some d2"
  shows "same_data d1 d2"
proof (cases tail)
  case None
  then show ?thesis using assms by simp
next
  case (Some ep)
  then obtain x where x: "keepKeyFreshReceiving C E p (SetEndpointFromPacket p ep d1) = Some x"
    "d2 = timersAnyAuthenticatedPacketReceived p (timersAnyAuthenticatedPacketTraversal E p x)"
    using assms by (auto elim!: bind_SomeE)
  have "same_data d1 (SetEndpointFromPacket p ep d1)"
    by (auto simp: SetEndpointFromPacket_def intro!: same_data_upd_peer)
  also have "same_data \<dots> x" by (rule keepKeyFreshReceiving_data [OF x(1)])
  also have "same_data x (timersAnyAuthenticatedPacketTraversal E p x)" by simp
  also have "same_data \<dots> d2" unfolding x(2) by simp
  finally show ?thesis .
qed

text \<open>C20: No step of the sequential receiver lets a packet into the TUN device that the peer may not
  send. What a step adds there comes, in order, from elements of the queue that decryption
  accepted; each packet is the start of the decrypted content, with a source address that the
  cryptokey routing table assigns to this peer; the counter of each is below
  \<open>RejectAfterMessages\<close>, no two of them share a session and a counter, and none of their counters
  was accepted in any earlier step (\<open>tracks S\<close> before the step, \<open>tracks S'\<close> after it).\<close>

theorem receiver_safety:
  assumes "RoutineSequentialReceiver C E p d = Some d'" "tracks S d"
  shows "\<exists>kept S'. tun_out d' = tun_out d @ map snd kept \<and> tracks S' d' \<and>
    lets_through p (d_allowedips d) S S' (ready p d) kept"
proof (cases "p_inbound (peer_heap d p)")
  case Nil
  then show ?thesis using assms
    by (intro exI [of _ "[]"] exI [of _ S]) (simp add: RoutineSequentialReceiver_def lets_through_def)
next
  case (Cons c cs)
  show ?thesis
  proof (cases "ic_locked c")
    case True
    then show ?thesis using assms Cons
      by (intro exI [of _ "[]"] exI [of _ S]) (simp add: RoutineSequentialReceiver_def lets_through_def)
  next
    case False
    let ?d0 = "upd_peer p (\<lambda>x. x\<lparr>p_inbound := cs\<rparr>) d"
    let ?s = "\<lparr>rs_dev = ?d0, rs_tail = None, rs_data = False, rs_rx = 0, rs_bufs = []\<rparr>"
    obtain s d2 where s: "receive_elems C E p (ic_elems c) ?s = Some s"
      and d2: "(case rs_tail s of None \<Rightarrow> Some (add_rx p (rs_rx s) (rs_dev s))
         | Some ep \<Rightarrow> do { d' \<leftarrow> keepKeyFreshReceiving C E p (SetEndpointFromPacket p ep (add_rx p (rs_rx s) (rs_dev s)));
             Some (timersAnyAuthenticatedPacketReceived p (timersAnyAuthenticatedPacketTraversal E p d')) }) = Some d2"
      and d': "d' = (let d3 = (if rs_data s then timersDataReceived E p d2 else d2) in d3\<lparr>tun_out := tun_out d3 @ rs_bufs s\<rparr>)"
      using assms(1) Cons False by (auto simp: RoutineSequentialReceiver_def Let_def elim!: bind_SomeE)
    have "same_data (rs_dev s) (add_rx p (rs_rx s) (rs_dev s))"
      by (auto simp: add_rx_def intro!: same_data_upd_peer)
    also have "same_data \<dots> d2" by (rule same_data_tail [OF d2])
    finally have "same_data (rs_dev s) d2" .
    then have 3: "same_data (rs_dev s) (if rs_data s then timersDataReceived E p d2 else d2)"
      by (auto intro: same_data_trans)
    have t0: "tracks S (rs_dev ?s)" using assms(2) by (simp add: tracks_def)
    obtain kept S' where k: "rs_bufs s = map snd kept" "tracks S' (rs_dev s)"
      "lets_through p (d_allowedips d) S S' (ic_elems c) kept" "tun_out (rs_dev s) = tun_out d"
      using receive_elems_safe [OF s t0] by auto
    have "tracks S' d'" using k(2) tracks_same_data [OF 3] d' by (simp add: tracks_def Let_def)
    moreover have "tun_out d' = tun_out d @ map snd kept" using d' k same_dataD(6) [OF 3] by (simp add: Let_def)
    ultimately show ?thesis using k(3) Cons False by (auto simp: ready_def)
  qed
qed

definition example_arrival :: Device where
  "example_arrival = upd_peer 0 (\<lambda>x. x\<lparr>p_inbound :=
     [\<lparr>ic_locked = False, ic_elems = opened_run 0 example_ep 1420 5 [example_packet]\<rparr>]\<rparr>) example_to"

theorem receiver_safety_witness:
  "\<exists>d' kept S'. RoutineSequentialReceiver plain_crypto (example_env 0) 0 example_arrival = Some d' \<and>
    tun_out d' = [example_packet] \<and> map snd kept = [example_packet] \<and> tracks S' d' \<and>
    lets_through 0 (d_allowedips example_arrival) (\<lambda>_. {}) S' (ready 0 example_arrival) kept"
proof -
  have t: "tracks (\<lambda>_. {}) example_arrival"
    using filter_rel_zero by (simp add: tracks_def example_arrival_def example_to_facts zero_Keypair_def)
  have b: "below 5 0 example_arrival" "quiet (example_env 0) 0 0 example_arrival"
    "from_peer 0 example_arrival = from_peer 0 example_to" "tun_out example_arrival = []"
    using example_to_session from_peer_cong [of example_arrival example_to 0]
    by (auto simp: example_arrival_def below_def quiet_def example_to_facts)
  have "\<exists>d'. RoutineSequentialReceiver plain_crypto (example_env 0) 0 example_arrival = Some d' \<and>
      tun_out d' = tun_out example_arrival @ filter (\<lambda>x. x \<noteq> []) [example_packet]"
    by (rule receiver_delivers [where mtu = 1420 and n = 5 and ep = example_ep])
      (use b example_to_session(4) in \<open>simp_all add: example_arrival_def reject_nat_def\<close>)
  then obtain d' where d': "RoutineSequentialReceiver plain_crypto (example_env 0) 0 example_arrival = Some d'"
    "tun_out d' = [example_packet]" using b(4) by (auto simp: example_packet_def)
  obtain kept S' where "tun_out d' = map snd kept" "tracks S' d'"
    "lets_through 0 (d_allowedips example_arrival) (\<lambda>_. {}) S' (ready 0 example_arrival) kept"
    using receiver_safety [OF d'(1) t] b(4) by auto
  then show ?thesis using d' by (intro exI [of _ d'] exI [of _ kept] exI [of _ S']) simp
qed

end
