(* ===== verification/Uapi.thy ===== *)
theory Uapi
  imports Device_Ops Go_Strings
begin

text \<open>
  \<open>wireguard/device/uapi.go\<close>: the configuration protocol. A request is a text of \<open>key=value\<close>
  lines; errors are codes. Peers are visited in the order of the key map. \<open>None\<close> means that a
  handler panics or has not returned. What a line reads from outside is a record \<open>LineEnv\<close>.
\<close>

section \<open>Errors\<close>

datatype IPCError = IpcErrorIO | IpcErrorProtocol | IpcErrorInvalid | IpcErrorPortInUse | IpcErrorUnknown

text \<open>The error numbers of Linux.\<close>

fun ErrorCode :: "IPCError \<Rightarrow> int" where
  "ErrorCode IpcErrorIO = - 5"
| "ErrorCode IpcErrorProtocol = - 71"
| "ErrorCode IpcErrorInvalid = - 22"
| "ErrorCode IpcErrorPortInUse = - 98"
| "ErrorCode IpcErrorUnknown = - 55"

section \<open>The get operation\<close>

definition newline :: char where "newline = CHR 0x0A"

definition keyf :: "string \<Rightarrow> bytes \<Rightarrow> string" where
  "keyf name k = name @ ''='' @ hexEncode k @ [newline]"

definition sendf :: "string \<Rightarrow> string \<Rightarrow> string" where
  "sendf name v = name @ ''='' @ v @ [newline]"

definition show_reserved :: "bytes \<Rightarrow> string" where
  "show_reserved r = join_with CHR '','' (map (show_nat \<circ> unat) r)"

definition DstToString :: "Endpoint \<Rightarrow> string" where
  "DstToString e = show_addrport (ep_addr e) (ep_port e)"

definition get_peer :: "Device \<Rightarrow> nat \<Rightarrow> string" where
  "get_peer d p =
     (let x = peer_heap d p; nano = p_lastHandshakeNano x
      in keyf ''public_key'' (hs_remoteStatic (p_handshake x)) @
         keyf ''preshared_key'' (hs_presharedKey (p_handshake x)) @
         sendf ''protocol_version'' ''1'' @
         (case p_endpoint x of None \<Rightarrow> [] | Some e \<Rightarrow> sendf ''endpoint'' (DstToString e)) @
         sendf ''last_handshake_time_sec'' (show_int (nano sdiv Second)) @
         sendf ''last_handshake_time_nsec'' (show_int (nano smod Second)) @
         sendf ''tx_bytes'' (show_nat (unat (p_txBytes x))) @
         sendf ''rx_bytes'' (show_nat (unat (p_rxBytes x))) @
         sendf ''persistent_keepalive_interval'' (show_nat (unat (p_persistentKeepaliveInterval x))) @
         sendf ''trick'' (p_trick x) @
         sendf ''reserved'' (show_reserved (p_reserved x)) @
         concat (map (\<lambda>pfx. sendf ''allowed_ip'' (show_prefix pfx)) (EntriesForPeer p (d_allowedips d))))"

definition get_text :: "Device \<Rightarrow> string" where
  "get_text d =
     (if key_IsZero (d_privateKey d) then [] else keyf ''private_key'' (d_privateKey d)) @
     (if d_port d \<noteq> 0 then sendf ''listen_port'' (show_nat (unat (d_port d))) else []) @
     (if d_fwmark d \<noteq> 0 then sendf ''fwmark'' (show_nat (unat (d_fwmark d))) else []) @
     concat (map (get_peer d) (peers_of d))"

text \<open>The flag says whether writing succeeds.\<close>

definition IpcGetOperation :: "bool \<Rightarrow> Device \<Rightarrow> IPCError + string" where
  "IpcGetOperation written d = (if written then Inr (get_text d) else Inl IpcErrorIO)"

definition IpcGet :: "Device \<Rightarrow> IPCError + string" where
  "IpcGet d = IpcGetOperation True d"

section \<open>The set operation\<close>

record LineEnv =
  le_start :: Env
  le_init :: Env
  le_staged :: Env
  le_peers :: Envs
  le_bind :: BindEnv

definition handleDeviceLine ::
  "Crypto \<Rightarrow> LineEnv \<Rightarrow> string \<Rightarrow> string \<Rightarrow> Device \<Rightarrow> (IPCError option \<times> Device) option" where
  "handleDeviceLine C L k v d =
     (if k = ''private_key'' then
        (let (ok, sk) = FromMaybeZeroHex (replicate 32 0) v
         in if \<not> ok then Some (Some IpcErrorInvalid, d)
            else do { d1 \<leftarrow> SetPrivateKey C (le_peers L) sk d; Some (None, d1) })
      else if k = ''listen_port'' then
        (case ParseUint 16 v of
           None \<Rightarrow> Some (Some IpcErrorInvalid, d)
         | Some port \<Rightarrow>
             (let (ok, d1) = BindUpdate (le_bind L) (d\<lparr>d_port := of_nat port\<rparr>)
              in Some (if ok then None else Some IpcErrorPortInUse, d1)))
      else if k = ''fwmark'' then
        (case ParseUint 32 v of
           None \<Rightarrow> Some (Some IpcErrorInvalid, d)
         | Some mark \<Rightarrow>
             (let (ok, d1) = BindSetMark (le_bind L) (of_nat mark) d
              in Some (if ok then None else Some IpcErrorPortInUse, d1)))
      else if k = ''replace_peers'' then
        (if v \<noteq> ''true'' then Some (Some IpcErrorInvalid, d)
         else do { d1 \<leftarrow> RemoveAllPeers C (le_peers L) d; Some (None, d1) })
      else Some (Some IpcErrorInvalid, d))"

record ipcSetPeer =
  sp_peer :: "nat option"
  sp_dummy :: bool
  sp_created :: bool
  sp_pkaOn :: bool

text \<open>A placeholder \<open>&Peer{}\<close>, which is in no table.\<close>

definition new_dummy :: "Device \<Rightarrow> nat \<times> Device" where
  "new_dummy d =
     (next_peer d, d\<lparr>peer_heap := (peer_heap d)(next_peer d := zero_Peer), next_peer := Suc (next_peer d)\<rparr>)"

definition handlePostConfig :: "Crypto \<Rightarrow> LineEnv \<Rightarrow> ipcSetPeer \<Rightarrow> Device \<Rightarrow> Device option" where
  "handlePostConfig C L sp d =
     (case sp_peer sp of
        None \<Rightarrow> Some d
      | Some p \<Rightarrow>
          if sp_dummy sp then Some d
          else
          let d1 = (if sp_created sp
                    then upd_peer p (\<lambda>x. x\<lparr>p_disableRoaming := (d_brokenRoaming d \<and> p_endpoint x \<noteq> None)\<rparr>) d
                    else d)
          in if isUp d1 then do {
               (_, d2) \<leftarrow> SendHandshakeInitiation C (le_init L) False p (Start (le_start L) p d1);
               SendStagedPackets C (le_staged L) p d2
             }
             else Some d1)"

definition handlePublicKeyLine ::
  "Crypto \<Rightarrow> ipcSetPeer \<Rightarrow> string \<Rightarrow> Device \<Rightarrow> IPCError option \<times> ipcSetPeer \<times> Device" where
  "handlePublicKeyLine C sp v d =
     (let (ok, pk) = publicKey_FromHex (replicate 32 0) v
      in if \<not> ok then (Some IpcErrorInvalid, sp, d)
      else if key_Equals (d_publicKey d) pk then
        (let (p, d1) = new_dummy d
         in (None, sp\<lparr>sp_peer := Some p, sp_dummy := True, sp_created := False\<rparr>, d1))
      else
        (case LookupPeer pk d of
           Some p \<Rightarrow> (None, sp\<lparr>sp_peer := Some p, sp_dummy := False, sp_created := False\<rparr>, d)
         | None \<Rightarrow>
             (case NewPeer C pk d of
                (Inl e, d1) \<Rightarrow>
                  (Some IpcErrorInvalid, sp\<lparr>sp_peer := None, sp_dummy := False, sp_created := True\<rparr>, d1)
              | (Inr p, d1) \<Rightarrow>
                  (None, sp\<lparr>sp_peer := Some p, sp_dummy := False, sp_created := True\<rparr>, d1))))"

definition parse_reserved :: "string \<Rightarrow> bytes option" where
  "parse_reserved v =
     (let vals = split_on CHR '','' v
      in if length vals \<noteq> 3 then None
         else those (map (\<lambda>s. case Atoi s of
                               None \<Rightarrow> None
                             | Some n \<Rightarrow> if n < 0 \<or> n > 0xFF then None else Some (word_of_int n)) vals))"

text \<open>The selected peer is removed from the device and replaced by a placeholder.\<close>

definition drop_selected ::
  "Crypto \<Rightarrow> LineEnv \<Rightarrow> bool \<Rightarrow> nat \<Rightarrow> ipcSetPeer \<Rightarrow> Device \<Rightarrow> (IPCError option \<times> ipcSetPeer \<times> Device) option" where
  "drop_selected C L remove p sp d =
     do {
       d1 \<leftarrow> (if remove then RemovePeer C (le_peers L) (hs_remoteStatic (hs_of d p)) d else Some d);
       let (q, d2) = new_dummy d1;
       Some (None, sp\<lparr>sp_peer := Some q, sp_dummy := True\<rparr>, d2)
     }"

definition handlePeerLine ::
  "Crypto \<Rightarrow> LineEnv \<Rightarrow> nat \<Rightarrow> ipcSetPeer \<Rightarrow> string \<Rightarrow> string \<Rightarrow> Device \<Rightarrow>
   (IPCError option \<times> ipcSetPeer \<times> Device) option" where
  "handlePeerLine C L p sp k v d =
     (let invalid = Some (Some IpcErrorInvalid, sp, d)
      in if k = ''update_only'' then
        (if v \<noteq> ''true'' then invalid
         else if sp_created sp \<and> \<not> sp_dummy sp then drop_selected C L True p sp d
         else Some (None, sp, d))
      else if k = ''remove'' then
        (if v \<noteq> ''true'' then invalid else drop_selected C L (\<not> sp_dummy sp) p sp d)
      else if k = ''preshared_key'' then
        (let (ok, psk) = presharedKey_FromHex (hs_presharedKey (hs_of d p)) v
         in Some (if ok then None else Some IpcErrorInvalid, sp,
                  upd_hs p (\<lambda>h. h\<lparr>hs_presharedKey := psk\<rparr>) d))
      else if k = ''endpoint'' then
        (case b_parse (le_bind L) v of
           None \<Rightarrow> invalid
         | Some e \<Rightarrow> Some (None, sp, upd_peer p (\<lambda>x. x\<lparr>p_endpoint := Some e\<rparr>) d))
      else if k = ''persistent_keepalive_interval'' then
        (case ParseUint 16 v of
           None \<Rightarrow> invalid
         | Some secs \<Rightarrow>
             Some (None,
               sp\<lparr>sp_pkaOn := (p_persistentKeepaliveInterval (peer_heap d p) = 0 \<and> secs \<noteq> 0)\<rparr>,
               upd_peer p (\<lambda>x. x\<lparr>p_persistentKeepaliveInterval := of_nat secs\<rparr>) d))
      else if k = ''replace_allowed_ips'' then
        (if v \<noteq> ''true'' then invalid
         else if sp_dummy sp then Some (None, sp, d)
         else Some (None, sp, d\<lparr>d_allowedips := RemoveByPeer p (d_allowedips d)\<rparr>))
      else if k = ''allowed_ip'' then
        (case ParsePrefix v of
           None \<Rightarrow> invalid
         | Some pfx \<Rightarrow>
             if sp_dummy sp then Some (None, sp, d)
             else do { a \<leftarrow> Insert pfx p (d_allowedips d); Some (None, sp, d\<lparr>d_allowedips := a\<rparr>) })
      else if k = ''protocol_version'' then (if v \<noteq> ''1'' then invalid else Some (None, sp, d))
      else if k = ''trick'' then Some (None, sp, upd_peer p (\<lambda>x. x\<lparr>p_trick := v\<rparr>) d)
      else if k = ''reserved'' then
        (case parse_reserved v of
           None \<Rightarrow> invalid
         | Some r \<Rightarrow> Some (None, sp, upd_peer p (\<lambda>x. x\<lparr>p_reserved := r\<rparr>) d))
      else invalid)"

text \<open>
  The lines \<open>bufio.Scanner\<close> delivers: the text is cut at newlines, an empty rest at the end is no
  line, and one carriage return at the end of a line is dropped. A line of 64 KiB or more stops
  the scanner with an error.
\<close>

definition MaxScanTokenSize :: nat where "MaxScanTokenSize = 65536"

definition raw_lines :: "string \<Rightarrow> string list" where
  "raw_lines s = (let ls = split_on newline s in if last ls = [] then butlast ls else ls)"

definition dropCR :: "string \<Rightarrow> string" where
  "dropCR l = (if l \<noteq> [] \<and> last l = CHR 0x0D then butlast l else l)"

text \<open>
  The loop over the lines; \<open>Ls\<close> are the readings of the line at each position, \<open>rerr\<close> says whether
  the reader ends with an error. A line after a \<open>public_key\<close> line has a selected peer.
\<close>

fun set_lines ::
  "Crypto \<Rightarrow> (nat \<Rightarrow> LineEnv) \<Rightarrow> bool \<Rightarrow> nat \<Rightarrow> string list \<Rightarrow> ipcSetPeer \<Rightarrow> bool \<Rightarrow> Device \<Rightarrow>
   (IPCError option \<times> Device) option" where
  "set_lines C Ls rerr i [] sp deviceConfig d =
     do { d1 \<leftarrow> handlePostConfig C (Ls i) sp d; Some (if rerr then Some IpcErrorIO else None, d1) }"
| "set_lines C Ls rerr i (l # ls) sp deviceConfig d =
     (if length l \<ge> MaxScanTokenSize then
        do { d1 \<leftarrow> handlePostConfig C (Ls i) sp d; Some (Some IpcErrorIO, d1) }
      else
      let line = dropCR l
      in if line = [] then do { d1 \<leftarrow> handlePostConfig C (Ls i) sp d; Some (None, d1) }
      else case cut_at CHR ''='' line of
        None \<Rightarrow> Some (Some IpcErrorProtocol, d)
      | Some (k, v) \<Rightarrow>
          if k = ''public_key'' then do {
            d1 \<leftarrow> handlePostConfig C (Ls i) sp d;
            let (e, sp', d2) = handlePublicKeyLine C sp v d1;
            (if e \<noteq> None then Some (e, d2) else set_lines C Ls rerr (Suc i) ls sp' False d2)
          }
          else if deviceConfig then do {
            (e, d1) \<leftarrow> handleDeviceLine C (Ls i) k v d;
            (if e \<noteq> None then Some (e, d1) else set_lines C Ls rerr (Suc i) ls sp True d1)
          }
          else (case sp_peer sp of
                  None \<Rightarrow> None
                | Some p \<Rightarrow> do {
                    (e, sp', d1) \<leftarrow> handlePeerLine C (Ls i) p sp k v d;
                    (if e \<noteq> None then Some (e, d1) else set_lines C Ls rerr (Suc i) ls sp' False d1)
                  }))"

definition IpcSetOperation ::
  "Crypto \<Rightarrow> (nat \<Rightarrow> LineEnv) \<Rightarrow> bool \<Rightarrow> string \<Rightarrow> Device \<Rightarrow> (IPCError option \<times> Device) option" where
  "IpcSetOperation C Ls rerr text d =
     set_lines C Ls rerr 0 (raw_lines text)
       \<lparr>sp_peer = None, sp_dummy = False, sp_created = False, sp_pkaOn = False\<rparr> True d"

definition IpcSet :: "Crypto \<Rightarrow> (nat \<Rightarrow> LineEnv) \<Rightarrow> string \<Rightarrow> Device \<Rightarrow> (IPCError option \<times> Device) option" where
  "IpcSet C Ls uapiConf d = IpcSetOperation C Ls False uapiConf d"

section \<open>Requests on a socket\<close>

definition status_text :: "IPCError option \<Rightarrow> string" where
  "status_text e = ''errno='' @ show_int (case e of None \<Rightarrow> 0 | Some c \<Rightarrow> ErrorCode c) @ [newline, newline]"

text \<open>
  One round of the loop of \<open>IpcHandle\<close>: the operation line, the byte that follows (\<open>None\<close>: the
  connection ended), the text a \<open>set\<close> reads, whether reading it ends with an error and whether
  writing the answer of a \<open>get\<close> succeeds. No reply means that the connection is closed.
\<close>

definition IpcHandle ::
  "Crypto \<Rightarrow> (nat \<Rightarrow> LineEnv) \<Rightarrow> string \<Rightarrow> char option \<Rightarrow> string \<Rightarrow> bool \<Rightarrow> bool \<Rightarrow> Device \<Rightarrow>
   (string option \<times> Device) option" where
  "IpcHandle C Ls op nextByte body rerr written d =
     (if op = ''set=1'' @ [newline] then do {
        (e, d1) \<leftarrow> IpcSetOperation C Ls rerr body d;
        Some (Some (status_text e), d1)
      }
      else if op = ''get=1'' @ [newline] then
        (case nextByte of
           None \<Rightarrow> Some (None, d)
         | Some c \<Rightarrow>
             if c \<noteq> newline then Some (Some (status_text (Some IpcErrorInvalid)), d)
             else (case IpcGetOperation written d of
                     Inl e \<Rightarrow> Some (Some (status_text (Some e)), d)
                   | Inr t \<Rightarrow> Some (Some (t @ status_text None), d)))
      else Some (None, d))"

end
