(* ===== verification/Uapi_Lemmas.thy ===== *)
theory Uapi_Lemmas
  imports Uapi Send_Lemmas
begin

text \<open>
  What the configuration protocol guarantees: parsed prefixes are valid, the values that \<open>get\<close>
  prints are read back by \<open>set\<close>, and a refused line changes nothing.
\<close>

section \<open>Parsed addresses are valid\<close>

lemma parse_ipv4_length: "parse_ipv4 s = Some b \<Longrightarrow> length b = 4"
proof -
  have those: "those xs = Some ys \<Longrightarrow> length ys = length xs" for xs :: "nat option list" and ys
    by (induction xs arbitrary: ys) (auto split: option.splits)
  assume "parse_ipv4 s = Some b"
  then show ?thesis using those by (auto simp: parse_ipv4_def Let_def split: if_splits)
qed

lemma p6_length: "p6 n s acc ell = Some (r, acc', ell') \<Longrightarrow> length acc + n = 8 \<Longrightarrow> length acc' \<le> 8"
proof (induction n s acc ell rule: p6.induct)
  case (2 n s acc ell)
  show ?case using 2 unfolding p6.simps Let_def
    by (auto split: if_splits option.splits list.splits)
qed simp

lemma parse_ipv6_length: "parse_ipv6 s = Some gs \<Longrightarrow> length gs = 8"
proof -
  assume a: "parse_ipv6 s = Some gs"
  let ?c = "length s \<ge> 2 \<and> s ! 0 = CHR '':'' \<and> s ! 1 = CHR '':''"
  show ?thesis
  proof (cases "?c \<and> drop 2 s = []")
    case True
    then show ?thesis using a by (auto simp: parse_ipv6_def)
  next
    case False
    define q where "q = (if ?c then p6 8 (drop 2 s) [] (Some 0) else p6 8 s [] None)"
    define fill where "fill = (\<lambda>(r :: string, acc, ell). if r \<noteq> [] then None else if length acc < 8 then (case ell of None \<Rightarrow> None
        | Some e \<Rightarrow> Some (take e acc @ replicate (8 - length acc) 0 @ drop e acc))
      else if ell \<noteq> None then None else Some (acc :: nat list))"
    have eq: "parse_ipv6 s = (case q of None \<Rightarrow> None | Some x \<Rightarrow> fill x)"
      unfolding parse_ipv6_def Let_def if_not_P [OF False] q_def fill_def ..
    obtain r acc ell where q: "q = Some (r, acc, ell)" "fill (r, acc, ell) = Some gs"
      using a unfolding eq by (cases q) auto
    have "length acc \<le> 8" using q(1) p6_length [of 8 _ "[]"] unfolding q_def by (auto split: if_splits)
    then show ?thesis using q(2) by (auto simp: fill_def split: if_splits option.splits)
  qed
qed

lemma groups_bytes_length: "length (groups_bytes gs) = 2 * length gs"
  by (induction gs) (simp_all add: groups_bytes_def)

lemma ParseAddr_ok: "ParseAddr s = Some a \<Longrightarrow> addr_ok a"
  using parse_ipv4_length parse_ipv6_length groups_bytes_length
  by (fastforce simp: ParseAddr_def split: option.splits if_splits)

lemma ParsePrefix_ok: "ParsePrefix s = Some pfx \<Longrightarrow> prefix_ok pfx"
  using ParseAddr_ok by (fastforce simp: ParsePrefix_def prefix_ok_def split: option.splits if_splits)

lemma parse_reserved_length: "parse_reserved v = Some r \<Longrightarrow> length r = 3"
proof -
  have those: "those xs = Some ys \<Longrightarrow> length ys = length xs" for xs :: "byte option list" and ys
    by (induction xs arbitrary: ys) (auto split: option.splits)
  assume "parse_reserved v = Some r"
  then show ?thesis using those by (auto simp: parse_reserved_def Let_def split: if_splits dest!: those)
qed

section \<open>Reading back\<close>

lemma parse_show_reserved:
  assumes "length r = 3"
  shows "parse_reserved (show_reserved r) = Some r"
proof -
  obtain a b c where r: "r = [a, b, c]" using assms by (auto simp: length_Suc_conv numeral_3_eq_3)
  have "split_on CHR '','' (show_reserved r) = map (show_nat \<circ> unat) r"
    unfolding show_reserved_def using show_nat_free(3) r by (intro split_on_join) auto
  moreover have "Atoi (show_nat (unat x)) = Some (uint x)" "\<not> 255 < uint x" for x :: byte
  proof -
    have "unat x < 2 ^ 63" by (rule less_trans [OF unat_byte_less]) simp
    from Atoi_show [OF this] show "Atoi (show_nat (unat x)) = Some (uint x)" by simp
    show "\<not> 255 < uint x" using unsigned_less [of x, where ?'a = int] by simp
  qed
  ultimately show ?thesis by (simp add: parse_reserved_def r)
qed

lemma loadExactHex_encode: "length k = length dst \<Longrightarrow> loadExactHex dst (hexEncode k) = (True, k)"
  by (simp add: loadExactHex_def hexDecode_hexEncode)

lemma ClearSrc_eq: "ClearSrc e = \<lparr>ep_addr = ep_addr e, ep_port = ep_port e, ep_src = []\<rparr>"
  by (cases e) (simp add: ClearSrc_def)

section \<open>Refused lines\<close>

lemma upd_psk_same: "upd_hs p (\<lambda>h. h\<lparr>hs_presharedKey := hs_presharedKey (hs_of d p)\<rparr>) d = d"
  by (simp add: upd_hs_def upd_peer_def)

lemma loadExactHex_refused: "loadExactHex dst s = (False, k) \<Longrightarrow> k = dst"
  by (auto simp: loadExactHex_def split: option.splits if_splits)

lemma handlePeerLine_refused:
  assumes "handlePeerLine C L p sp k v d = Some (Some err, sp', d')"
  shows "err = IpcErrorInvalid \<and> sp' = sp \<and> d' = d"
proof (cases "k = ''preshared_key''")
  case True
  obtain ok psk where x: "presharedKey_FromHex (hs_presharedKey (hs_of d p)) v = (ok, psk)" by fastforce
  then have "\<not> ok" "err = IpcErrorInvalid" "sp' = sp" "d' = upd_hs p (\<lambda>h. h\<lparr>hs_presharedKey := psk\<rparr>) d"
    using assms True by (auto simp: handlePeerLine_def split: if_splits)
  moreover from this have "psk = hs_presharedKey (hs_of d p)"
    using x loadExactHex_refused by (auto simp: presharedKey_FromHex_def)
  ultimately show ?thesis using upd_psk_same [of p d] by simp
next
  case False
  then show ?thesis using assms
    by (auto simp: handlePeerLine_def drop_selected_def Let_def new_dummy_def elim!: bind_SomeE
        split: if_splits option.splits)
qed

lemma handleDeviceLine_refused:
  assumes "handleDeviceLine C L k v d = Some (Some err, d')"
  shows "err = IpcErrorInvalid \<and> d' = d \<or> err = IpcErrorPortInUse \<and> (k = ''listen_port'' \<or> k = ''fwmark'')"
  using assms by (auto simp: handleDeviceLine_def Let_def elim!: bind_SomeE split: if_splits option.splits prod.splits)

lemma handlePublicKeyLine_refused:
  assumes "handlePublicKeyLine C sp v d = (Some err, sp', d')"
  shows "err = IpcErrorInvalid \<and> d' = d"
  using assms NewPeer_error
  by (auto simp: handlePublicKeyLine_def Let_def new_dummy_def split: if_splits option.splits prod.splits sum.splits)

section \<open>Properties\<close>


definition example_bind :: BindEnv where
  "example_bind = \<lparr>b_close = True, b_open = (\<lambda>po. Some (2, po)), b_listener = True, b_setMark = True,
     b_parse = (\<lambda>s. map_option (\<lambda>(a, po). \<lparr>ep_addr = a, ep_port = po, ep_src = []\<rparr>) (ParseAddrPort s))\<rparr>"

definition example_line :: LineEnv where
  "example_line = \<lparr>le_start = example_env 0, le_init = example_env 0, le_staged = example_env 0,
     le_peers = (\<lambda>_ _. example_env 0), le_bind = example_bind\<rparr>"

definition example_sp :: ipcSetPeer where
  "example_sp = \<lparr>sp_peer = Some 0, sp_dummy = False, sp_created = False, sp_pkaOn = False\<rparr>"




end
