(* ===== verification/Device_Inv.thy ===== *)
theory Device_Inv
  imports Uapi Transport
begin

text \<open>
  The well-formedness invariant of a device, and that every handler keeps it together with the
  configuration: the table of peers, the routes, the keys and the running state of each peer.
\<close>

section \<open>The invariant\<close>

definition idle :: "Timers \<Rightarrow> bool" where
  "idle t = (tm_retransmitHandshake t = None \<and> tm_sendKeepalive t = None \<and> tm_newHandshake t = None \<and>
     tm_zeroKeyMaterial t = None \<and> tm_persistentKeepalive t = None)"

definition slots :: "Keypairs \<Rightarrow> nat set" where
  "slots kps = set_option (kps_current kps) \<union> set_option (kps_previous kps) \<union> set_option (kps_next kps)"

definition peer_ok :: "nat \<Rightarrow> Peer \<Rightarrow> bool" where
  "peer_ok nk x = (length (p_staged x) \<le> QueueStagedSize \<and> length (p_reserved x) = 3 \<and>
     (\<not> p_isRunning x \<longrightarrow> idle (p_timers x)) \<and> (\<forall>k \<in> slots (p_keypairs x). k < nk))"

definition keypair_ok :: "Keypair \<Rightarrow> bool" where
  "keypair_ok kp = ((\<exists>S. filter_rel (kp_replayFilter kp) S) \<and> kp_sendNonce kp \<le> RejectAfterMessages)"

definition wf_device :: "Device \<Rightarrow> bool" where
  "wf_device d =
     ((\<forall>q. peer_ok (next_kp d) (peer_heap d q)) \<and> (\<forall>k. keypair_ok (kp_heap d k)) \<and>
      distinct (map fst (d_keyMap d)) \<and> distinct (peers_of d) \<and>
      (\<forall>(pk, p) \<in> set (d_keyMap d). p < next_peer d \<and> hs_remoteStatic (hs_of d p) = pk) \<and>
      length (d_keyMap d) \<le> MaxPeers \<and> (\<forall>q. p_isRunning (peer_heap d q) \<longrightarrow> q \<in> set (peers_of d)) \<and>
      allowed_inv (d_allowedips d) \<and> length (d_handshakeq d) \<le> QueueHandshakeSize)"

text \<open>
  \<open>calm d d'\<close>: a step from \<open>d\<close> to \<open>d'\<close> keeps the invariant and leaves the configuration alone.
\<close>

definition calm :: "Device \<Rightarrow> Device \<Rightarrow> bool" where
  "calm d d' =
     ((wf_device d \<longrightarrow> wf_device d') \<and> d_keyMap d' = d_keyMap d \<and> d_state d' = d_state d \<and>
      d_allowedips d' = d_allowedips d \<and> d_privateKey d' = d_privateKey d \<and> d_publicKey d' = d_publicKey d \<and>
      next_peer d' = next_peer d \<and> (\<forall>q. p_isRunning (peer_heap d' q) = p_isRunning (peer_heap d q)))"

lemma calm_refl [simp, intro]: "calm d d"
  by (simp add: calm_def)

lemma calm_trans [trans]: "calm a b \<Longrightarrow> calm b c \<Longrightarrow> calm a c"
  by (simp add: calm_def)

lemma calmD:
  assumes "calm d d'"
  shows "wf_device d \<Longrightarrow> wf_device d'" "d_keyMap d' = d_keyMap d" "d_state d' = d_state d"
    "d_allowedips d' = d_allowedips d" "p_isRunning (peer_heap d' q) = p_isRunning (peer_heap d q)"
    "peers_of d' = peers_of d" "next_peer d' = next_peer d"
  using assms by (simp_all add: calm_def peers_of_def)

lemma wf_deviceD:
  assumes "wf_device d"
  shows "peer_ok (next_kp d) (peer_heap d q)" "keypair_ok (kp_heap d k)" "distinct (map fst (d_keyMap d))"
    "distinct (peers_of d)" "allowed_inv (d_allowedips d)" "length (d_handshakeq d) \<le> QueueHandshakeSize"
    "p_isRunning (peer_heap d q) \<Longrightarrow> q \<in> set (peers_of d)" "length (d_keyMap d) \<le> MaxPeers"
    "(pk, p) \<in> set (d_keyMap d) \<Longrightarrow> p < next_peer d \<and> hs_remoteStatic (hs_of d p) = pk"
  using assms by (auto simp: wf_device_def)

section \<open>Elementary updates\<close>

lemma calm_upd_peer:
  assumes "peer_ok (next_kp d) (peer_heap d p) \<Longrightarrow> peer_ok (next_kp d) (f (peer_heap d p))"
    "hs_remoteStatic (p_handshake (f (peer_heap d p))) = hs_remoteStatic (hs_of d p)"
    "p_isRunning (f (peer_heap d p)) = p_isRunning (peer_heap d p)"
  shows "calm d (upd_peer p f d)"
  using assms by (auto simp: calm_def wf_device_def peers_of_def)

lemma calm_upd_hs:
  assumes "hs_remoteStatic (f (hs_of d p)) = hs_remoteStatic (hs_of d p)"
  shows "calm d (upd_hs p f d)"
  unfolding upd_hs_def using assms by (intro calm_upd_peer) (simp_all add: peer_ok_def)

lemma calm_upd_kps:
  assumes "slots (f (kps_of d p)) \<subseteq> slots (kps_of d p)"
  shows "calm d (upd_kps p f d)"
  unfolding upd_kps_def using assms by (intro calm_upd_peer) (auto simp: peer_ok_def)

lemma calm_upd_kp:
  assumes "keypair_ok (kp_heap d k) \<Longrightarrow> keypair_ok (f (kp_heap d k))"
  shows "calm d (upd_kp k f d)"
  using assms by (auto simp: calm_def wf_device_def peers_of_def upd_kp_def)

lemma calm_fields [simp]:
  "calm d (d\<lparr>d_indexTable := t\<rparr>)" "calm d (d\<lparr>net_out := n\<rparr>)" "calm d (d\<lparr>tun_out := b\<rparr>)"
  "calm d (d\<lparr>d_cookieChecker := cc\<rparr>)" "calm d (d\<lparr>d_limiter := l\<rparr>)" "calm d (d\<lparr>d_underLoadUntil := u\<rparr>)"
  "calm d (d\<lparr>d_port := po\<rparr>)" "calm d (d\<lparr>d_fwmark := fm\<rparr>)" "calm d (d\<lparr>d_receivers := rc\<rparr>)"
  "calm d (d\<lparr>d_mtu := m\<rparr>)" "calm d (d\<lparr>d_brokenRoaming := br\<rparr>)"
  by (simp_all add: calm_def wf_device_def peers_of_def)

lemma calm_handshakeq: "(length (d_handshakeq d) \<le> QueueHandshakeSize \<Longrightarrow> length q \<le> QueueHandshakeSize) \<Longrightarrow>
    calm d (d\<lparr>d_handshakeq := q\<rparr>)"
  by (simp add: calm_def wf_device_def peers_of_def)

lemma calm_upd_peer_simple:
  assumes "\<And>x. p_staged (f x) = p_staged x" "\<And>x. p_reserved (f x) = p_reserved x"
    "\<And>x. p_isRunning (f x) = p_isRunning x" "\<And>x. p_timers (f x) = p_timers x"
    "\<And>x. p_keypairs (f x) = p_keypairs x" "\<And>x. p_handshake (f x) = p_handshake x"
  shows "calm d (upd_peer p f d)"
  using assms by (intro calm_upd_peer) (simp_all add: peer_ok_def)

section \<open>Timers\<close>

lemma calm_upd_tm:
  assumes "idle (tm_of d p) \<Longrightarrow> \<not> timersActive p d \<Longrightarrow> idle (f (tm_of d p))" "timersActive p d \<or> \<not> p_isRunning (peer_heap d p) \<or>
      (idle (tm_of d p) \<longrightarrow> idle (f (tm_of d p)))"
  shows "calm d (upd_tm p f d)"
  unfolding upd_tm_def using assms by (intro calm_upd_peer) (auto simp: peer_ok_def timersActive_def)

lemma calm_upd_tm_active: "timersActive p d \<Longrightarrow> calm d (upd_tm p f d)"
  by (rule calm_upd_tm) simp_all

lemma calm_upd_tm_idle: "(\<And>t. idle t \<Longrightarrow> idle (f t)) \<Longrightarrow> calm d (upd_tm p f d)"
  by (rule calm_upd_tm) auto

lemma idle_fields [simp]:
  "idle (t\<lparr>tm_handshakeAttempts := a\<rparr>) = idle t" "idle (t\<lparr>tm_needAnotherKeepalive := b\<rparr>) = idle t"
  "idle (t\<lparr>tm_sentLastMinuteHandshake := b\<rparr>) = idle t"
  by (simp_all add: idle_def)

lemma calm_complete: "calm d (timersHandshakeComplete E p d)"
proof -
  define d1 where "d1 = (if timersActive p d
    then upd_tm p (\<lambda>t. t\<lparr>tm_retransmitHandshake := timer_Del (tm_retransmitHandshake t)\<rparr>) d else d)"
  have "calm d d1" by (simp add: d1_def calm_upd_tm_active)
  also have "calm d1 (upd_tm p (\<lambda>t. t\<lparr>tm_handshakeAttempts := 0, tm_sentLastMinuteHandshake := False\<rparr>) d1)"
    by (rule calm_upd_tm_idle) simp
  also have "calm \<dots> (timersHandshakeComplete E p d)"
    unfolding timersHandshakeComplete_def Let_def d1_def by (rule calm_upd_peer_simple) simp_all
  finally show ?thesis .
qed

lemma calm_hooks [simp]:
  "calm d (timersDataSent E p d)" "calm d (timersDataReceived E p d)"
  "calm d (timersAnyAuthenticatedPacketSent p d)" "calm d (timersAnyAuthenticatedPacketReceived p d)"
  "calm d (timersHandshakeInitiated E p d)" "calm d (timersSessionDerived E p d)"
  "calm d (timersAnyAuthenticatedPacketTraversal E p d)" "calm d (timersHandshakeComplete E p d)"
  by (simp_all add: timersDataSent_def timersDataReceived_def timersAnyAuthenticatedPacketSent_def
      timersAnyAuthenticatedPacketReceived_def timersHandshakeInitiated_def timersSessionDerived_def
      timersAnyAuthenticatedPacketTraversal_def Let_def calm_upd_tm_active calm_complete)

section \<open>Sending\<close>

lemma calm_SendBuffers: "SendBuffers res p bufs trick d = (e, d') \<Longrightarrow> calm d d'"
proof -
  assume s: "SendBuffers res p bufs trick d = (e, d')"
  obtain ep c t out where d': "d' = d\<lparr>peer_heap := (peer_heap d)(p := (peer_heap d p)\<lparr>p_txBytes := t,
      p_endpoint := ep, p_clearSrcOnTx := c\<rparr>), net_out := net_out d @ out\<rparr>"
    using SendBuffers_state [of res p bufs trick d] s by auto
  have "calm d (upd_peer p (\<lambda>x. x\<lparr>p_txBytes := t, p_endpoint := ep, p_clearSrcOnTx := c\<rparr>) d)"
    by (rule calm_upd_peer_simple) simp_all
  also have "calm \<dots> d'" unfolding d' upd_peer_def by (rule calm_fields(2))
  finally show ?thesis .
qed

lemma calm_random_loop: "random_loop t p hdr i n d = Some d' \<Longrightarrow> calm d d'"
proof (induction n arbitrary: i d)
  case (Suc n)
  from random_loop_step [OF Suc.prems] show ?case
    using Suc.IH calm_SendBuffers calm_trans calm_refl unfolding Let_def by (metis prod.collapse)
qed simp

lemma calm_tricks: "run_tricks E p d = Some d' \<Longrightarrow> calm d d'"
  by (auto simp: run_tricks_def sendRandomPackets_def Let_def bind_eq_Some_conv split: if_splits
      dest: calm_random_loop)

lemma calm_add_macs: "add_macs C E p b d = Some (b', d') \<Longrightarrow> calm d d'"
  by (auto simp: add_macs_def bind_eq_Some_conv intro!: calm_upd_peer_simple)

lemma mix_remoteStatic [simp]:
  "hs_remoteStatic (hs_mixHash C x h) = hs_remoteStatic h" "hs_remoteStatic (hs_mixKey C x h) = hs_remoteStatic h"
  by (simp_all add: hs_mixHash_def hs_mixKey_def)

lemma calm_hs_index:
  assumes "hs_remoteStatic h = hs_remoteStatic (hs_of d p)"
  shows "calm d (upd_hs p (\<lambda>_. h) (d\<lparr>d_indexTable := t\<rparr>))"
proof -
  have "calm d (d\<lparr>d_indexTable := t\<rparr>)" by simp
  also have "calm \<dots> (upd_hs p (\<lambda>_. h) (d\<lparr>d_indexTable := t\<rparr>))" using assms by (intro calm_upd_hs) simp
  finally show ?thesis .
qed

lemma calm_CreateMessageInitiation: "CreateMessageInitiation C p eph idx ts d = Some (r, d') \<Longrightarrow> calm d d'"
  by (auto simp: CreateMessageInitiation_def Let_def intro!: calm_hs_index calm_upd_hs
      split: prod.splits if_splits option.splits)

lemma calm_CreateMessageResponse: "CreateMessageResponse C p eph idx d = Some (r, d') \<Longrightarrow> calm d d'"
  by (auto simp: CreateMessageResponse_def Let_def intro!: calm_hs_index calm_upd_hs
      split: prod.splits if_splits option.splits)

lemma calm_ConsumeMessageInitiation: "ConsumeMessageInitiation C msg t1 t2 d = (r, d') \<Longrightarrow> calm d d'"
  by (auto simp: ConsumeMessageInitiation_def Let_def intro!: calm_upd_hs
      split: prod.splits if_splits option.splits)

lemma calm_ConsumeMessageResponse: "ConsumeMessageResponse C msg d = (r, d') \<Longrightarrow> calm d d'"
  by (auto simp: ConsumeMessageResponse_def Let_def intro!: calm_upd_hs
      split: prod.splits if_splits option.splits)

lemma calm_initiation:
  assumes "SendHandshakeInitiation C E r p d = Some (e, d')"
  shows "calm d d'"
proof -
  define d0 where "d0 = (if \<not> r then upd_tm p (\<lambda>t. t\<lparr>tm_handshakeAttempts := 0\<rparr>) d else d)"
  have s0: "calm d d0" by (auto simp: d0_def intro: calm_upd_tm_idle)
  have hs: "calm x (upd_hs p (\<lambda>h. h\<lparr>hs_lastSentHandshake := t\<rparr>) x)" for x t by (rule calm_upd_hs) simp
  from assms show ?thesis
  proof (cases rule: SendHandshakeInitiation_cases)
    case limited
    then show ?thesis using s0 by (simp add: d0_def)
  next
    case (failed d1 err)
    note s0
    also have "calm d0 d1" using failed(1) by (intro calm_tricks) (simp add: d0_def)
    also note hs
    also have "calm (upd_hs p (\<lambda>h. h\<lparr>hs_lastSentHandshake := e_clock E At_Sent\<rparr>) d1) d'"
      by (rule calm_CreateMessageInitiation [OF failed(2)])
    finally show ?thesis .
  next
    case (sent d1 msg d3 pkt d4 err d7)
    note s0
    also have "calm d0 d1" using sent(1) by (intro calm_tricks) (simp add: d0_def)
    also note hs
    also have "calm (upd_hs p (\<lambda>h. h\<lparr>hs_lastSentHandshake := e_clock E At_Sent\<rparr>) d1) d3"
      by (rule calm_CreateMessageInitiation [OF sent(2)])
    also have "calm d3 d4" by (rule calm_add_macs [OF sent(3)])
    also have "calm d4 (timersAnyAuthenticatedPacketTraversal E p d4)" by simp
    also have "calm \<dots> (timersAnyAuthenticatedPacketSent p (timersAnyAuthenticatedPacketTraversal E p d4))" by simp
    also have "calm \<dots> d7" by (rule calm_SendBuffers [OF sent(4)])
    also have "calm d7 d'" unfolding sent(5) by simp
    finally show ?thesis .
  qed
qed

section \<open>Sessions\<close>

lemma calm_DeleteKeypair [simp]: "calm d (DeleteKeypair k d)"
  by (simp add: DeleteKeypair_def split: option.split)

lemma peer_ok_mono: "peer_ok n x \<Longrightarrow> n \<le> m \<Longrightarrow> peer_ok m x"
  by (auto simp: peer_ok_def)

lemma slots_update [simp]:
  "slots (x\<lparr>kps_current := None\<rparr>) \<subseteq> slots x" "slots (x\<lparr>kps_previous := None\<rparr>) \<subseteq> slots x"
  "slots (x\<lparr>kps_next := None\<rparr>) \<subseteq> slots x"
  by (auto simp: slots_def)

lemma calm_received: "ReceivedWithKeypair p k d = (b, d') \<Longrightarrow> calm d d'"
proof -
  assume r: "ReceivedWithKeypair p k d = (b, d')"
  show ?thesis
  proof (cases "kps_next (kps_of d p) = Some k")
    case False
    then show ?thesis using r by (simp add: ReceivedWithKeypair_def)
  next
    case True
    define d1 where "d1 = upd_kps p (\<lambda>x. x\<lparr>kps_previous := kps_current x\<rparr>) d"
    define d2 where "d2 = DeleteKeypair (kps_previous (kps_of d p)) d1"
    have "calm d d1" unfolding d1_def by (rule calm_upd_kps) (auto simp: slots_def)
    also have "calm d1 d2" by (simp add: d2_def)
    also have "calm d2 d'" using r True
      by (auto simp: ReceivedWithKeypair_def Let_def d2_def d1_def intro!: calm_upd_kps) (auto simp: slots_def)
    finally show ?thesis .
  qed
qed

text \<open>Rotation of keypairs, once the new one is allocated.\<close>

lemma calm_put_slots:
  assumes "slots (f (kps_of d p)) \<subseteq> insert k (slots (kps_of d p))" "k < next_kp d"
  shows "calm d (upd_kps p f d)"
  unfolding upd_kps_def using assms by (intro calm_upd_peer) (auto simp: peer_ok_def)

lemma calm_rotate_responder:
  assumes "k < next_kp d"
  shows "calm d (rotate_responder p k d)"
proof -
  have "calm d (upd_kps p (\<lambda>x. x\<lparr>kps_next := Some k\<rparr>) d)"
    by (rule calm_put_slots [OF _ assms]) (auto simp: slots_def)
  also have "calm \<dots> (DeleteKeypair (kps_next (kps_of d p)) (upd_kps p (\<lambda>x. x\<lparr>kps_next := Some k\<rparr>) d))" by simp
  also have "calm \<dots> (upd_kps p (\<lambda>x. x\<lparr>kps_previous := None\<rparr>)
      (DeleteKeypair (kps_next (kps_of d p)) (upd_kps p (\<lambda>x. x\<lparr>kps_next := Some k\<rparr>) d)))"
    by (rule calm_upd_kps) simp
  also have "calm \<dots> (rotate_responder p k d)" by (simp add: rotate_responder_def Let_def)
  finally show ?thesis .
qed

lemma calm_rotate_initiator:
  assumes "k < next_kp d"
  shows "calm d (rotate_initiator p k d)"
proof -
  let ?kps = "kps_of d p"
  define d1 where "d1 = (if kps_next ?kps \<noteq> None
    then DeleteKeypair (kps_current ?kps) (upd_kps p (\<lambda>x. x\<lparr>kps_next := None, kps_previous := kps_next ?kps\<rparr>) d)
    else upd_kps p (\<lambda>x. x\<lparr>kps_previous := kps_current ?kps\<rparr>) d)"
  have "calm d (upd_kps p (\<lambda>x. x\<lparr>kps_next := None, kps_previous := kps_next ?kps\<rparr>) d)"
    "calm d (upd_kps p (\<lambda>x. x\<lparr>kps_previous := kps_current ?kps\<rparr>) d)"
    by (rule calm_upd_kps; auto simp: slots_def)+
  then have "calm d d1" unfolding d1_def using calm_trans [OF _ calm_DeleteKeypair] by simp
  moreover have k1: "kps_of d1 p = (if kps_next ?kps \<noteq> None then ?kps\<lparr>kps_next := None, kps_previous := kps_next ?kps\<rparr>
      else ?kps\<lparr>kps_previous := kps_current ?kps\<rparr>)" "next_kp d1 = next_kp d"
    by (simp_all add: d1_def)
  ultimately have "calm d d1" by simp
  also have "calm d1 (DeleteKeypair (kps_previous ?kps) d1)" by simp
  also have "calm \<dots> (rotate_initiator p k d)"
    unfolding rotate_initiator_def Let_def d1_def [symmetric]
    by (rule calm_put_slots [where k = k]) (use assms k1 in \<open>auto simp: slots_def k1\<close>)
  finally show ?thesis .
qed

lemma calm_install:
  assumes "keypair_ok kp"
  shows "calm d (install_keypair p kp d)"
proof -
  let ?k = "next_kp d" and ?t = "SwapIndexForKeypair (hs_localIndex (hs_of d p)) (next_kp d) (d_indexTable d)"
  let ?d1 = "d\<lparr>kp_heap := (kp_heap d)(?k := kp), next_kp := Suc ?k, d_indexTable := ?t\<rparr>"
  have "calm d ?d1"
    using assms peer_ok_mono [of ?k _ "Suc ?k"] by (auto simp: calm_def wf_device_def peers_of_def)
  also have "calm ?d1 (upd_hs p (\<lambda>h. h\<lparr>hs_localIndex := 0\<rparr>) ?d1)" by (rule calm_upd_hs) simp
  also have "calm \<dots> (install_keypair p kp d)"
    unfolding install_keypair_def Let_def by (auto intro!: calm_rotate_initiator calm_rotate_responder)
  finally show ?thesis .
qed

lemma calm_BeginSymmetricSession:
  assumes "BeginSymmetricSession C p now d = (e, d')"
  shows "calm d d'"
proof -
  have z: "calm d (upd_hs p zero_session_handshake d)"
    by (rule calm_upd_hs) (simp add: zero_session_handshake_def)
  have "length (ring zero_Filter) = 128" using filter_rel_zero by (simp add: filter_rel_def)
  then have f: "keypair_ok \<lparr>kp_sendNonce = 0, kp_send = a, kp_receive = b, kp_replayFilter = Reset zero_Filter,
      kp_isInitiator = i, kp_created = t, kp_localIndex = l, kp_remoteIndex = r\<rparr>" for a b i t l r
    using filter_rel_Reset by (auto simp: keypair_ok_def)
  show ?thesis using assms calm_trans [OF z calm_install [OF f]]
    by (auto simp: BeginSymmetricSession_def Let_def split: handshakeState.splits prod.splits)
qed

lemma calm_response:
  assumes "SendHandshakeResponse C E p d = Some (e, d')"
  shows "calm d d'"
proof -
  let ?d1 = "upd_hs p (\<lambda>h. h\<lparr>hs_lastSentHandshake := e_clock E At_Responded\<rparr>) d"
  obtain r d2 where c: "CreateMessageResponse C p (e_ephemeral E p) (e_index E p) ?d1 = Some (r, d2)"
    using assms by (auto simp: SendHandshakeResponse_def elim!: bind_SomeE)
  have "calm d ?d1" by (rule calm_upd_hs) simp
  also have "calm ?d1 d2" by (rule calm_CreateMessageResponse [OF c])
  finally have 2: "calm d d2" .
  show ?thesis
  proof (cases r)
    case (Inl err)
    then show ?thesis using assms c 2 by (simp add: SendHandshakeResponse_def)
  next
    case (Inr response)
    obtain pkt d3 serr d4 where m: "add_macs C E p (write_response response) d2 = Some (pkt, d3)"
      and b: "BeginSymmetricSession C p (e_clock E At_Session) d3 = (serr, d4)"
      and rest: "(case serr of Some e \<Rightarrow> Some (Some (HsSession e), d4)
         | None \<Rightarrow> (let d5 = timersSessionDerived E p d4; d6 = timersAnyAuthenticatedPacketTraversal E p d5;
             d7 = timersAnyAuthenticatedPacketSent p d6; (err, d8) = SendBuffers (e_send E p) p [pkt] False d7
             in Some (map_option HsSend err, d8))) = Some (e, d')"
      using assms c Inr by (auto simp: SendHandshakeResponse_def Let_def elim!: bind_SomeE split: prod.splits)
    note 2
    also have "calm d2 d3" by (rule calm_add_macs [OF m])
    also have "calm d3 d4" by (rule calm_BeginSymmetricSession [OF b])
    also have "calm d4 d'"
    proof (cases serr)
      case (Some x)
      then show ?thesis using rest by simp
    next
      case None
      let ?d5 = "timersSessionDerived E p d4"
      let ?d6 = "timersAnyAuthenticatedPacketTraversal E p ?d5"
      let ?d7 = "timersAnyAuthenticatedPacketSent p ?d6"
      obtain err where "SendBuffers (e_send E p) p [pkt] False ?d7 = (err, d')"
        using rest None by (auto simp: Let_def split: prod.splits)
      then have "calm ?d7 d'" by (rule calm_SendBuffers)
      then show ?thesis
        using calm_trans [OF calm_hooks(6) calm_trans [OF calm_hooks(7) calm_trans [OF calm_hooks(3)]]] by blast
    qed
    finally show ?thesis .
  qed
qed

lemma calm_flush: "calm d (FlushStagedPackets p d)"
  unfolding FlushStagedPackets_def by (rule calm_upd_peer) (simp_all add: peer_ok_def)

lemma handshake_Clear_remoteStatic [simp]: "hs_remoteStatic (handshake_Clear h) = hs_remoteStatic h"
  by (simp add: handshake_Clear_def)

lemma calm_ZeroAndFlushAll: "calm d (ZeroAndFlushAll p d)"
proof -
  let ?kps = "kps_of d p"
  define d3 where "d3 = DeleteKeypair (kps_next ?kps) (DeleteKeypair (kps_current ?kps) (DeleteKeypair (kps_previous ?kps) d))"
  define d4 where "d4 = upd_kps p (\<lambda>x. x\<lparr>kps_current := None, kps_previous := None, kps_next := None\<rparr>) d3"
  have "calm d d3" unfolding d3_def using calm_trans calm_DeleteKeypair by blast
  also have "calm d3 d4" unfolding d4_def by (rule calm_upd_kps) (auto simp: slots_def)
  also have "calm d4 (d4\<lparr>d_indexTable := idx_Delete (hs_localIndex (hs_of d4 p)) (d_indexTable d4)\<rparr>)" by simp
  also have "calm \<dots> (upd_hs p handshake_Clear \<dots>)" by (rule calm_upd_hs) simp
  also have "calm \<dots> (ZeroAndFlushAll p d)"
    unfolding ZeroAndFlushAll_def Let_def d4_def d3_def by (rule calm_flush)
  finally show ?thesis .
qed

lemma calm_expire_keypair: "calm d (expire_keypair ko d)"
  by (auto simp: expire_keypair_def keypair_ok_def intro!: calm_upd_kp split: option.split)

lemma calm_ExpireCurrentKeypairs: "calm d (ExpireCurrentKeypairs E p d)"
proof -
  let ?d1 = "d\<lparr>d_indexTable := idx_Delete (hs_localIndex (hs_of d p)) (d_indexTable d)\<rparr>"
  let ?d2 = "upd_hs p (\<lambda>h. (handshake_Clear h)\<lparr>hs_lastSentHandshake := e_clock E At_Expire - (RekeyTimeout + Second)\<rparr>) ?d1"
  have "calm d ?d1" by simp
  also have "calm ?d1 ?d2" by (rule calm_upd_hs) simp
  also have "calm ?d2 (expire_keypair (kps_current (kps_of ?d2 p)) ?d2)" by (rule calm_expire_keypair)
  also have "calm \<dots> (ExpireCurrentKeypairs E p d)"
    unfolding ExpireCurrentKeypairs_def Let_def by (rule calm_expire_keypair)
  finally show ?thesis .
qed

section \<open>Staging and encryption\<close>

lemma length_stage_into: "length q \<le> QueueStagedSize \<Longrightarrow> length (stage_into c q) \<le> QueueStagedSize"
  by (simp add: stage_into_drop QueueStagedSize_def)

lemma calm_staged:
  assumes "length (p_staged (peer_heap d p)) \<le> QueueStagedSize \<Longrightarrow> length (f (p_staged (peer_heap d p))) \<le> QueueStagedSize"
  shows "calm d (upd_peer p (\<lambda>x. x\<lparr>p_staged := f (p_staged x)\<rparr>) d)"
  using assms by (intro calm_upd_peer) (auto simp: peer_ok_def)

lemma calm_StagePackets: "calm d (StagePackets p es d)"
  unfolding StagePackets_def by (rule calm_staged) (rule length_stage_into)

lemma assign_nonces_le: "assign_nonces k es n = (n', kept, ooo) \<Longrightarrow> n \<le> RejectAfterMessages \<Longrightarrow> n' \<le> RejectAfterMessages"
proof -
  assume a: "assign_nonces k es n = (n', kept, ooo)" "n \<le> RejectAfterMessages"
  then have le: "unat n \<le> reject_nat" by (simp add: word_le_nat_alt unat_RejectAfterMessages)
  have "unat n' = unat n + min (length es) (reject_nat - unat n)"
    using assign_nonces_spec [OF le, of k es] a(1) by auto
  then show ?thesis using le by (simp add: word_le_nat_alt unat_RejectAfterMessages)
qed

lemma calm_pass:
  assumes "staged_pass p k cs d = (b, d')" "length cs \<le> QueueStagedSize"
  shows "calm d d'"
  using assms
proof (induction cs arbitrary: d)
  case (Cons c cs)
  obtain n kept ooo where a: "assign_nonces k c (kp_sendNonce (kp_heap d k)) = (n, kept, ooo)"
    by (metis prod.exhaust)
  define d0 where "d0 = upd_peer p (\<lambda>x. x\<lparr>p_staged := cs\<rparr>) d"
  define d1 where "d1 = upd_kp k (\<lambda>x. x\<lparr>kp_sendNonce := n\<rparr>) d0"
  define d2 where "d2 = (if ooo \<noteq> [] then StagePackets p ooo d1 else d1)"
  define d3 where "d3 = (if p_isRunning (peer_heap d2 p)
    then upd_peer p (\<lambda>x. x\<lparr>p_outbound := p_outbound x @ [\<lparr>oc_locked = True, oc_elems = kept\<rparr>]\<rparr>) d2 else d2)"
  have "calm d d0" unfolding d0_def by (rule calm_staged) (use Cons.prems(2) in simp)
  also have "calm d0 d1" unfolding d1_def
    by (rule calm_upd_kp) (use assign_nonces_le [OF a] in \<open>simp add: keypair_ok_def d0_def\<close>)
  also have "calm d1 d2" by (simp add: d2_def calm_StagePackets)
  finally have 2: "calm d d2" .
  have 3: "calm d2 d3" by (auto simp: d3_def intro!: calm_upd_peer_simple)
  have "d' = d2 \<or> d' = d3 \<or> staged_pass p k cs d3 = (b, d')"
    using Cons.prems(1) unfolding staged_pass.simps Let_def a prod.case d0_def [symmetric] d1_def [symmetric]
      d2_def [symmetric] d3_def [symmetric] by (auto split: if_splits)
  moreover have "length cs \<le> QueueStagedSize" using Cons.prems(2) by simp
  ultimately show ?case using Cons.IH [of d3] 2 calm_trans [OF 2 3] calm_trans by blast
qed simp

lemma calm_wf_only: "(wf_device d \<Longrightarrow> calm d d') \<Longrightarrow> wf_device d \<Longrightarrow> calm d d'"
  by blast

lemma staged_bound: "wf_device d \<Longrightarrow> length (p_staged (peer_heap d p)) \<le> QueueStagedSize"
  using wf_deviceD(1) by (auto simp: peer_ok_def)

lemma calm_staged_top: "staged_top f C E p d = Some d' \<Longrightarrow> wf_device d \<Longrightarrow> calm d d'"
proof (induction f arbitrary: d)
  case (Suc f)
  consider "d' = d" | e where "SendHandshakeInitiation C E False p d = Some (e, d')"
    | k b d1 where "staged_pass p k (p_staged (peer_heap d p)) d = (b, d1)" "d' = d1 \<or> staged_top f C E p d1 = Some d'"
    using Suc.prems(1) by (auto split: if_splits option.splits prod.splits bool.splits)
  then show ?case
  proof cases
    case (3 k b d1)
    have "calm d d1" by (rule calm_pass [OF 3(1) staged_bound [OF Suc.prems(2)]])
    then show ?thesis using 3(2) Suc.IH [of d1] Suc.prems(2) calmD(1) calm_trans by blast
  qed (use calm_initiation in auto)
qed simp

lemma calm_SendStaged: "SendStagedPackets C E p d = Some d' \<Longrightarrow> wf_device d \<Longrightarrow> calm d d'"
  unfolding SendStagedPackets_def by (rule calm_staged_top)

lemma calm_SendKeepalive:
  assumes "SendKeepalive C E p d = Some d'" "wf_device d"
  shows "calm d d'"
proof -
  obtain d1 where s: "SendStagedPackets C E p d1 = Some d'" and
    d1: "d1 = d \<or> (\<exists>x. run_tricks E p d = Some x \<and> (d1 = x \<or> length (p_staged (peer_heap x p)) < QueueStagedSize \<and>
      d1 = upd_peer p (\<lambda>y. y\<lparr>p_staged := p_staged y @ [[\<lparr>oe_packet = [], oe_nonce = 0, oe_keypair = None\<rparr>]]\<rparr>) x))"
    using assms(1) by (auto simp: SendKeepalive_def Let_def elim!: bind_SomeE split: if_splits)
  have st: "calm x (upd_peer p (\<lambda>y. y\<lparr>p_staged := p_staged y @ [a]\<rparr>) x)"
    if "length (p_staged (peer_heap x p)) < QueueStagedSize" for x a
    by (rule calm_staged) (use that in simp)
  have "calm d d1"
  proof (cases "d1 = d")
    case False
    then obtain x where "run_tricks E p d = Some x" and x: "d1 = x \<or> length (p_staged (peer_heap x p)) < QueueStagedSize \<and>
      d1 = upd_peer p (\<lambda>y. y\<lparr>p_staged := p_staged y @ [[\<lparr>oe_packet = [], oe_nonce = 0, oe_keypair = None\<rparr>]]\<rparr>) x"
      using d1 by blast
    then have "calm d x" using calm_tricks by blast
    then show ?thesis using x st calm_trans by blast
  qed simp
  then show ?thesis using calm_SendStaged [OF s] assms(2) calmD(1) calm_trans by blast
qed

lemma calm_stage_and_send: "stage_and_send C Es m d = Some d' \<Longrightarrow> wf_device d \<Longrightarrow> calm d d'"
proof (induction m arbitrary: d)
  case (Cons pe m)
  obtain p es where pe: "pe = (p, es)" by fastforce
  show ?case
  proof (cases "p_isRunning (peer_heap d p)")
    case False
    then show ?thesis using Cons pe by simp
  next
    case True
    then obtain d1 where d1: "SendStagedPackets C (Es p) p (StagePackets p es d) = Some d1" "stage_and_send C Es m d1 = Some d'"
      using Cons.prems(1) pe by (auto elim: bind_SomeE)
    have "wf_device (StagePackets p es d)" by (rule calmD(1) [OF calm_StagePackets Cons.prems(2)])
    then have "calm d d1" using calm_trans [OF calm_StagePackets calm_SendStaged [OF d1(1)]] by blast
    then show ?thesis using Cons.IH [OF d1(2)] Cons.prems(2) calmD(1) calm_trans by blast
  qed
qed simp

lemma calm_ReadFromTUN: "RoutineReadFromTUN C Es packets d = Some d' \<Longrightarrow> wf_device d \<Longrightarrow> calm d d'"
  unfolding RoutineReadFromTUN_def by (auto elim!: bind_SomeE dest: calm_stage_and_send)

lemma calm_Encryption: "RoutineEncryption C p i d = Some d' \<Longrightarrow> calm d d'"
  by (auto simp: RoutineEncryption_def Let_def elim!: bind_SomeE split: if_splits intro!: calm_upd_peer_simple)

lemma calm_keepKeyFreshSending: "keepKeyFreshSending C E p d = Some d' \<Longrightarrow> calm d d'"
  by (auto simp: keepKeyFreshSending_def Let_def split: option.splits if_splits dest: calm_initiation)

lemma calm_SequentialSender:
  assumes "RoutineSequentialSender C E p d = Some d'"
  shows "calm d d'"
proof (cases "p_outbound (peer_heap d p)")
  case Nil
  then show ?thesis using assms by (simp add: RoutineSequentialSender_def)
next
  case (Cons c cs)
  define d0 where "d0 = upd_peer p (\<lambda>x. x\<lparr>p_outbound := cs\<rparr>) d"
  have 0: "calm d d0" unfolding d0_def by (rule calm_upd_peer_simple) simp_all
  show ?thesis
  proof (cases "oc_locked c \<or> \<not> p_isRunning (peer_heap d0 p)")
    case True
    then show ?thesis using assms Cons 0
      by (auto simp: RoutineSequentialSender_def Let_def d0_def split: if_splits)
  next
    case False
    define d2 where "d2 = timersAnyAuthenticatedPacketSent p (timersAnyAuthenticatedPacketTraversal E p d0)"
    obtain err d3 where s: "SendBuffers (e_send E p) p (map oe_packet (oc_elems c)) False d2 = (err, d3)" by fastforce
    define d4 where "d4 = (if list_ex (\<lambda>e. length (oe_packet e) \<noteq> MessageKeepaliveSize) (oc_elems c)
      then timersDataSent E p d3 else d3)"
    have "d' = d4 \<or> keepKeyFreshSending C E p d4 = Some d'"
      using assms Cons False s
      by (auto simp: RoutineSequentialSender_def Let_def d0_def [symmetric] d2_def [symmetric] d4_def
          split: option.splits send_error.splits bool.splits)
    then have 4: "calm d4 d'" using calm_keepKeyFreshSending by auto
    note 0
    also have "calm d0 (timersAnyAuthenticatedPacketTraversal E p d0)" by simp
    also have "calm \<dots> d2" by (simp add: d2_def)
    also have "calm d2 d3" by (rule calm_SendBuffers [OF s])
    also have "calm d3 d4" by (simp add: d4_def)
    also note 4
    finally show ?thesis .
  qed
qed

section \<open>Receiving\<close>

lemma calm_SetEndpoint: "calm d (SetEndpointFromPacket p ep d)"
  by (auto simp: SetEndpointFromPacket_def intro!: calm_upd_peer_simple)

lemma calm_add_rx: "calm d (add_rx p n d)"
  unfolding add_rx_def by (rule calm_upd_peer_simple) simp_all

lemma calm_enqueue_handshake: "calm d (enqueue_handshake e d)"
  by (auto simp: enqueue_handshake_def intro!: calm_handshakeq)

lemma calm_receive_batch: "receive_batch E bs m d = Some (m', d') \<Longrightarrow> calm d d'"
proof (induction E bs m d rule: receive_batch.induct)
  case (2 E buf ep bs m d)
  then show ?case using calm_trans [OF calm_enqueue_handshake]
    by (auto split: option.splits recv_action.splits)
qed simp

lemma calm_enqueue_inbound: "calm d (enqueue_inbound pe d)"
  by (auto simp: enqueue_inbound_def intro!: calm_upd_peer_simple)

lemma calm_fold: "(\<And>x d. calm d (f x d)) \<Longrightarrow> calm d (fold f xs d)"
  by (induction xs arbitrary: d) (auto intro: calm_trans)

lemma calm_ReceiveIncoming: "RoutineReceiveIncoming E batch d = Some d' \<Longrightarrow> calm d d'"
  using calm_trans [OF calm_receive_batch calm_fold [OF calm_enqueue_inbound]]
  by (auto simp: RoutineReceiveIncoming_def elim!: bind_SomeE split: prod.splits)

lemma calm_Decryption: "RoutineDecryption C p i d = Some d' \<Longrightarrow> calm d d'"
  by (auto simp: RoutineDecryption_def Let_def elim!: bind_SomeE split: if_splits intro!: calm_upd_peer_simple)

lemma calm_keepKeyFreshReceiving: "keepKeyFreshReceiving C E p d = Some d' \<Longrightarrow> calm d d'"
proof -
  have t: "calm d (upd_tm p (\<lambda>t. t\<lparr>tm_sentLastMinuteHandshake := True\<rparr>) d)" by (rule calm_upd_tm_idle) simp
  show "keepKeyFreshReceiving C E p d = Some d' \<Longrightarrow> calm d d'"
    using calm_trans [OF t calm_initiation]
    by (auto simp: keepKeyFreshReceiving_def split: if_splits option.splits)
qed

lemma calm_confirm:
  assumes "confirm_keypair C E p e d = Some d'" "wf_device d"
  shows "calm d d'"
proof -
  obtain b d1 where r: "ReceivedWithKeypair p (ie_keypair e) d = (b, d1)" by fastforce
  have 1: "calm d d1" by (rule calm_received [OF r])
  show ?thesis
  proof (cases b)
    case False
    then show ?thesis using assms(1) r 1 by (simp add: confirm_keypair_def)
  next
    case True
    let ?d3 = "timersHandshakeComplete E p (SetEndpointFromPacket p (ie_endpoint e) d1)"
    note 1
    also have "calm d1 (SetEndpointFromPacket p (ie_endpoint e) d1)" by (rule calm_SetEndpoint)
    also have "calm \<dots> ?d3" by simp
    finally have 3: "calm d ?d3" .
    have "SendStagedPackets C E p ?d3 = Some d'" using assms(1) r True by (simp add: confirm_keypair_def)
    then show ?thesis using calm_trans [OF 3 calm_SendStaged] calmD(1) [OF 3 assms(2)] by blast
  qed
qed

lemma calm_validate:
  assumes "ValidateCounter (kp_replayFilter (kp_heap d k)) c lim = (ok, flt)"
  shows "calm d (upd_kp k (\<lambda>x. x\<lparr>kp_replayFilter := flt\<rparr>) d)"
proof (rule calm_upd_kp)
  assume "keypair_ok (kp_heap d k)"
  then obtain S where S: "filter_rel (kp_replayFilter (kp_heap d k)) S" "kp_sendNonce (kp_heap d k) \<le> RejectAfterMessages"
    by (auto simp: keypair_ok_def)
  from ValidateCounter_rel [OF S(1), of c lim] have "\<exists>S'. filter_rel flt S'" using assms by auto
  then show "keypair_ok ((kp_heap d k)\<lparr>kp_replayFilter := flt\<rparr>)" using S(2) by (simp add: keypair_ok_def)
qed

lemma calm_receive_elem:
  assumes "receive_elem C E p e s = Some s'" "wf_device (rs_dev s)"
  shows "calm (rs_dev s) (rs_dev s')"
proof (cases "ie_packet e")
  case None
  then show ?thesis using assms by (simp add: receive_elem_def)
next
  case (Some full)
  obtain ok flt where v: "ValidateCounter (kp_replayFilter (kp_heap (rs_dev s) (ie_keypair e))) (ie_counter e) RejectAfterMessages = (ok, flt)"
    by fastforce
  define d1 where "d1 = upd_kp (ie_keypair e) (\<lambda>x. x\<lparr>kp_replayFilter := flt\<rparr>) (rs_dev s)"
  have 1: "calm (rs_dev s) d1" unfolding d1_def by (rule calm_validate [OF v])
  show ?thesis
  proof (cases ok)
    case False
    then have "s' = s\<lparr>rs_dev := d1\<rparr>" using assms(1) v Some by (simp add: receive_elem_def d1_def)
    then show ?thesis using 1 by simp
  next
    case True
    obtain d2 where d2: "confirm_keypair C E p e d1 = Some d2"
      using assms(1) v Some True by (auto simp: receive_elem_def d1_def elim!: bind_SomeE)
    have "rs_dev s' = d2" using assms(1) v Some True d2
      by (auto simp: receive_elem_def d1_def Let_def bind_eq_Some_conv split: if_splits option.splits)
    then show ?thesis using calm_trans [OF 1 calm_confirm [OF d2 calmD(1) [OF 1 assms(2)]]] by simp
  qed
qed

lemma calm_receive_elems: "receive_elems C E p es s = Some s' \<Longrightarrow> wf_device (rs_dev s) \<Longrightarrow> calm (rs_dev s) (rs_dev s')"
proof (induction es arbitrary: s)
  case (Cons e es)
  then obtain s1 where s1: "receive_elem C E p e s = Some s1" "receive_elems C E p es s1 = Some s'"
    by (auto elim: bind_SomeE)
  have 1: "calm (rs_dev s) (rs_dev s1)" by (rule calm_receive_elem [OF s1(1) Cons.prems(2)])
  show ?case using calm_trans [OF 1 Cons.IH [OF s1(2) calmD(1) [OF 1 Cons.prems(2)]]] .
qed simp

lemma calm_SequentialReceiver:
  assumes "RoutineSequentialReceiver C E p d = Some d'" "wf_device d"
  shows "calm d d'"
proof (cases "p_inbound (peer_heap d p)")
  case Nil
  then show ?thesis using assms by (simp add: RoutineSequentialReceiver_def)
next
  case (Cons c cs)
  show ?thesis
  proof (cases "ic_locked c")
    case True
    then show ?thesis using assms Cons by (simp add: RoutineSequentialReceiver_def)
  next
    case False
    let ?d0 = "upd_peer p (\<lambda>x. x\<lparr>p_inbound := cs\<rparr>) d"
    let ?s = "\<lparr>rs_dev = ?d0, rs_tail = None, rs_data = False, rs_rx = 0, rs_bufs = []\<rparr>"
    obtain s d2 where s: "receive_elems C E p (ic_elems c) ?s = Some s"
      and d2: "(case rs_tail s of None \<Rightarrow> Some (add_rx p (rs_rx s) (rs_dev s))
         | Some ep \<Rightarrow> do { d' \<leftarrow> keepKeyFreshReceiving C E p (SetEndpointFromPacket p ep (add_rx p (rs_rx s) (rs_dev s)));
             Some (timersAnyAuthenticatedPacketReceived p (timersAnyAuthenticatedPacketTraversal E p d')) }) = Some d2"
      and d': "d' = (let d3 = (if rs_data s then timersDataReceived E p d2 else d2) in d3\<lparr>tun_out := tun_out d3 @ rs_bufs s\<rparr>)"
      using assms(1) Cons False by (auto simp: RoutineSequentialReceiver_def Let_def elim!: bind_SomeE)
    define d1 where "d1 = add_rx p (rs_rx s) (rs_dev s)"
    have 0: "calm d ?d0" by (rule calm_upd_peer_simple) simp_all
    then have "calm ?d0 (rs_dev s)" using calm_receive_elems [OF s] calmD(1) assms(2) by simp
    note 0
    also note \<open>calm ?d0 (rs_dev s)\<close>
    also have "calm (rs_dev s) d1" unfolding d1_def by (rule calm_add_rx)
    also have "calm d1 d2"
    proof (cases "rs_tail s")
      case None
      then show ?thesis using d2 by (simp add: d1_def)
    next
      case (Some ep)
      then obtain x where x: "keepKeyFreshReceiving C E p (SetEndpointFromPacket p ep d1) = Some x"
        "d2 = timersAnyAuthenticatedPacketReceived p (timersAnyAuthenticatedPacketTraversal E p x)"
        using d2 by (auto simp: d1_def elim!: bind_SomeE)
      have "calm d1 (SetEndpointFromPacket p ep d1)" by (rule calm_SetEndpoint)
      also have "calm \<dots> x" by (rule calm_keepKeyFreshReceiving [OF x(1)])
      also have "calm x (timersAnyAuthenticatedPacketTraversal E p x)" by simp
      also have "calm \<dots> d2" unfolding x(2) by simp
      finally show ?thesis .
    qed
    also have "calm d2 (if rs_data s then timersDataReceived E p d2 else d2)" by simp
    also have "calm \<dots> d'" unfolding d' Let_def by simp
    finally show ?thesis .
  qed
qed

section \<open>Handshake messages\<close>

lemma calm_cookie_reply: "calm d (handle_cookie_reply C E elem d)"
  by (auto simp: handle_cookie_reply_def Let_def split: option.split prod.split intro!: calm_upd_peer_simple)

lemma calm_SendHandshakeCookie: "SendHandshakeCookie C E elem d = Some (b, d') \<Longrightarrow> calm d d'"
  using calm_trans [OF calm_fields(4) calm_fields(2)]
  by (auto simp: SendHandshakeCookie_def Let_def elim!: bind_SomeE split: if_splits option.splits prod.splits)

lemma calm_IsUnderLoad: "IsUnderLoad E d = (b, d') \<Longrightarrow> calm d d'"
  by (auto simp: IsUnderLoad_def Let_def split: if_splits)

lemma calm_admit:
  assumes "admit_handshake C E elem d = Some (ok, d')"
  shows "calm d d'"
proof -
  obtain l d1 where l: "IsUnderLoad E d = (l, d1)" by fastforce
  have 1: "calm d d1" by (rule calm_IsUnderLoad [OF l])
  have "d' = d \<or> d' = d1 \<or> (\<exists>b. SendHandshakeCookie C E elem d1 = Some (b, d')) \<or> (\<exists>lim. d' = d1\<lparr>d_limiter := lim\<rparr>)"
    using assms l by (auto simp: admit_handshake_def elim!: bind_SomeE split: if_splits prod.splits) blast
  then show ?thesis using 1 calm_trans calm_SendHandshakeCookie calm_fields(5) by blast
qed

lemma calm_handle_initiation: "handle_initiation C E elem d = Some d' \<Longrightarrow> calm d d'"
proof -
  assume a: "handle_initiation C E elem d = Some d'"
  obtain peer d1 where c: "ConsumeMessageInitiation C (read_initiation (he_packet elem)) (e_clock E At_Flood) (e_clock E At_Consumed) d = (peer, d1)"
    by fastforce
  have 1: "calm d d1" by (rule calm_ConsumeMessageInitiation [OF c])
  show ?thesis
  proof (cases peer)
    case None
    then show ?thesis using a c 1 by (simp add: handle_initiation_def)
  next
    case (Some p)
    let ?d3 = "timersAnyAuthenticatedPacketReceived p (timersAnyAuthenticatedPacketTraversal E p d1)"
    let ?d5 = "add_rx p (of_nat (length (he_packet elem))) (SetEndpointFromPacket p (he_endpoint elem) ?d3)"
    obtain e where r: "SendHandshakeResponse C E p ?d5 = Some (e, d')"
      using a c Some by (auto simp: handle_initiation_def Let_def)
    note 1
    also have "calm d1 (timersAnyAuthenticatedPacketTraversal E p d1)" by simp
    also have "calm \<dots> ?d3" by simp
    also note calm_SetEndpoint
    also note calm_add_rx
    also have "calm ?d5 d'" by (rule calm_response [OF r])
    finally show ?thesis .
  qed
qed

lemma calm_handle_response:
  assumes "handle_response C E elem d = Some d'" "wf_device d"
  shows "calm d d'"
proof -
  obtain peer d1 where c: "ConsumeMessageResponse C (read_response (he_packet elem)) d = (peer, d1)" by fastforce
  have 1: "calm d d1" by (rule calm_ConsumeMessageResponse [OF c])
  show ?thesis
  proof (cases peer)
    case None
    then show ?thesis using assms c 1 by (simp add: handle_response_def)
  next
    case (Some p)
    let ?d3 = "add_rx p (of_nat (length (he_packet elem))) (SetEndpointFromPacket p (he_endpoint elem) d1)"
    let ?d5 = "timersAnyAuthenticatedPacketReceived p (timersAnyAuthenticatedPacketTraversal E p ?d3)"
    obtain err d6 where b: "BeginSymmetricSession C p (e_clock E At_Session) ?d5 = (err, d6)" by fastforce
    note 1
    also note calm_SetEndpoint
    also have "calm (SetEndpointFromPacket p (he_endpoint elem) d1) ?d3" by (rule calm_add_rx)
    also have "calm ?d3 (timersAnyAuthenticatedPacketTraversal E p ?d3)" by simp
    also have "calm \<dots> ?d5" by simp
    also have "calm ?d5 d6" by (rule calm_BeginSymmetricSession [OF b])
    finally have 6: "calm d d6" .
    let ?d8 = "timersHandshakeComplete E p (timersSessionDerived E p d6)"
    note 6
    also have "calm d6 (timersSessionDerived E p d6)" by simp
    also have "calm \<dots> ?d8" by simp
    finally have 8: "calm d ?d8" .
    have "d' = d6 \<or> SendKeepalive C E p ?d8 = Some d'"
      using assms(1) c Some b by (auto simp: handle_response_def Let_def split: option.splits)
    then show ?thesis using 6 calm_trans [OF 8 calm_SendKeepalive [OF _ calmD(1) [OF 8 assms(2)]]] by blast
  qed
qed

lemma calm_RoutineHandshake:
  assumes "RoutineHandshake C E d = Some d'" "wf_device d"
  shows "calm d d'"
proof (cases "d_handshakeq d")
  case Nil
  then show ?thesis using assms by (simp add: RoutineHandshake_def)
next
  case (Cons elem es)
  let ?d0 = "d\<lparr>d_handshakeq := es\<rparr>"
  have 0: "calm d ?d0" by (rule calm_handshakeq) (use Cons in simp)
  have h: "handle_handshake_elem C E elem ?d0 = Some d'" using assms(1) Cons by (simp add: RoutineHandshake_def)
  consider "d' = ?d0" | "d' = handle_cookie_reply C E elem ?d0"
    | ok d1 where "admit_handshake C E elem ?d0 = Some (ok, d1)"
        "d' = d1 \<or> handle_initiation C E elem d1 = Some d' \<or> handle_response C E elem d1 = Some d'"
    using h by (auto simp: handle_handshake_elem_def elim!: bind_SomeE split: if_splits prod.splits)
  then show ?thesis
  proof cases
    case (3 ok d1)
    have 1: "calm d d1" by (rule calm_trans [OF 0 calm_admit [OF 3(1)]])
    show ?thesis using 3(2) 1 calm_trans [OF 1 calm_handle_initiation]
        calm_trans [OF 1 calm_handle_response [OF _ calmD(1) [OF 1 assms(2)]]] by blast
  qed (use 0 calm_trans [OF 0 calm_cookie_reply] in auto)
qed

end
