(* ===== verification/Life_Cycle.thy ===== *)
theory Life_Cycle
  imports Device_Inv
begin

text \<open>
  The invariant through the operations that change the configuration: timers, starting and
  stopping, peers, keys, the bind, the states of a device and the configuration protocol; and
  what stopping, removing and closing leave behind.
\<close>

section \<open>Timers\<close>

lemma calm_mark: "calm d (markEndpointSrcForClearing p d)"
  by (auto simp: markEndpointSrcForClearing_def intro!: calm_upd_peer_simple)

lemma calm_retransmit: "expiredRetransmitHandshake C E p d = Some d' \<Longrightarrow> calm d d'"
proof -
  assume a: "expiredRetransmitHandshake C E p d = Some d'"
  show ?thesis
  proof (cases "tm_handshakeAttempts (tm_of d p) > MaxTimerHandshakes")
    case True
    define d1 where "d1 = (if timersActive p d
      then upd_tm p (\<lambda>t. t\<lparr>tm_sendKeepalive := timer_Del (tm_sendKeepalive t)\<rparr>) d else d)"
    have "calm d d1" by (simp add: d1_def calm_upd_tm_active)
    also have "calm d1 (FlushStagedPackets p d1)" by (rule calm_flush)
    also have "calm \<dots> d'" using a True
      by (auto simp: expiredRetransmitHandshake_def Let_def d1_def [symmetric] intro!: calm_upd_tm_active)
    finally show ?thesis .
  next
    case False
    let ?d1 = "upd_tm p (\<lambda>t. t\<lparr>tm_handshakeAttempts := tm_handshakeAttempts t + 1\<rparr>) d"
    obtain e where i: "SendHandshakeInitiation C E True p (markEndpointSrcForClearing p ?d1) = Some (e, d')"
      using a False by (auto simp: expiredRetransmitHandshake_def Let_def)
    have "calm d ?d1" by (rule calm_upd_tm_idle) simp
    also have "calm ?d1 (markEndpointSrcForClearing p ?d1)" by (rule calm_mark)
    also have "calm \<dots> d'" by (rule calm_initiation [OF i])
    finally show ?thesis .
  qed
qed

lemma calm_expiredSendKeepalive:
  assumes "expiredSendKeepalive C E p d = Some d'" "wf_device d"
  shows "calm d d'"
proof -
  obtain d1 where d1: "SendKeepalive C E p d = Some d1" "d' = (if tm_needAnotherKeepalive (tm_of d1 p)
     then (let d2 = upd_tm p (\<lambda>t. t\<lparr>tm_needAnotherKeepalive := False\<rparr>) d1 in if timersActive p d2
        then upd_tm p (\<lambda>t. t\<lparr>tm_sendKeepalive := timer_Mod (e_clock E At_Timer) KeepaliveTimeout (tm_sendKeepalive t)\<rparr>) d2
        else d2) else d1)"
    using assms(1) by (auto simp: expiredSendKeepalive_def elim!: bind_SomeE)
  have 1: "calm d d1" by (rule calm_SendKeepalive [OF d1(1) assms(2)])
  have 2: "calm d1 (upd_tm p (\<lambda>t. t\<lparr>tm_needAnotherKeepalive := False\<rparr>) d1)" by (rule calm_upd_tm_idle) simp
  show ?thesis unfolding d1(2) using 1 calm_trans [OF 1 2] calm_trans [OF calm_trans [OF 1 2] calm_upd_tm_active]
    by (simp add: Let_def)
qed

lemma calm_timer_fires:
  assumes "timer_fires C E kind p d = Some d'" "wf_device d"
  shows "calm d d'"
proof -
  have t: "calm d (upd_tm p (\<lambda>t. t\<lparr>tm_retransmitHandshake := None\<rparr>) d)" "calm d (upd_tm p (\<lambda>t. t\<lparr>tm_sendKeepalive := None\<rparr>) d)"
    "calm d (upd_tm p (\<lambda>t. t\<lparr>tm_newHandshake := None\<rparr>) d)" "calm d (upd_tm p (\<lambda>t. t\<lparr>tm_zeroKeyMaterial := None\<rparr>) d)"
    "calm d (upd_tm p (\<lambda>t. t\<lparr>tm_persistentKeepalive := None\<rparr>) d)"
    by (rule calm_upd_tm_idle; simp add: idle_def)+
  note w = calmD(1) [OF _ assms(2)]
  show ?thesis
  proof (cases kind)
    case RetransmitHandshake
    then show ?thesis using assms(1) calm_trans [OF t(1) calm_retransmit] by (auto simp: timer_fires_def split: if_splits)
  next
    case SendKeepaliveTimer
    then show ?thesis using assms(1) calm_trans [OF t(2) calm_expiredSendKeepalive [OF _ w [OF t(2)]]]
      by (auto simp: timer_fires_def split: if_splits)
  next
    case NewHandshake
    then show ?thesis using assms(1) calm_trans [OF t(3) calm_trans [OF calm_mark calm_initiation]]
      by (auto simp: timer_fires_def expiredNewHandshake_def split: if_splits)
  next
    case ZeroKeyMaterial
    then show ?thesis using assms(1) calm_trans [OF t(4) calm_ZeroAndFlushAll]
      by (auto simp: timer_fires_def expiredZeroKeyMaterial_def split: if_splits)
  next
    case PersistentKeepalive
    then show ?thesis using assms(1) t(5) calm_trans [OF t(5) calm_SendKeepalive [OF _ w [OF t(5)]]]
      by (auto simp: timer_fires_def expiredPersistentKeepalive_def split: if_splits)
  qed
qed

section \<open>Starting and stopping\<close>

text \<open>\<open>sets_running b p d d'\<close>: like \<open>calm\<close>, but peer \<open>p\<close> ends up running or not.\<close>

definition sets_running :: "bool \<Rightarrow> nat \<Rightarrow> Device \<Rightarrow> Device \<Rightarrow> bool" where
  "sets_running b p d d' =
     (wf_device d' \<and> d_keyMap d' = d_keyMap d \<and> d_state d' = d_state d \<and> d_allowedips d' = d_allowedips d \<and>
      d_privateKey d' = d_privateKey d \<and> d_publicKey d' = d_publicKey d \<and> next_peer d' = next_peer d \<and>
      (\<forall>q. p_isRunning (peer_heap d' q) = (if q = p then b else p_isRunning (peer_heap d q))))"

lemma sets_running_calm: "sets_running b p d d1 \<Longrightarrow> calm d1 d2 \<Longrightarrow> sets_running b p d d2"
  by (simp add: sets_running_def calm_def)

lemma calm_sets_running: "calm d d1 \<Longrightarrow> sets_running b p d1 d2 \<Longrightarrow> sets_running b p d d2"
  by (simp add: sets_running_def calm_def)

lemma sets_running_same: "wf_device d \<Longrightarrow> p_isRunning (peer_heap d p) = b \<Longrightarrow> sets_running b p d d"
  by (auto simp: sets_running_def)

lemma sets_running_flag:
  "wf_device d \<Longrightarrow> p \<in> set (peers_of d) \<Longrightarrow> sets_running True p d (upd_peer p (\<lambda>x. x\<lparr>p_isRunning := True\<rparr>) d)"
  by (auto simp: sets_running_def wf_device_def peer_ok_def peers_of_def)

lemma Start_sets_running:
  assumes "wf_device d" "p \<in> set (peers_of d)" "\<not> isClosed d"
  shows "sets_running True p d (Start E p d)"
proof (cases "p_isRunning (peer_heap d p)")
  case True
  then show ?thesis using assms by (simp add: Start_def sets_running_same)
next
  case False
  let ?d1 = "upd_hs p (\<lambda>h. h\<lparr>hs_lastSentHandshake := e_clock E At_Start - (RekeyTimeout + Second)\<rparr>) d"
  let ?d2 = "timersStart p ?d1"
  let ?d3 = "upd_peer p (\<lambda>x. x\<lparr>p_outbound := [], p_inbound := []\<rparr>) ?d2"
  have "calm d ?d1" by (rule calm_upd_hs) simp
  also have "calm ?d1 ?d2" unfolding timersStart_def by (rule calm_upd_tm_idle) simp
  also have "calm ?d2 ?d3" by (rule calm_upd_peer_simple) simp_all
  finally have 3: "calm d ?d3" .
  have "sets_running True p ?d3 (upd_peer p (\<lambda>x. x\<lparr>p_isRunning := True\<rparr>) ?d3)"
    using calmD(1) [OF 3 assms(1)] assms(2) calmD(6) [OF 3] by (intro sets_running_flag) simp_all
  then show ?thesis using assms(3) False calm_sets_running [OF 3] by (simp add: Start_def Let_def)
qed

lemma calm_drain: "drain_inbound C Es p n d = Some d' \<Longrightarrow> wf_device d \<Longrightarrow> calm d d'"
proof (induction n arbitrary: d)
  case (Suc n)
  then obtain d1 d2 where d: "RoutineDecryption C p 0 d = Some d1" "RoutineSequentialReceiver C (Es n) p d1 = Some d2"
    "drain_inbound C Es p n d2 = Some d'" by (auto elim!: bind_SomeE)
  have 1: "calm d d1" by (rule calm_Decryption [OF d(1)])
  have 2: "calm d d2" using calm_trans [OF 1 calm_SequentialReceiver [OF d(2) calmD(1) [OF 1 Suc.prems(2)]]] .
  show ?case using calm_trans [OF 2 Suc.IH [OF d(3) calmD(1) [OF 2 Suc.prems(2)]]] .
qed simp

lemma Stop_sets_running:
  assumes "Stop C Es p d = Some d'" "wf_device d"
  shows "sets_running False p d d'"
proof (cases "p_isRunning (peer_heap d p)")
  case False
  then show ?thesis using assms by (simp add: Stop_def sets_running_same)
next
  case True
  define d2 where "d2 = timersStop p (upd_peer p (\<lambda>x. x\<lparr>p_isRunning := False\<rparr>) d)"
  obtain d3 where d3: "drain_inbound C Es p (length (p_inbound (peer_heap d2 p))) d2 = Some d3"
    "d' = ZeroAndFlushAll p (upd_peer p (\<lambda>x. x\<lparr>p_outbound := []\<rparr>) d3)"
    using assms(1) True by (auto simp: Stop_def Let_def d2_def elim!: bind_SomeE)
  have 2: "sets_running False p d d2" using assms(2)
    by (auto simp: d2_def timersStop_def upd_tm_def sets_running_def wf_device_def peer_ok_def peers_of_def idle_def
        timer_ops split: if_splits)
  have "calm d2 d3" using calm_drain [OF d3(1)] 2 by (simp add: sets_running_def)
  also have "calm d3 (upd_peer p (\<lambda>x. x\<lparr>p_outbound := []\<rparr>) d3)" by (rule calm_upd_peer_simple) simp_all
  also have "calm \<dots> d'" unfolding d3(2) by (rule calm_ZeroAndFlushAll)
  finally show ?thesis by (rule sets_running_calm [OF 2])
qed

section \<open>Removing peers\<close>

text \<open>\<open>removes es d d'\<close>: the entries \<open>es\<close> of the key map are gone and their peers are stopped.\<close>

definition removes :: "(NoisePublicKey \<times> nat) list \<Rightarrow> Device \<Rightarrow> Device \<Rightarrow> bool" where
  "removes es d d' =
     (wf_device d' \<and> d_keyMap d' = filter (\<lambda>e. fst e \<notin> fst ` set es) (d_keyMap d) \<and> d_state d' = d_state d \<and>
      d_allowedips d' = fold (\<lambda>e. RemoveByPeer (snd e)) es (d_allowedips d) \<and> next_peer d' = next_peer d \<and>
      d_privateKey d' = d_privateKey d \<and> d_publicKey d' = d_publicKey d \<and>
      (\<forall>q. p_isRunning (peer_heap d' q) = (q \<notin> snd ` set es \<and> p_isRunning (peer_heap d q))))"

lemma removes_nil: "wf_device d \<Longrightarrow> removes [] d d"
  by (simp add: removes_def)

lemma removes_trans: "removes xs a b \<Longrightarrow> removes ys b c \<Longrightarrow> removes (xs @ ys) a c"
  by (auto simp: removes_def image_Un intro: filter_cong)

lemma wf_drop_entry:
  assumes "wf_device d" "(pk, p) \<in> set (d_keyMap d)" "\<not> p_isRunning (peer_heap d p)"
  shows "wf_device (d\<lparr>d_keyMap := filter (\<lambda>e. fst e \<noteq> pk) (d_keyMap d)\<rparr>)"
proof -
  have "q \<in> snd ` set (filter (\<lambda>e. fst e \<noteq> pk) (d_keyMap d))" if r: "p_isRunning (peer_heap d q)" for q
  proof -
    obtain k where k: "(k, q) \<in> set (d_keyMap d)" using wf_deviceD(7) [OF assms(1) r] by (auto simp: peers_of_def)
    have "q \<noteq> p" using r assms(3) by auto
    then have "k \<noteq> pk" using k assms(2) wf_deviceD(3) [OF assms(1)] by (meson eq_key_imp_eq_value)
    then show ?thesis using k by force
  qed
  moreover have "distinct (map fst (filter P xs))" if "distinct (map fst xs)" for P and xs :: "('a \<times> 'b) list"
    using that by (induction xs) auto
  moreover have "distinct (map snd (filter P xs))" if "distinct (map snd xs)" for P and xs :: "('a \<times> 'b) list"
    using that by (induction xs) auto
  moreover have "length (filter P (d_keyMap d)) \<le> MaxPeers" for P
    using length_filter_le [of P "d_keyMap d"] wf_deviceD(8) [OF assms(1)] by (rule le_trans)
  ultimately show ?thesis using assms(1) by (auto simp: wf_device_def peers_of_def)
qed

lemma removePeerLocked_removes:
  assumes "removePeerLocked C Es p pk d = Some d'" "wf_device d" "(pk, p) \<in> set (d_keyMap d)"
  shows "removes [(pk, p)] d d'"
proof -
  let ?d0 = "d\<lparr>d_allowedips := RemoveByPeer p (d_allowedips d)\<rparr>"
  obtain d1 where d1: "Stop C (Es p) p ?d0 = Some d1" "d' = d1\<lparr>d_keyMap := filter (\<lambda>e. fst e \<noteq> pk) (d_keyMap d1)\<rparr>"
    using assms(1) by (auto simp: removePeerLocked_def elim!: bind_SomeE)
  have "wf_device ?d0" using assms(2) aip.rem_law [of "d_allowedips d" p] by (auto simp: wf_device_def peers_of_def)
  from Stop_sets_running [OF d1(1) this] have s: "sets_running False p ?d0 d1" .
  then have "wf_device d'" unfolding d1(2) using assms(3) by (intro wf_drop_entry) (auto simp: sets_running_def)
  then show ?thesis using s d1(2) by (auto simp: removes_def sets_running_def)
qed

lemma RemovePeer_removes:
  assumes "RemovePeer C Es pk d = Some d'" "wf_device d"
  shows "case LookupPeer pk d of None \<Rightarrow> d' = d | Some p \<Rightarrow> removes [(pk, p)] d d'"
  using assms removePeerLocked_removes [of C Es _ pk d d'] map_of_SomeD [of "d_keyMap d" pk]
  by (auto simp: RemovePeer_def LookupPeer_def split: option.splits)

lemma remaining_entries:
  assumes "removes [e] d d1" "set es \<subseteq> set (d_keyMap d)" "fst e \<notin> fst ` set es"
  shows "set es \<subseteq> set (d_keyMap d1)"
  using assms by (auto simp: removes_def image_iff)

lemma remove_entries_removes:
  assumes "remove_entries C Es es d = Some d'" "wf_device d" "set es \<subseteq> set (d_keyMap d)" "distinct (map fst es)"
  shows "removes es d d'"
  using assms
proof (induction es arbitrary: d)
  case Nil
  then show ?case by (simp add: removes_nil)
next
  case (Cons e es)
  obtain pk p where e: "e = (pk, p)" by fastforce
  obtain d1 where d1: "removePeerLocked C Es p pk d = Some d1" "remove_entries C Es es d1 = Some d'"
    using Cons.prems(1) e by (auto elim!: bind_SomeE)
  have r: "removes [e] d d1" using removePeerLocked_removes [OF d1(1) Cons.prems(2)] Cons.prems(3) e by simp
  have "set es \<subseteq> set (d_keyMap d1)" using remaining_entries [OF r] Cons.prems(3,4) by auto
  then have "removes es d1 d'" using Cons.IH [OF d1(2)] r Cons.prems(4) by (simp add: removes_def)
  then show ?case using removes_trans [OF r] by simp
qed

lemma RemoveAllPeers_removes:
  assumes "RemoveAllPeers C Es d = Some d'" "wf_device d"
  shows "removes (d_keyMap d) d d' \<and> d_keyMap d' = []"
proof -
  obtain d1 where d1: "remove_entries C Es (d_keyMap d) d = Some d1" "d' = d1\<lparr>d_keyMap := []\<rparr>"
    using assms(1) by (auto simp: RemoveAllPeers_def elim!: bind_SomeE)
  have r: "removes (d_keyMap d) d d1"
    using remove_entries_removes [OF d1(1) assms(2)] wf_deviceD(3) [OF assms(2)] by simp
  then have "d_keyMap d1 = []" by (auto simp: removes_def filter_empty_conv)
  moreover from this have e: "d1\<lparr>d_keyMap := []\<rparr> = d1" by (intro Device.equality) simp_all
  ultimately show ?thesis using r unfolding d1(2) e by simp
qed

lemma remove_matching_removes:
  assumes "remove_matching C Es pub es d = Some d'" "wf_device d" "set es \<subseteq> set (d_keyMap d)" "distinct (map fst es)"
  shows "\<exists>xs. set xs \<subseteq> set es \<and> removes xs d d'"
  using assms
proof (induction es arbitrary: d)
  case Nil
  then show ?case by (intro exI [of _ "[]"]) (simp add: removes_nil)
next
  case (Cons e es)
  obtain pk p where e: "e = (pk, p)" by fastforce
  show ?case
  proof (cases "hs_remoteStatic (hs_of d p) = pub")
    case False
    then have "remove_matching C Es pub es d = Some d'" using Cons.prems(1) e by simp
    then obtain xs where "set xs \<subseteq> set es" "removes xs d d'" using Cons.IH [of d] Cons.prems(2-4) by auto
    then show ?thesis by (intro exI [of _ xs]) auto
  next
    case True
    then obtain d1 where d1: "removePeerLocked C Es p pk d = Some d1" "remove_matching C Es pub es d1 = Some d'"
      using Cons.prems(1) e by (auto elim!: bind_SomeE)
    have r: "removes [e] d d1" using removePeerLocked_removes [OF d1(1) Cons.prems(2)] Cons.prems(3) e by simp
    have "set es \<subseteq> set (d_keyMap d1)" using remaining_entries [OF r] Cons.prems(3,4) by auto
    then obtain xs where "set xs \<subseteq> set es" "removes xs d1 d'"
      using Cons.IH [OF d1(2)] r Cons.prems(4) by (auto simp: removes_def)
    then show ?thesis using removes_trans [OF r, of xs d'] by (intro exI [of _ "e # xs"]) auto
  qed
qed

section \<open>Keys, bind and new peers\<close>

lemma calm_precompute: "calm d (precompute C p d)"
  unfolding precompute_def by (rule calm_upd_hs) simp

lemma wf_SetPrivateKey:
  assumes "SetPrivateKey C Es sk d = Some d'" "wf_device d"
  shows "wf_device d' \<and> d_state d' = d_state d \<and> set (d_keyMap d') \<subseteq> set (d_keyMap d)"
proof (cases "key_Equals sk (d_privateKey d)")
  case True
  then show ?thesis using assms by (simp add: SetPrivateKey_def)
next
  case False
  let ?pub = "publicKey C sk"
  obtain d1 where d1: "remove_matching C Es ?pub (d_keyMap d) d = Some d1"
    using assms(1) False by (auto simp: SetPrivateKey_def Let_def elim!: bind_SomeE)
  define d2 where "d2 = d1\<lparr>d_privateKey := sk, d_publicKey := ?pub, d_cookieChecker := checker_Init C ?pub (d_cookieChecker d1)\<rparr>"
  have "wf_device d1 \<and> d_state d1 = d_state d \<and> set (d_keyMap d1) \<subseteq> set (d_keyMap d)"
    using remove_matching_removes [OF d1 assms(2)] wf_deviceD(3) [OF assms(2)] by (auto simp: removes_def)
  then have 2: "wf_device d2 \<and> d_state d2 = d_state d \<and> set (d_keyMap d2) \<subseteq> set (d_keyMap d)"
    by (simp add: d2_def wf_device_def peers_of_def)
  define d3 where "d3 = fold (precompute C) (peers_of d2) d2"
  have "calm d2 d3" unfolding d3_def by (rule calm_fold) (rule calm_precompute)
  also have "calm d3 d'" using assms(1) False d1
    by (auto simp: SetPrivateKey_def Let_def d2_def [symmetric] d3_def [symmetric] intro!: calm_fold calm_ExpireCurrentKeypairs)
  finally show ?thesis using 2 by (simp add: calm_def)
qed

lemma wf_NewPeer:
  assumes "NewPeer C pk d = (r, d')" "wf_device d"
  shows "wf_device d'"
proof (cases r)
  case (Inl e)
  then show ?thesis using NewPeer_error [of C pk d e d'] assms by simp
next
  case (Inr p)
  have p: "p = next_peer d" "LookupPeer pk d = None" using NewPeer_ok assms(1) Inr by blast+
  have len: "length (d_keyMap d) < MaxPeers" and d': "d' = (let d2 = timersInit p
      (d\<lparr>peer_heap := (peer_heap d)(p := new_peer_value C pk d), next_peer := Suc p\<rparr>) in d2\<lparr>d_keyMap := d_keyMap d2 @ [(pk, p)]\<rparr>)"
    using assms(1) Inr by (auto simp: NewPeer_def Let_def split: if_splits)
  have fresh: "pk \<notin> fst ` set (d_keyMap d)" "p \<notin> snd ` set (d_keyMap d)"
    using p assms(2) by (auto simp: LookupPeer_def map_of_eq_None_iff wf_device_def)
  define x where "x = (new_peer_value C pk d)\<lparr>p_timers := zero_Timers\<rparr>"
  have d2: "d' = d\<lparr>peer_heap := (peer_heap d)(p := x), next_peer := Suc p, d_keyMap := d_keyMap d @ [(pk, p)]\<rparr>"
    unfolding d' x_def
    by (intro Device.equality) (simp_all add: Let_def timersInit_def upd_tm_def upd_peer_def timer_ops new_peer_value_def
        zero_Peer_def zero_Timers_def)
  have x: "peer_ok (next_kp d) x" "\<not> p_isRunning x" "hs_remoteStatic (p_handshake x) = pk"
    by (simp_all add: x_def peer_ok_def new_peer_value_def zero_Peer_def slots_def zero_Keypairs_def idle_def zero_Timers_def)
  show ?thesis using assms(2) fresh len x p(1)
    unfolding d2 by (auto simp: wf_device_def peers_of_def)
qed

end
