(* ===== verification/Device_Steps.thy ===== *)
theory Device_Steps
  imports Life_Cycle Uapi_Lemmas
begin

text \<open>
  The device as a transition system: one step is one call of a handler, in any order. Every
  reachable state satisfies the invariant of \<open>Device_Inv\<close>; a closed device stays closed.
\<close>

section \<open>Starting and stopping all peers\<close>

definition steady :: "Device \<Rightarrow> Device \<Rightarrow> bool" where
  "steady d d' = (wf_device d \<longrightarrow> wf_device d' \<and> d_keyMap d' = d_keyMap d \<and> d_state d' = d_state d)"

lemma steady_refl [simp]: "steady d d"
  by (simp add: steady_def)

lemma steady_trans [trans]: "steady a b \<Longrightarrow> steady b c \<Longrightarrow> steady a c"
  by (simp add: steady_def)

lemma steadyD: "steady d d' \<Longrightarrow> wf_device d \<Longrightarrow> wf_device d' \<and> peers_of d' = peers_of d \<and> d_state d' = d_state d"
  by (simp add: steady_def peers_of_def)

lemma calm_steady: "(wf_device d \<Longrightarrow> calm d d') \<Longrightarrow> steady d d'"
  by (simp add: steady_def calm_def)

lemma sets_running_steady: "(wf_device d \<Longrightarrow> sets_running b p d d') \<Longrightarrow> steady d d'"
  by (simp add: steady_def sets_running_def)

lemma steady_Start: "p \<in> set (peers_of d) \<Longrightarrow> steady d (Start E p d)"
proof (cases "isClosed d")
  case True
  then show ?thesis by (simp add: Start_def)
next
  case False
  assume "p \<in> set (peers_of d)"
  then show ?thesis using Start_sets_running False by (blast intro: sets_running_steady)
qed

lemma steady_start_and_initiate:
  assumes "start_and_initiate C E p d = Some d'" "p \<in> set (peers_of d)"
  shows "steady d d'"
proof -
  obtain e where "SendHandshakeInitiation C E False p (Start E p d) = Some (e, d')"
    using assms(1) by (auto simp: start_and_initiate_def)
  then have "steady (Start E p d) d'" using calm_initiation calm_steady by blast
  with steady_Start [OF assms(2)] show ?thesis by (rule steady_trans)
qed

lemma for_peers_steady:
  assumes "for_peers f ps d = Some d'" "\<And>p x y. p \<in> set (peers_of x) \<Longrightarrow> f p x = Some y \<Longrightarrow> steady x y"
    "set ps \<subseteq> set (peers_of d)"
  shows "steady d d'"
  using assms(1,3)
proof (induction ps arbitrary: d)
  case (Cons p ps)
  obtain d1 where d1: "f p d = Some d1" "for_peers f ps d1 = Some d'" using Cons.prems(1) by (auto elim: bind_SomeE)
  have 1: "steady d d1" using Cons.prems(2) by (intro assms(2) [OF _ d1(1)]) simp
  show ?case
  proof (cases "wf_device d")
    case True
    then have "set ps \<subseteq> set (peers_of d1)" using steadyD [OF 1] Cons.prems(2) by simp
    then show ?thesis using steady_trans [OF 1 Cons.IH [OF d1(2)]] by blast
  qed (simp add: steady_def)
qed simp

lemma steady_Stop: "Stop C Es p d = Some d' \<Longrightarrow> steady d d'"
  using Stop_sets_running sets_running_steady by blast

section \<open>The bind and the states\<close>

lemma peers_of_fields [simp]:
  "peers_of (d\<lparr>d_state := s\<rparr>) = peers_of d" "peers_of (d\<lparr>d_port := po\<rparr>) = peers_of d"
  "peers_of (d\<lparr>d_receivers := r\<rparr>) = peers_of d" "peers_of (d\<lparr>d_fwmark := m\<rparr>) = peers_of d"
  by (simp_all add: peers_of_def)

lemma wf_state [simp]: "wf_device (d\<lparr>d_state := s\<rparr>) = wf_device d"
  by (simp add: wf_device_def)

lemma calm_BindSetMark: "BindSetMark B mark d = (ok, d') \<Longrightarrow> calm d d'"
  using calm_trans [OF calm_fields(8) calm_fold [OF calm_mark]]
  by (auto simp: BindSetMark_def Let_def split: if_splits)

lemma calm_closeBind: "closeBindLocked B d = (ok, d') \<Longrightarrow> calm d d'"
  by (auto simp: closeBindLocked_def)

lemma calm_BindUpdate:
  assumes "BindUpdate B d = (ok, d')"
  shows "calm d d'"
proof -
  obtain c d1 where c: "closeBindLocked B d = (c, d1)" by fastforce
  have 1: "calm d d1" by (rule calm_closeBind [OF c])
  have p: "calm d (d1\<lparr>d_port := a\<rparr>)" for a by (rule calm_trans [OF 1]) simp
  have r: "calm d ((fold markEndpointSrcForClearing ps (d1\<lparr>d_port := a\<rparr>))\<lparr>d_receivers := n\<rparr>)" for ps a n
  proof -
    note p
    also have "calm (d1\<lparr>d_port := a\<rparr>) (fold markEndpointSrcForClearing ps (d1\<lparr>d_port := a\<rparr>))"
      by (rule calm_fold) (rule calm_mark)
    also have "calm \<dots> (\<dots>\<lparr>d_receivers := n\<rparr>)" by simp
    finally show ?thesis .
  qed
  show ?thesis using assms c 1 p r by (auto simp: BindUpdate_def Let_def split: if_splits option.splits)
qed

lemma steady_upLocked:
  assumes "upLocked C Es B d = Some (ok, d')"
  shows "steady d d'"
proof -
  obtain b d1 where b: "BindUpdate B d = (b, d1)" by fastforce
  have 1: "steady d d1" using calm_BindUpdate [OF b] calm_steady by blast
  show ?thesis
  proof (cases b)
    case False
    then show ?thesis using assms b 1 by (simp add: upLocked_def)
  next
    case True
    then obtain d2 where "for_peers (\<lambda>p. start_and_initiate C (Es p 0) p) (peers_of d1) d1 = Some d2" "d' = d2"
      using assms b by (auto simp: upLocked_def elim!: bind_SomeE)
    then have "steady d1 d'" using for_peers_steady [of "\<lambda>p. start_and_initiate C (Es p 0) p"] steady_start_and_initiate by blast
    with 1 show ?thesis by (rule steady_trans)
  qed
qed

lemma steady_downLocked:
  assumes "downLocked C Es B d = Some (ok, d')"
  shows "steady d d'"
proof -
  obtain b d1 where b: "closeBindLocked B d = (b, d1)" by fastforce
  have 1: "steady d d1" using calm_closeBind [OF b] calm_steady by blast
  obtain d2 where "for_peers (\<lambda>p. Stop C (Es p) p) (peers_of d1) d1 = Some d2" "d' = d2"
    using assms b by (auto simp: downLocked_def BindClose_def elim!: bind_SomeE)
  then have "steady d1 d'" using for_peers_steady [of "\<lambda>p. Stop C (Es p) p"] steady_Stop by blast
  with 1 show ?thesis by (rule steady_trans)
qed

lemma go_down_wf:
  assumes "go_down C Es B ok d = Some (r, d')" "wf_device d"
  shows "wf_device d' \<and> d_keyMap d' = d_keyMap d \<and> d_state d' = deviceStateDown"
proof -
  obtain k where "downLocked C Es B (d\<lparr>d_state := deviceStateDown\<rparr>) = Some (k, d')"
    using assms(1) by (auto simp: go_down_def elim!: bind_SomeE)
  from steady_downLocked [OF this] show ?thesis using assms(2) by (simp add: steady_def)
qed

lemma changeState_wf:
  assumes "changeState C Es B want d = Some (ok, d')" "wf_device d"
  shows "wf_device d' \<and> d_keyMap d' = d_keyMap d \<and> isClosed d' = isClosed d"
proof (cases "d_state d = deviceStateClosed \<or> want = d_state d \<or> want = deviceStateClosed")
  case True
  then show ?thesis using assms by (auto simp: changeState_def split: if_splits)
next
  case False
  show ?thesis
  proof (cases want)
    case deviceStateUp
    then obtain k d1 where u: "upLocked C Es B (d\<lparr>d_state := deviceStateUp\<rparr>) = Some (k, d1)"
      "d' = d1 \<or> go_down C Es B False d1 = Some (ok, d')"
      using assms(1) False by (auto simp: changeState_def elim!: bind_SomeE split: if_splits)
    have "wf_device d1 \<and> d_keyMap d1 = d_keyMap d \<and> d_state d1 = deviceStateUp"
      using steady_upLocked [OF u(1)] assms(2) by (simp add: steady_def)
    then show ?thesis using u(2) go_down_wf [of C Es B False d1 ok d'] False by (auto simp: isClosed_def)
  next
    case deviceStateDown
    then show ?thesis using assms False go_down_wf [of C Es B True d ok d'] by (auto simp: changeState_def isClosed_def)
  qed (use False in simp)
qed

lemma device_Close_wf:
  assumes "device_Close C Es B d = Some d'" "wf_device d" "\<not> isClosed d"
  shows "wf_device d' \<and> d_keyMap d' = [] \<and> isClosed d' \<and> (\<forall>q. \<not> p_isRunning (peer_heap d' q))"
proof -
  obtain k d2 d3 lim where c: "downLocked C Es B (d\<lparr>d_state := deviceStateClosed\<rparr>) = Some (k, d2)"
    "RemoveAllPeers C Es d2 = Some d3" "d' = d3\<lparr>d_limiter := lim\<rparr>"
    using assms(1,3) by (auto simp: device_Close_def Let_def elim!: bind_SomeE)
  have 2: "wf_device d2" "d_state d2 = deviceStateClosed" using steady_downLocked [OF c(1)] assms(2) by (simp_all add: steady_def)
  have r: "removes (d_keyMap d2) d2 d3" "d_keyMap d3 = []" using RemoveAllPeers_removes [OF c(2) 2(1)] by simp_all
  then have w: "wf_device d3" "d_state d3 = deviceStateClosed" using 2(2) by (simp_all add: removes_def)
  have "\<not> p_isRunning (peer_heap d3 q)" for q
    using wf_deviceD(7) [OF w(1), of q] r(2) by (auto simp: peers_of_def)
  moreover have "wf_device d'" using calmD(1) [OF calm_fields(5) w(1)] c(3) by simp
  ultimately show ?thesis using r(2) w(2) c(3) by (simp add: isClosed_def)
qed

lemma steady_keepalives:
  assumes "SendKeepalivesToPeersWithCurrentKeypair C Es d = Some d'"
  shows "steady d d'"
proof (cases "isUp d")
  case False
  then show ?thesis using assms by (simp add: SendKeepalivesToPeersWithCurrentKeypair_def)
next
  case True
  let ?f = "\<lambda>p d. case kps_current (kps_of d p) of None \<Rightarrow> Some d
    | Some k \<Rightarrow> if \<not> kp_created (kp_heap d k) + RejectAfterTime < e_clock (Es p) At_Keepalives
        then SendKeepalive C (Es p) p d else Some d"
  have "for_peers ?f (peers_of d) d = Some d'"
    using assms True by (simp add: SendKeepalivesToPeersWithCurrentKeypair_def)
  moreover have "steady x y" if "?f p x = Some y" for p x y
    using that by (intro calm_steady) (auto split: option.splits if_splits dest: calm_SendKeepalive)
  ultimately show ?thesis using for_peers_steady [of ?f "peers_of d" d d'] by blast
qed

lemma calm_roaming: "calm d (DisableSomeRoamingForBrokenMobileSemantics d)"
  unfolding DisableSomeRoamingForBrokenMobileSemantics_def
  by (rule calm_trans [OF calm_fields(11) calm_fold]) (rule calm_upd_peer_simple, simp_all)

text \<open>
  A step keeps the invariant; a closed device stays closed and gets no peer, and a device that
  becomes closed has lost its peers.
\<close>

definition keeps :: "Device \<Rightarrow> Device \<Rightarrow> bool" where
  "keeps d d' =
     (wf_device d \<longrightarrow> wf_device d' \<and>
      (if isClosed d then isClosed d' \<and> (d_keyMap d = [] \<longrightarrow> d_keyMap d' = []) else isClosed d' \<longrightarrow> d_keyMap d' = []))"

lemma keeps_refl [simp, intro]: "keeps d d"
  by (simp add: keeps_def)

lemma keeps_trans [trans]: "keeps a b \<Longrightarrow> keeps b c \<Longrightarrow> keeps a c"
  by (auto simp: keeps_def split: if_splits)

lemma steady_keeps: "steady d d' \<Longrightarrow> keeps d d'"
  by (simp add: steady_def keeps_def isClosed_def)

lemma calm_keeps: "(wf_device d \<Longrightarrow> calm d d') \<Longrightarrow> keeps d d'"
  using calm_steady steady_keeps by blast

lemma removes_keeps: "(wf_device d \<Longrightarrow> removes es d d') \<Longrightarrow> keeps d d'"
  by (simp add: removes_def keeps_def isClosed_def)

lemma keepsI:
  "(wf_device d \<Longrightarrow> wf_device d' \<and> isClosed d' = isClosed d \<and> set (d_keyMap d') \<subseteq> set (d_keyMap d)) \<Longrightarrow> keeps d d'"
  by (auto simp: keeps_def)

lemma keeps_changeState: "changeState C Es B want d = Some (ok, d') \<Longrightarrow> keeps d d'"
  using changeState_wf by (intro keepsI) fastforce

lemma keeps_Close: "device_Close C Es B d = Some d' \<Longrightarrow> keeps d d'"
proof (cases "isClosed d")
  case True
  assume "device_Close C Es B d = Some d'"
  then show ?thesis using True by (simp add: device_Close_def)
next
  case False
  assume "device_Close C Es B d = Some d'"
  then show ?thesis using device_Close_wf False by (auto simp: keeps_def)
qed

lemma keeps_RemovePeer: "RemovePeer C Es pk d = Some d' \<Longrightarrow> keeps d d'"
  using RemovePeer_removes [of C Es pk d d'] removes_keeps [of d _ d']
  by (cases "LookupPeer pk d") (auto simp: RemovePeer_def)

lemma keeps_RemoveAllPeers: "RemoveAllPeers C Es d = Some d' \<Longrightarrow> keeps d d'"
  using RemoveAllPeers_removes removes_keeps by blast

lemma keeps_SetPrivateKey: "SetPrivateKey C Es sk d = Some d' \<Longrightarrow> keeps d d'"
  using wf_SetPrivateKey by (intro keepsI) (simp add: isClosed_def)

lemma keeps_NewPeer:
  assumes "NewPeer C pk d = (r, d')"
  shows "keeps d d'"
proof (cases r)
  case (Inl e)
  then show ?thesis using NewPeer_error [of C pk d e d'] assms by simp
next
  case (Inr p)
  then have "\<not> isClosed d" "d_state d' = d_state d"
    using assms by (auto simp: NewPeer_def Let_def timersInit_def upd_tm_def upd_peer_def split: if_splits)
  then show ?thesis using wf_NewPeer [OF assms] by (simp add: keeps_def isClosed_def)
qed

lemma keeps_TUNEvent:
  assumes "RoutineTUNEventReader C Eu Ed B mtu ev d = Some d'"
  shows "keeps d d'"
proof -
  obtain go d1 where u: "(if ev AND EventMTUUpdate \<noteq> 0 then update_mtu mtu d else (True, d)) = (go, d1)" by fastforce
  have "calm d d1" using u by (auto simp: update_mtu_def split: if_splits option.splits)
  then have 1: "keeps d d1" by (rule calm_keeps)
  show ?thesis
  proof (cases go)
    case False
    then show ?thesis using assms u 1 by (simp add: RoutineTUNEventReader_def)
  next
    case True
    obtain d2 where d2: "(if ev AND EventUp \<noteq> 0 then map_option snd (Up C Eu B d1) else Some d1) = Some d2"
      "(if ev AND EventDown \<noteq> 0 then map_option snd (Down C Ed B d2) else Some d2) = Some d'"
      using assms u True by (auto simp: RoutineTUNEventReader_def elim!: bind_SomeE)
    have "keeps d1 d2" using d2(1) keeps_changeState by (auto simp: Up_def split: if_splits)
    moreover have "keeps d2 d'" using d2(2) keeps_changeState by (auto simp: Down_def split: if_splits)
    ultimately show ?thesis using 1 keeps_trans by blast
  qed
qed

section \<open>The configuration protocol\<close>

text \<open>The peer selected by a request is in the table unless it is a placeholder.\<close>

definition sp_ok :: "ipcSetPeer \<Rightarrow> Device \<Rightarrow> bool" where
  "sp_ok sp d = (\<forall>p. sp_peer sp = Some p \<and> \<not> sp_dummy sp \<longrightarrow> p \<in> set (peers_of d))"

lemma steady_PostConfig:
  assumes "handlePostConfig C L sp d = Some d'" "sp_ok sp d"
  shows "steady d d'"
proof (cases "sp_peer sp = None \<or> sp_dummy sp")
  case True
  then show ?thesis using assms(1) by (auto simp: handlePostConfig_def split: option.splits)
next
  case False
  then obtain p where p: "sp_peer sp = Some p" "\<not> sp_dummy sp" by auto
  define d1 where "d1 = (if sp_created sp
    then upd_peer p (\<lambda>x. x\<lparr>p_disableRoaming := (d_brokenRoaming d \<and> p_endpoint x \<noteq> None)\<rparr>) d else d)"
  have c1: "calm d d1" by (auto simp: d1_def intro!: calm_upd_peer_simple)
  then have 1: "steady d d1" by (intro calm_steady)
  show ?thesis
  proof (cases "isUp d1")
    case False
    then show ?thesis using assms(1) p 1 by (simp add: handlePostConfig_def d1_def Let_def split: if_splits)
  next
    case True
    let ?d0 = "Start (le_start L) p d1"
    obtain e d2 where i: "SendHandshakeInitiation C (le_init L) False p ?d0 = Some (e, d2)"
      "SendStagedPackets C (le_staged L) p d2 = Some d'"
      using assms(1) p True by (auto simp: handlePostConfig_def d1_def [symmetric] Let_def elim!: bind_SomeE)
    have "p \<in> set (peers_of d1)" using assms(2) p calmD(6) [OF c1] by (simp add: sp_ok_def)
    note 1
    also have "steady d1 ?d0" by (rule steady_Start) fact
    also have "steady ?d0 d2" using calm_initiation [OF i(1)] by (intro calm_steady)
    also have "steady d2 d'" using calm_SendStaged [OF i(2)] by (intro calm_steady)
    finally show ?thesis .
  qed
qed

lemma keeps_new_dummy:
  assumes "new_dummy d = (q, d')"
  shows "keeps d d' \<and> peers_of d' = peers_of d"
proof -
  have "peer_ok (next_kp d) zero_Peer"
    by (simp add: peer_ok_def zero_Peer_def slots_def zero_Keypairs_def idle_def zero_Timers_def)
  moreover have "\<not> p_isRunning zero_Peer" by (simp add: zero_Peer_def)
  ultimately have "wf_device d \<Longrightarrow> wf_device d'"
    using assms by (fastforce simp: new_dummy_def wf_device_def peers_of_def split: if_splits)
  then show ?thesis using assms by (auto simp: new_dummy_def peers_of_def isClosed_def intro!: keepsI)
qed

lemma keeps_PublicKeyLine_ok:
  assumes "handlePublicKeyLine C sp v d = (None, sp', d')"
  shows "keeps d d' \<and> sp_ok sp' d'"
proof -
  obtain ok pk where pk: "publicKey_FromHex (replicate 32 0) v = (ok, pk)" by fastforce
  consider (dummy) q where "new_dummy d = (q, d')" "sp_dummy sp'"
    | (old) p where "LookupPeer pk d = Some p" "sp_peer sp' = Some p" "d' = d"
    | (new) p where "NewPeer C pk d = (Inr p, d')" "sp_peer sp' = Some p"
    using assms(1) pk
    by (auto simp: handlePublicKeyLine_def Let_def split: if_splits option.splits prod.splits sum.splits)
  then show ?thesis
  proof cases
    case (dummy q)
    then show ?thesis using keeps_new_dummy by (auto simp: sp_ok_def)
  next
    case (old p)
    then show ?thesis using map_of_SomeD [of "d_keyMap d" pk p]
      by (force simp: sp_ok_def LookupPeer_def peers_of_def)
  next
    case (new p)
    then have "LookupPeer pk d' = Some p" using NewPeer_ok by blast
    then have "p \<in> set (peers_of d')" using map_of_SomeD [of "d_keyMap d'" pk p] by (force simp: LookupPeer_def peers_of_def)
    then show ?thesis using keeps_NewPeer [OF new(1)] new(2) by (auto simp: sp_ok_def)
  qed
qed

lemma keeps_PublicKeyLine:
  assumes "handlePublicKeyLine C sp v d = (e, sp', d')"
  shows "keeps d d' \<and> (e = None \<longrightarrow> sp_ok sp' d')"
proof (cases e)
  case None
  then show ?thesis using keeps_PublicKeyLine_ok assms by blast
next
  case (Some x)
  then have "d' = d" using handlePublicKeyLine_refused assms by blast
  then show ?thesis using Some by simp
qed

lemma keeps_DeviceLine:
  assumes "handleDeviceLine C L k v d = Some (e, d')"
  shows "keeps d d'"
proof -
  have port: "keeps d d'" if "BindUpdate B (d\<lparr>d_port := a\<rparr>) = (ok, d')" for B a ok
    by (rule calm_keeps, rule calm_trans [OF _ calm_BindUpdate [OF that]]) simp
  have mark: "keeps d d'" if "BindSetMark B m d = (ok, d')" for B m ok
    using calm_BindSetMark [OF that] calm_keeps by blast
  show ?thesis using assms
    by (auto simp: handleDeviceLine_def Let_def elim!: bind_SomeE split: if_splits option.splits prod.splits
        dest: keeps_SetPrivateKey keeps_RemoveAllPeers port mark)
qed

lemma keeps_drop_selected:
  assumes "drop_selected C L b p sp d = Some (e, sp', d')"
  shows "keeps d d' \<and> sp_ok sp' d'"
proof -
  obtain d1 q where d1: "(if b then RemovePeer C (le_peers L) (hs_remoteStatic (hs_of d p)) d else Some d) = Some d1"
    "new_dummy d1 = (q, d')" "sp_dummy sp'"
    using assms(1) by (auto simp: drop_selected_def elim!: bind_SomeE split: prod.splits)
  have "keeps d d1" using d1(1) keeps_RemovePeer by (auto split: if_splits)
  then show ?thesis using keeps_new_dummy [OF d1(2)] keeps_trans d1(3) by (auto simp: sp_ok_def)
qed

lemma keeps_PeerLine:
  assumes "handlePeerLine C L p sp k v d = Some (e, sp', d')" "wf_device d" "sp_ok sp d" "sp_peer sp = Some p"
  shows "keeps d d' \<and> sp_ok sp' d'"
proof -
  have calm: "keeps d x \<and> sp_ok sp x" if "calm d x" for x
    using calm_keeps [of d x] that calmD(6) [OF that] assms(3) by (simp add: sp_ok_def)
  have hs: "calm d (upd_hs p (\<lambda>h. h\<lparr>hs_presharedKey := x\<rparr>) d)" for x by (rule calm_upd_hs) simp
  have ep: "calm d (upd_peer p (\<lambda>x. x\<lparr>p_endpoint := a\<rparr>) d)" "calm d (upd_peer p (\<lambda>x. x\<lparr>p_persistentKeepaliveInterval := i\<rparr>) d)"
    "calm d (upd_peer p (\<lambda>x. x\<lparr>p_trick := t\<rparr>) d)" for a i t by (rule calm_upd_peer_simple; simp)+
  have rv: "calm d (upd_peer p (\<lambda>x. x\<lparr>p_reserved := r\<rparr>) d)" if "length r = 3" for r
    by (rule calm_upd_peer) (use that in \<open>auto simp: peer_ok_def\<close>)
  have al: "keeps d (d\<lparr>d_allowedips := a\<rparr>) \<and> sp_ok sp (d\<lparr>d_allowedips := a\<rparr>)" if "allowed_inv a" for a
    using assms(2,3) that by (simp add: sp_ok_def peers_of_def keeps_def wf_device_def isClosed_def)
  have inv: "allowed_inv (d_allowedips d)" by (rule wf_deviceD(5) [OF assms(2)])
  have ins: "allowed_inv a" if "Insert pfx p (d_allowedips d) = Some a" "ParsePrefix v = Some pfx" for a pfx
    using aip.ins_law [OF inv ParsePrefix_ok [OF that(2)], of p] that(1) by auto
  have rem: "allowed_inv (RemoveByPeer p (d_allowedips d))" using aip.rem_law [OF inv, of p] by blast
  have pk: "sp_ok (sp\<lparr>sp_pkaOn := b\<rparr>) x = sp_ok sp x" for b x by (simp add: sp_ok_def)
  show ?thesis using assms calm [OF ep(1)] calm [OF ep(2)] calm [OF ep(3)] calm [OF rv] calm [OF hs] al ins rem parse_reserved_length
    unfolding handlePeerLine_def Let_def
    by (auto simp: pk elim!: bind_SomeE split: if_splits option.splits prod.splits dest: keeps_drop_selected)
qed

lemma set_lines_step:
  assumes "set_lines C Ls rerr i (l # ls) sp dc d = Some (e, d')"
  obtains (stop) "handlePostConfig C (Ls i) sp d = Some d' \<or> d' = d"
    | (pk) v d1 e1 sp1 d2 where "handlePostConfig C (Ls i) sp d = Some d1"
        "handlePublicKeyLine C sp v d1 = (e1, sp1, d2)"
        "if e1 \<noteq> None then d' = d2 else set_lines C Ls rerr (Suc i) ls sp1 False d2 = Some (e, d')"
    | (dev) k v e1 d1 where "dc" "handleDeviceLine C (Ls i) k v d = Some (e1, d1)"
        "if e1 \<noteq> None then d' = d1 else set_lines C Ls rerr (Suc i) ls sp True d1 = Some (e, d')"
    | (peer) k v p e1 sp1 d1 where "sp_peer sp = Some p" "handlePeerLine C (Ls i) p sp k v d = Some (e1, sp1, d1)"
        "if e1 \<noteq> None then d' = d1 else set_lines C Ls rerr (Suc i) ls sp1 False d1 = Some (e, d')"
proof (cases "length l \<ge> MaxScanTokenSize \<or> dropCR l = []")
  case True
  then show ?thesis using assms stop by (auto simp: Let_def elim!: bind_SomeE split: if_splits)
next
  case False
  then have n: "\<not> MaxScanTokenSize \<le> length l" "dropCR l \<noteq> []" by simp_all
  show ?thesis
  proof (cases "cut_at CHR ''='' (dropCR l)")
    case None
    then show ?thesis using assms n stop by (simp add: Let_def)
  next
    case (Some kv)
    obtain k v where kv: "kv = (k, v)" by fastforce
    note eq = assms [unfolded set_lines.simps Let_def if_not_P [OF n(1)] if_not_P [OF n(2)] Some kv option.case prod.case]
    show ?thesis
    proof (cases "k = ''public_key''")
      case True
      obtain d1 where d1: "handlePostConfig C (Ls i) sp d = Some d1"
        "(case handlePublicKeyLine C sp v d1 of (e1, sp1, d2) \<Rightarrow>
           if e1 \<noteq> None then Some (e1, d2) else set_lines C Ls rerr (Suc i) ls sp1 False d2) = Some (e, d')"
        using eq [unfolded if_P [OF True]] by (rule bind_SomeE)
      obtain e1 sp1 d2 where h: "handlePublicKeyLine C sp v d1 = (e1, sp1, d2)" using prod_cases3 by blast
      then show ?thesis using pk [OF d1(1) h] d1(2) by (cases e1) auto
    next
      case False
      show ?thesis
      proof (cases dc)
        case True
        then show ?thesis using eq False dev [OF True] by (auto elim!: bind_SomeE split: if_splits)
      next
        case nd: False
        obtain p where p: "sp_peer sp = Some p" using eq False nd by (cases "sp_peer sp") auto
        then show ?thesis using eq False nd peer [OF p] by (auto elim!: bind_SomeE split: if_splits)
      qed
    qed
  qed
qed

lemma keeps_set_lines:
  assumes "set_lines C Ls rerr i ls sp dc d = Some (e, d')" "sp_ok sp d" "dc \<longrightarrow> sp_peer sp = None"
  shows "keeps d d'"
  using assms
proof (induction ls arbitrary: i sp dc d)
  case Nil
  then show ?case using steady_keeps steady_PostConfig by (auto elim!: bind_SomeE)
next
  case (Cons l ls)
  show ?case
  proof (cases "wf_device d")
    case False
    then show ?thesis by (simp add: keeps_def)
  next
    case wf: True
    have post: "keeps d x" if "handlePostConfig C (Ls i) sp d = Some x" for x
      using that Cons.prems(2) steady_PostConfig steady_keeps by blast
    consider (stop) "handlePostConfig C (Ls i) sp d = Some d' \<or> d' = d"
      | (pk) v d1 e1 sp1 d2 where "handlePostConfig C (Ls i) sp d = Some d1"
          "handlePublicKeyLine C sp v d1 = (e1, sp1, d2)"
          "if e1 \<noteq> None then d' = d2 else set_lines C Ls rerr (Suc i) ls sp1 False d2 = Some (e, d')"
      | (dev) k v e1 d1 where "dc" "handleDeviceLine C (Ls i) k v d = Some (e1, d1)"
          "if e1 \<noteq> None then d' = d1 else set_lines C Ls rerr (Suc i) ls sp True d1 = Some (e, d')"
      | (peer) k v p e1 sp1 d1 where "sp_peer sp = Some p" "handlePeerLine C (Ls i) p sp k v d = Some (e1, sp1, d1)"
          "if e1 \<noteq> None then d' = d1 else set_lines C Ls rerr (Suc i) ls sp1 False d1 = Some (e, d')"
      using Cons.prems(1) by (rule set_lines_step)
    then show ?thesis
    proof cases
      case stop
      then show ?thesis using post by auto
    next
      case (pk v d1 e1 sp1 d2)
      note 1 = keeps_trans [OF post [OF pk(1)] keeps_PublicKeyLine [OF pk(2), THEN conjunct1]]
      have "keeps d2 d'" if "e1 = None"
        using Cons.IH [of "Suc i" sp1 False d2] pk(3) that keeps_PublicKeyLine [OF pk(2)] by simp
      then show ?thesis using pk(3) 1 keeps_trans [OF 1] by (cases e1) simp_all
    next
      case (dev k v e1 d1)
      have n: "sp_peer sp = None" using dev(1) Cons.prems(3) by simp
      have "keeps d1 d'" if "e1 = None"
        using Cons.IH [of "Suc i" sp True d1] dev(3) that n by (simp add: sp_ok_def)
      then show ?thesis using dev(3) keeps_DeviceLine [OF dev(2)] keeps_trans [OF keeps_DeviceLine [OF dev(2)]] by (cases e1) simp_all
    next
      case (peer k v p e1 sp1 d1)
      note 1 = keeps_PeerLine [OF peer(2) wf Cons.prems(2) peer(1)]
      then have "keeps d1 d'" if "e1 = None"
        using Cons.IH [of "Suc i" sp1 False d1] peer(3) that by simp
      then show ?thesis using peer(3) 1 keeps_trans [OF 1 [THEN conjunct1]] by (cases e1) simp_all
    qed
  qed
qed

lemma keeps_IpcSetOperation:
  assumes "IpcSetOperation C Ls rerr t d = Some (e, d')"
  shows "keeps d d'"
  by (rule keeps_set_lines [OF assms [unfolded IpcSetOperation_def]]) (simp_all add: sp_ok_def)

section \<open>The transition system\<close>

text \<open>
  A step is one call: of a worker on the queues, of a timer, of the reader of TUN events, of the
  exported operations, or of the configuration protocol. The readings of the outside are arbitrary.
\<close>

inductive dev_step :: "Crypto \<Rightarrow> Device \<Rightarrow> Device \<Rightarrow> bool" for C where
  read_tun: "RoutineReadFromTUN C Es packets d = Some d' \<Longrightarrow> dev_step C d d'"
| encrypt: "RoutineEncryption C p i d = Some d' \<Longrightarrow> dev_step C d d'"
| send: "RoutineSequentialSender C E p d = Some d' \<Longrightarrow> dev_step C d d'"
| receive: "RoutineReceiveIncoming E batch d = Some d' \<Longrightarrow> dev_step C d d'"
| decrypt: "RoutineDecryption C p i d = Some d' \<Longrightarrow> dev_step C d d'"
| handshake: "RoutineHandshake C E d = Some d' \<Longrightarrow> dev_step C d d'"
| deliver: "RoutineSequentialReceiver C E p d = Some d' \<Longrightarrow> dev_step C d d'"
| timer: "timer_fires C E kind p d = Some d' \<Longrightarrow> dev_step C d d'"
| tun_event: "RoutineTUNEventReader C Eu Ed B mtu ev d = Some d' \<Longrightarrow> dev_step C d d'"
| change_state: "changeState C Es B want d = Some (ok, d') \<Longrightarrow> dev_step C d d'"
| shut: "device_Close C Es B d = Some d' \<Longrightarrow> dev_step C d d'"
| new_peer: "NewPeer C pk d = (r, d') \<Longrightarrow> dev_step C d d'"
| remove_peer: "RemovePeer C Es pk d = Some d' \<Longrightarrow> dev_step C d d'"
| remove_all: "RemoveAllPeers C Es d = Some d' \<Longrightarrow> dev_step C d d'"
| set_key: "SetPrivateKey C Es sk d = Some d' \<Longrightarrow> dev_step C d d'"
| set_mark: "BindSetMark B mark d = (ok, d') \<Longrightarrow> dev_step C d d'"
| bind_update: "BindUpdate B d = (ok, d') \<Longrightarrow> dev_step C d d'"
| bind_close: "BindClose B d = (ok, d') \<Longrightarrow> dev_step C d d'"
| keepalives: "SendKeepalivesToPeersWithCurrentKeypair C Es d = Some d' \<Longrightarrow> dev_step C d d'"
| roaming: "d' = DisableSomeRoamingForBrokenMobileSemantics d \<Longrightarrow> dev_step C d d'"
| configure: "IpcSetOperation C Ls rerr t d = Some (e, d') \<Longrightarrow> dev_step C d d'"

inductive reachable :: "Crypto \<Rightarrow> Device \<Rightarrow> bool" for C where
  created: "NewDevice mtu = Some d \<Longrightarrow> reachable C d"
| later: "reachable C d \<Longrightarrow> dev_step C d d' \<Longrightarrow> reachable C d'"

lemma keeps_step: "dev_step C d d' \<Longrightarrow> keeps d d'"
proof (induction rule: dev_step.induct)
  case (bind_close B d ok d')
  then show ?case using calm_closeBind by (intro calm_keeps) (simp add: BindClose_def)
next
  case (keepalives Es d d')
  then show ?case using steady_keepalives steady_keeps by blast
next
  case (configure Ls rerr t d e d')
  then show ?case by (rule keeps_IpcSetOperation)
qed (blast intro: calm_keeps calm_ReadFromTUN calm_Encryption calm_SequentialSender calm_ReceiveIncoming calm_Decryption
    calm_RoutineHandshake calm_SequentialReceiver calm_timer_fires keeps_TUNEvent keeps_changeState keeps_Close keeps_NewPeer
    keeps_RemovePeer keeps_RemoveAllPeers keeps_SetPrivateKey calm_BindSetMark calm_BindUpdate calm_roaming)+

lemma wf_NewDevice: "NewDevice mtu = Some d \<Longrightarrow> wf_device d \<and> \<not> isClosed d"
proof -
  assume "NewDevice mtu = Some d"
  then have d: "peer_heap d = (\<lambda>_. zero_Peer)" "kp_heap d = (\<lambda>_. zero_Keypair)" "d_keyMap d = []"
    "d_allowedips d = zero_AllowedIPs" "d_handshakeq d = []" "d_state d = deviceStateDown"
    by (auto simp: NewDevice_def zero_Device_def elim!: bind_SomeE)
  have "peer_ok n zero_Peer" for n
    by (simp add: peer_ok_def zero_Peer_def slots_def zero_Keypairs_def idle_def zero_Timers_def)
  moreover have "keypair_ok zero_Keypair"
    using filter_rel_zero by (auto simp: keypair_ok_def zero_Keypair_def)
  ultimately show ?thesis
    using d allowed_inv_zero by (simp add: wf_device_def peers_of_def isClosed_def zero_Peer_def)
qed

lemma reachable_inv: "reachable C d \<Longrightarrow> wf_device d \<and> (isClosed d \<longrightarrow> d_keyMap d = [])"
proof (induction rule: reachable.induct)
  case (created mtu d)
  then show ?case using wf_NewDevice by blast
next
  case (later d d')
  then show ?case using keeps_step [OF later(2)] by (auto simp: keeps_def split: if_splits)
qed

lemma no_peers_idle:
  assumes "wf_device d" "d_keyMap d = []"
  shows "\<not> p_isRunning (peer_heap d q) \<and> idle (p_timers (peer_heap d q))"
  using wf_deviceD(1,7) [OF assms(1), of q] assms(2) by (auto simp: peers_of_def peer_ok_def)

lemma dev_steps_reachable: "(dev_step C)\<^sup>*\<^sup>* d d' \<Longrightarrow> reachable C d \<Longrightarrow> reachable C d'"
  by (induction rule: rtranclp_induct) (auto intro: later)

lemma dev_steps_closed: "(dev_step C)\<^sup>*\<^sup>* d d' \<Longrightarrow> reachable C d \<Longrightarrow> isClosed d \<Longrightarrow> isClosed d'"
proof (induction rule: rtranclp_induct)
  case (step x y)
  then have "wf_device x" using dev_steps_reachable reachable_inv by blast
  then show ?case using keeps_step [OF step(2)] step by (simp add: keeps_def)
qed simp

lemma map_of_filter_key: "map_of (filter (\<lambda>e. fst e \<noteq> k) xs) j = (if j = k then None else map_of xs j)"
  by (induction xs) auto

lemma match_upto_found: "match_upto m x n = Some v \<Longrightarrow> \<exists>k. m k = Some v"
  by (induction n) (auto split: option.splits)

lemma Lookup_removed:
  assumes "allowed_inv a" "length ip = 4 \<or> length ip = 16"
  shows "\<exists>r. Lookup ip (RemoveByPeer p a) = Some r \<and> r \<noteq> Some p"
proof -
  note r = aip.rem_law [OF assms(1), of p]
  have "routes (RemoveByPeer p a) (length ip) = spec_step (DropPeer p) (routes a) (length ip)"
    using r assms(2) unfolding same_routes_def addr_len_def by blast
  then have n: "routes (RemoveByPeer p a) (length ip) k \<noteq> Some p" for k by simp
  have "Lookup ip (RemoveByPeer p a) = Some (longest_match (routes (RemoveByPeer p a) (length ip)) (ip_bits ip))"
    using aip.look_law [of "RemoveByPeer p a" ip] r assms(2) by (simp add: addr_len_def)
  then show ?thesis using n match_upto_found [of "routes (RemoveByPeer p a) (length ip)"] unfolding longest_match_def by blast
qed

section \<open>Properties\<close>


definition example_new :: Device where
  "example_new = the (NewDevice None)"

lemma example_new: "NewDevice None = Some example_new"
  by (simp add: example_new_def NewDevice_def Init_def zero_Ratelimiter_def)

lemma example_joined:
  "\<exists>d. NewPeer plain_crypto (replicate 32 9) example_new = (Inr 0, d) \<and> LookupPeer (replicate 32 9) d = Some 0 \<and>
     reachable plain_crypto d"
proof -
  have f: "d_keyMap example_new = []" "d_state example_new = deviceStateDown" "next_peer example_new = 0"
    by (simp_all add: example_new_def NewDevice_def Init_def zero_Ratelimiter_def zero_Device_def)
  obtain r d where d: "NewPeer plain_crypto (replicate 32 9) example_new = (r, d)" by fastforce
  then have "r = Inr 0" using f
    by (auto simp: NewPeer_def isClosed_def MaxPeers_def LookupPeer_def Let_def split: if_splits)
  moreover have "reachable plain_crypto d" using d created [OF example_new] new_peer later by blast
  ultimately show ?thesis using d NewPeer_ok by blast
qed






end
