(* ===== verification/Checksum.thy ===== *)
theory Checksum
  imports Vwarp_Prelude
begin

text \<open>
  \<open>wireguard/tun/checksum.go\<close>: the Internet checksum. The code sums unrolled 32-bit words in a
  64-bit accumulator and folds at the end; the reference is the one's complement sum of the
  16-bit words. A panic cannot occur here.
\<close>

section \<open>The code\<close>

text \<open>\<open>n\<close> statements \<open>ac += uint64(binary.BigEndian.Uint32(b[4i:4i+4]))\<close> in a row.\<close>

fun add32 :: "nat \<Rightarrow> bytes \<Rightarrow> u64 \<Rightarrow> u64" where
  "add32 0 b ac = ac"
| "add32 (Suc n) b ac = add32 n (drop 4 b) (ac + of_nat (be_nat (take 4 b)))"

function sum128 :: "bytes \<Rightarrow> u64 \<Rightarrow> bytes \<times> u64" where
  "sum128 b ac = (if length b \<ge> 128 then sum128 (drop 128 b) (add32 32 b ac) else (b, ac))"
  by auto
termination
  by (relation "measure (\<lambda>(b, _). length b)") auto

declare sum128.simps [simp del]

text \<open>\<open>if len(b) >= 4 * n { ... b = b[4 * n:] }\<close>\<close>

definition sum_block :: "nat \<Rightarrow> bytes \<times> u64 \<Rightarrow> bytes \<times> u64" where
  "sum_block n s =
     (let (b, ac) = s in if length b \<ge> 4 * n then (drop (4 * n) b, add32 n b ac) else (b, ac))"

definition checksumNoFold :: "bytes \<Rightarrow> u64 \<Rightarrow> u64" where
  "checksumNoFold b initial =
     (let (b, ac) = sum_block 1 (sum_block 2 (sum_block 4 (sum_block 8 (sum_block 16 (sum128 b initial)))));
          (b, ac) = (if length b \<ge> 2 then (drop 2 b, ac + of_nat (be_nat (take 2 b))) else (b, ac))
      in if length b = 1 then ac + push_bit 8 (ucast (b ! 0)) else ac)"

definition fold16 :: "u64 \<Rightarrow> u64" where
  "fold16 ac = drop_bit 16 ac + (ac AND 0xffff)"

definition checksum :: "bytes \<Rightarrow> u64 \<Rightarrow> u16" where
  "checksum b initial = ucast (fold16 (fold16 (fold16 (fold16 (checksumNoFold b initial)))))"

definition pseudoHeaderChecksumNoFold :: "byte \<Rightarrow> bytes \<Rightarrow> bytes \<Rightarrow> u16 \<Rightarrow> u64" where
  "pseudoHeaderChecksumNoFold protocol srcAddr dstAddr totalLen =
     (let sum = checksumNoFold srcAddr 0;
          sum = checksumNoFold dstAddr sum;
          sum = checksumNoFold [0, protocol] sum
      in checksumNoFold (be_bytes 2 (unat totalLen)) sum)"

section \<open>The reference\<close>

text \<open>The 16-bit words of a byte string (an odd last byte is padded with zero) and their one's
  complement sum, with the carry added back in after every addition.\<close>

fun words16 :: "bytes \<Rightarrow> nat list" where
  "words16 [] = []"
| "words16 [x] = [unat x * 256]"
| "words16 (x # y # zs) = (unat x * 256 + unat y) # words16 zs"

definition oc_add :: "nat \<Rightarrow> nat \<Rightarrow> nat" where
  "oc_add a b = (if a + b \<ge> 65536 then a + b - 65535 else a + b)"

definition oc_sum :: "nat list \<Rightarrow> nat" where
  "oc_sum ws = foldl oc_add 0 ws"

definition wsum :: "bytes \<Rightarrow> nat" where
  "wsum b = sum_list (words16 b)"

definition oc :: "nat \<Rightarrow> nat" where
  "oc n = (if n = 0 then 0 else (n - 1) mod 65535 + 1)"

lemma oc_le: "oc n \<le> 65535"
  using mod_less_divisor [of 65535 "n - 1"] by (simp add: oc_def del: mod_less_divisor)

lemma oc_id: "n \<le> 65535 \<Longrightarrow> oc n = n"
  by (auto simp: oc_def)

lemma oc_0 [simp]: "oc 0 = 0"
  by (simp add: oc_def)

lemma oc_eq_0 [simp]: "oc n = 0 \<longleftrightarrow> n = 0"
  by (simp add: oc_def)

lemma oc_minus: "n \<ge> 65536 \<Longrightarrow> oc (n - 65535) = oc n"
proof -
  assume "n \<ge> 65536"
  then have "(n - 1) mod 65535 = (n - 65536) mod 65535" using mod_add_self2 [of "n - 65536" 65535] by simp
  then show ?thesis using \<open>n \<ge> 65536\<close> by (simp add: oc_def)
qed

lemma oc_mult: "a > 0 \<Longrightarrow> oc (a + 65535 * k) = oc a"
proof -
  assume "a > 0"
  then have "a + 65535 * k - 1 = a - 1 + 65535 * k" by simp
  then have "(a + 65535 * k - 1) mod 65535 = (a - 1) mod 65535" by (simp only: mod_mult_self2)
  then show ?thesis using \<open>a > 0\<close> by (simp add: oc_def)
qed

lemma oc_iff: "oc a = oc b \<longleftrightarrow> a mod 65535 = b mod 65535 \<and> (a = 0 \<longleftrightarrow> b = 0)"
proof (cases "a = 0 \<or> b = 0")
  case True
  then show ?thesis by auto
next
  case False
  then obtain x y where "a = Suc x" "b = Suc y" by (metis not0_implies_Suc)
  then show ?thesis by (simp add: oc_def) (simp add: mod_Suc split: if_splits)
qed

lemma oc_oc [simp]: "oc (oc n) = oc n"
  by (rule oc_id) (rule oc_le)

lemma oc_add_cong: "oc a = oc b \<Longrightarrow> oc (a + c) = oc (b + c)"
  unfolding oc_iff by (auto intro: mod_add_cong)

lemma oc_add_oc: "oc (oc a + c) = oc (a + c)"
  by (rule oc_add_cong) simp

lemma oc_add_eq: "a \<le> 65535 \<Longrightarrow> b \<le> 65535 \<Longrightarrow> oc_add a b = oc (a + b)"
  using oc_minus [of "a + b"] oc_id [of "a + b"] oc_id [of "a + b - 65535"] by (auto simp: oc_add_def)

lemma foldl_oc_add: "a \<le> 65535 \<Longrightarrow> list_all (\<lambda>w. w \<le> 65535) ws \<Longrightarrow> foldl oc_add a ws = oc (a + sum_list ws)"
proof (induction ws arbitrary: a)
  case (Cons w ws)
  then show ?case using oc_le oc_add_oc [of "a + w" "sum_list ws"] by (simp add: oc_add_eq add.assoc)
qed (simp add: oc_id)

lemma unat_byte_le: "unat (x :: byte) \<le> 255"
  using unat_byte_less [of x] by linarith

lemma words16_le: "list_all (\<lambda>w. w \<le> 65535) (words16 b)"
proof (induction b rule: words16.induct)
  case (2 x)
  then show ?case using unat_byte_le [of x] by simp
next
  case (3 x y zs)
  then show ?case using unat_byte_le [of x] unat_byte_le [of y] by simp
qed simp

lemma oc_sum_words16: "oc_sum (words16 b) = oc (wsum b)"
  using foldl_oc_add [of 0, OF _ words16_le] by (simp add: oc_sum_def wsum_def)

lemma wsum_pair: "wsum (x # y # zs) = unat x * 256 + unat y + wsum zs"
  by (simp add: wsum_def)

lemma wsum_append: "even (length a) \<Longrightarrow> wsum (a @ b) = wsum a + wsum b"
  by (induction a rule: words16.induct) (auto simp: wsum_def)

lemma wsum_take_drop: "even n \<Longrightarrow> n \<le> length b \<Longrightarrow> wsum b = wsum (take n b) + wsum (drop n b)"
  using wsum_append [of "take n b" "drop n b"] by simp

lemma wsum_2: "length b = 2 \<Longrightarrow> wsum b = be_nat b"
  by (cases b rule: words16.cases) (auto simp: wsum_def)

section \<open>Correctness\<close>

text \<open>A partial sum: the bytes still to add and the accumulator.\<close>

definition cs_total :: "bytes \<times> u64 \<Rightarrow> nat" where
  "cs_total s = oc (unat (snd s) + wsum (fst s))"

definition cs_room :: "bytes \<times> u64 \<Rightarrow> nat" where
  "cs_room s = unat (snd s) + 2 ^ 30 * length (fst s)"

lemma unat_add_of_nat: "unat (a :: u64) + n < 2 ^ 64 \<Longrightarrow> unat (a + of_nat n) = unat a + n"
  by (simp add: unat_word_ariths unat_of_nat)

lemma cs_word:
  assumes "length b \<ge> 4" "cs_room (b, ac) < 2 ^ 64"
  shows "cs_total (drop 4 b, ac + of_nat (be_nat (take 4 b))) = cs_total (b, ac) \<and>
    cs_room (drop 4 b, ac + of_nat (be_nat (take 4 b))) \<le> cs_room (b, ac)"
proof -
  obtain x y z w r where b: "b = x # y # z # w # r"
    using assms(1) by (auto simp: numeral_eq_Suc Suc_le_length_iff)
  let ?hi = "unat x * 256 + unat y" and ?lo = "unat z * 256 + unat w"
  have n: "be_nat (take 4 b) = ?hi * 65536 + ?lo" "be_nat (take 4 b) < 2 ^ 32"
    using be_nat_less [of "take 4 b"] by (auto simp: b)
  have u: "unat (ac + of_nat (be_nat (take 4 b))) = unat ac + be_nat (take 4 b)"
    using assms n(2) by (intro unat_add_of_nat) (simp add: cs_room_def b)
  have w: "wsum b = ?hi + ?lo + wsum r" by (simp add: b wsum_def)
  have "oc (unat ac + be_nat (take 4 b) + wsum r) = oc (unat ac + wsum b)"
  proof (cases "?hi = 0")
    case True
    then show ?thesis by (simp add: w n(1) add.assoc)
  next
    case False
    then have "0 < unat ac + wsum b" using w by simp
    then have "oc (unat ac + wsum b + 65535 * ?hi) = oc (unat ac + wsum b)" by (rule oc_mult)
    then show ?thesis by (simp add: w n(1) algebra_simps)
  qed
  then show ?thesis using u n(2) by (simp add: cs_total_def cs_room_def b)
qed

lemma cs_add32:
  assumes "length b \<ge> 4 * n" "cs_room (b, ac) < 2 ^ 64"
  shows "cs_total (drop (4 * n) b, add32 n b ac) = cs_total (b, ac) \<and>
    cs_room (drop (4 * n) b, add32 n b ac) \<le> cs_room (b, ac)"
  using assms
proof (induction n arbitrary: b ac)
  case (Suc n)
  have 1: "cs_total (drop 4 b, ac + of_nat (be_nat (take 4 b))) = cs_total (b, ac) \<and>
    cs_room (drop 4 b, ac + of_nat (be_nat (take 4 b))) \<le> cs_room (b, ac)"
    using Suc.prems by (intro cs_word) auto
  then show ?case using Suc.IH [of "drop 4 b" "ac + of_nat (be_nat (take 4 b))"] Suc.prems by (simp add: add.commute) linarith
qed simp

lemma cs_sum128:
  "cs_room (b, ac) < 2 ^ 64 \<Longrightarrow>
   cs_total (sum128 b ac) = cs_total (b, ac) \<and> cs_room (sum128 b ac) \<le> cs_room (b, ac) \<and> length (fst (sum128 b ac)) < 128"
proof (induction b ac rule: sum128.induct)
  case (1 b ac)
  show ?case
  proof (cases "length b \<ge> 128")
    case True
    have "cs_total (drop 128 b, add32 32 b ac) = cs_total (b, ac) \<and> cs_room (drop 128 b, add32 32 b ac) \<le> cs_room (b, ac)"
      using cs_add32 [of 32 b ac] True 1(2) by simp
    then show ?thesis using 1 True by (subst (1 2 3) sum128.simps) auto
  next
    case False
    then show ?thesis by (simp add: sum128.simps)
  qed
qed

definition cs_ok :: "nat \<Rightarrow> nat \<Rightarrow> nat \<Rightarrow> bytes \<times> u64 \<Rightarrow> bool" where
  "cs_ok t r k s = (cs_total s = t \<and> cs_room s \<le> r \<and> length (fst s) < k)"

lemma cs_block: "cs_ok t r (8 * n) s \<Longrightarrow> r < 2 ^ 64 \<Longrightarrow> cs_ok t r (4 * n) (sum_block n s)"
  using cs_add32 [of n "fst s" "snd s"] by (cases s) (auto simp: sum_block_def cs_ok_def)

lemma cs_blocks:
  assumes "cs_room (b, ac) < 2 ^ 64"
  shows "cs_ok (cs_total (b, ac)) (cs_room (b, ac)) 4
    (sum_block 1 (sum_block 2 (sum_block 4 (sum_block 8 (sum_block 16 (sum128 b ac))))))"
  (is "cs_ok ?t ?r 4 _")
proof -
  have "cs_ok ?t ?r 128 (sum128 b ac)" using cs_sum128 [OF assms] by (simp add: cs_ok_def)
  then have "cs_ok ?t ?r 64 (sum_block 16 (sum128 b ac))" using cs_block [of ?t ?r 16] assms by simp
  then have "cs_ok ?t ?r 32 (sum_block 8 (sum_block 16 (sum128 b ac)))" using cs_block [of ?t ?r 8] assms by simp
  then have "cs_ok ?t ?r 16 (sum_block 4 (sum_block 8 (sum_block 16 (sum128 b ac))))"
    using cs_block [of ?t ?r 4] assms by simp
  then have "cs_ok ?t ?r 8 (sum_block 2 (sum_block 4 (sum_block 8 (sum_block 16 (sum128 b ac)))))"
    using cs_block [of ?t ?r 2] assms by simp
  then show ?thesis using cs_block [of ?t ?r 1] assms by simp
qed

text \<open>The unfolded sum: no overflow, and the right value up to multiples of 65535.\<close>

lemma checksumNoFold_oc:
  assumes "unat ac + 2 ^ 30 * length b < 2 ^ 64"
  shows "oc (unat (checksumNoFold b ac)) = oc (unat ac + wsum b) \<and>
    unat (checksumNoFold b ac) \<le> unat ac + 2 ^ 30 * length b"
proof -
  obtain c x where s: "sum_block 1 (sum_block 2 (sum_block 4 (sum_block 8 (sum_block 16 (sum128 b ac))))) = (c, x)"
    by fastforce
  have ok: "oc (unat x + wsum c) = oc (unat ac + wsum b)" "unat x + 2 ^ 30 * length c \<le> unat ac + 2 ^ 30 * length b" "length c < 4"
    using cs_blocks [of b ac] assms s by (simp_all add: cs_ok_def cs_total_def cs_room_def)
  define c' x' where "c' = (if length c \<ge> 2 then drop 2 c else c)"
    and "x' = (if length c \<ge> 2 then x + of_nat (be_nat (take 2 c)) else x)"
  have two: "unat x' + wsum c' = unat x + wsum c \<and> unat x' + 2 ^ 30 * length c' \<le> unat x + 2 ^ 30 * length c"
  proof (cases "length c \<ge> 2")
    case True
    have n: "be_nat (take 2 c) < 65536" "wsum (take 2 c) = be_nat (take 2 c)"
      using be_nat_less [of "take 2 c"] wsum_2 [of "take 2 c"] True by simp_all
    then have "unat (x + of_nat (be_nat (take 2 c))) = unat x + be_nat (take 2 c)"
      using ok(2) assms True by (intro unat_add_of_nat) simp
    then show ?thesis using wsum_take_drop [of 2 c] n True by (simp add: c'_def x'_def)
  qed (simp add: c'_def x'_def)
  have "length (drop 2 c) < 2" using ok(3) by (simp only: length_drop)
  then have "length c' < 2" by (auto simp only: c'_def not_le split: if_split)
  then have l: "length c' = 0 \<or> length c' = 1" by linarith
  have r: "checksumNoFold b ac = (if length c' = 1 then x' + push_bit 8 (ucast (c' ! 0)) else x')"
    unfolding checksumNoFold_def Let_def s by (simp add: c'_def x'_def)
  have one: "unat (checksumNoFold b ac) = unat x' + wsum c'"
  proof (cases "length c' = 1")
    case True
    then obtain y where y: "c' = [y]" by (auto simp: length_Suc_conv)
    have e: "push_bit 8 (ucast y :: u64) = of_nat (unat y * 256)"
      by (simp add: push_bit_eq_mult mult.commute)
    have "unat (x' + of_nat (unat y * 256)) = unat x' + unat y * 256"
      using two ok(2) assms unat_byte_le [of y] by (intro unat_add_of_nat) (simp add: y)
    then show ?thesis using r e by (simp add: y wsum_def)
  next
    case False
    then show ?thesis using r l by (simp add: wsum_def)
  qed
  have "wsum c' \<le> 2 ^ 30 * length c'"
    using l order_trans [OF unat_byte_le] by (auto simp: wsum_def length_Suc_conv)
  then show ?thesis using one two ok by simp
qed

lemma unat_fold16: "unat (fold16 x) = unat x div 65536 + unat x mod 65536"
proof -
  have "x AND 0xffff = take_bit 16 x" by (simp add: take_bit_eq_mask mask_eq_exp_minus_1)
  moreover have "unat x div 65536 + unat x mod 65536 < 2 ^ 64"
    using unsigned_less [of x, where ?'a = nat] by simp
  ultimately show ?thesis
    by (simp add: fold16_def unat_word_ariths unat_drop_bit_eq drop_bit_eq_div unsigned_take_bit_eq take_bit_eq_mod)
qed

lemma oc_fold16: "oc (unat (fold16 x)) = oc (unat x)"
proof (cases "unat x div 65536 = 0")
  case True
  then show ?thesis by (simp add: unat_fold16)
next
  case False
  have "unat x = unat x div 65536 + unat x mod 65536 + 65535 * (unat x div 65536)"
    using div_mult_mod_eq [of "unat x" 65536] by simp
  then show ?thesis using oc_mult [of "unat x div 65536 + unat x mod 65536" "unat x div 65536"] False
    by (simp add: unat_fold16)
qed

lemma fold_bound: "(x :: nat) \<le> 65536 * m + 65534 \<Longrightarrow> x div 65536 + x mod 65536 \<le> m + 65534"
proof -
  assume "x \<le> 65536 * m + 65534"
  moreover have "x = 65536 * (x div 65536) + x mod 65536" "x mod 65536 \<le> 65535" by simp_all
  ultimately show ?thesis by (cases "x div 65536 < m") linarith+
qed

lemma fold16_4: "unat (fold16 (fold16 (fold16 (fold16 x)))) \<le> 65535"
proof -
  have "unat (fold16 x) \<le> 281474976710656 + 65534"
    using unsigned_less [of x, where ?'a = nat] unat_fold16 [of x] by simp
  then have "unat (fold16 (fold16 x)) \<le> 4294967296 + 65534"
    using fold_bound [of "unat (fold16 x)" 4294967296] by (simp add: unat_fold16 [of "fold16 x"])
  then have "unat (fold16 (fold16 (fold16 x))) \<le> 65536 + 65534"
    using fold_bound [of "unat (fold16 (fold16 x))" 65536] by (simp add: unat_fold16 [of "fold16 (fold16 x)"])
  then show ?thesis
    using fold_bound [of "unat (fold16 (fold16 (fold16 x)))" 1] by (simp add: unat_fold16 [of "fold16 (fold16 (fold16 x))"])
qed

text \<open>The folded sum is the one's complement sum, for every accumulator.\<close>

lemma checksum_oc: "unat (checksum b ac) = oc (unat (checksumNoFold b ac))"
proof -
  let ?f = "fold16 (fold16 (fold16 (fold16 (checksumNoFold b ac))))"
  have "unat (checksum b ac) = unat ?f" using fold16_4 [of "checksumNoFold b ac"]
    by (simp add: checksum_def unsigned_ucast_eq take_bit_eq_mod)
  also have "\<dots> = oc (unat ?f)" using oc_id [OF fold16_4] by simp
  finally show ?thesis by (simp add: oc_fold16)
qed

lemma checksum_wsum:
  "unat ac + 2 ^ 30 * length b < 2 ^ 64 \<Longrightarrow> unat (checksum b ac) = oc (unat ac + wsum b)"
  using checksum_oc checksumNoFold_oc by simp

lemma pseudoHeader_oc:
  assumes "length src + length dst \<le> 2 ^ 32"
  shows "oc (unat (pseudoHeaderChecksumNoFold proto src dst len)) = oc (wsum src + wsum dst + unat proto + unat len) \<and>
    unat (pseudoHeaderChecksumNoFold proto src dst len) \<le> 2 ^ 30 * (length src + length dst + 4)"
proof -
  let ?s = "checksumNoFold src 0"
  let ?d = "checksumNoFold dst ?s"
  let ?p = "checksumNoFold [0, proto] ?d"
  have s: "oc (unat ?s) = oc (wsum src)" "unat ?s \<le> 2 ^ 30 * length src"
    using checksumNoFold_oc [of 0 src] assms by simp_all
  have d: "oc (unat ?d) = oc (wsum src + wsum dst)" "unat ?d \<le> 2 ^ 30 * (length src + length dst)"
    using checksumNoFold_oc [of ?s dst] assms s oc_add_cong [OF s(1), of "wsum dst"] by (simp_all add: algebra_simps)
  have p: "oc (unat ?p) = oc (wsum src + wsum dst + unat proto)" "unat ?p \<le> 2 ^ 30 * (length src + length dst + 2)"
    using checksumNoFold_oc [of ?d "[0, proto]"] assms d oc_add_cong [OF d(1), of "unat proto"]
    by (simp_all add: algebra_simps wsum_def)
  have l: "wsum (be_bytes 2 (unat len)) = unat len"
    using wsum_2 [of "be_bytes 2 (unat len)"] be_nat_be_bytes [of 2 "unat len"] unsigned_less [of len, where ?'a = nat] by simp
  show ?thesis
    using checksumNoFold_oc [of ?p "be_bytes 2 (unat len)"] assms p oc_add_cong [OF p(1), of "unat len"]
    by (simp add: pseudoHeaderChecksumNoFold_def Let_def l algebra_simps)
qed

text \<open>Filling the checksum field, which was zero, with the complement makes the sum all ones.\<close>

lemma wsum_put_at:
  assumes "even i" "length v = 2" "i + 2 \<le> length b" "slice i (i + 2) b = [0, 0]"
  shows "wsum (put_at i v b) = wsum b + be_nat v"
proof -
  have b: "b = take i b @ [0, 0] @ drop (i + 2) b"
    using append_take_drop_id [of i b] append_take_drop_id [of 2 "drop i b"] assms(4) by (simp add: slice_def add.commute)
  have e: "even (length (take i b))" using assms(1,3) by simp
  have "wsum b = wsum (take i b) + wsum ([0, 0] @ drop (i + 2) b)"
    using wsum_append [OF e, of "[0, 0] @ drop (i + 2) b"] b by simp
  then show ?thesis
    using wsum_append [OF e] wsum_append [of v "drop (i + 2) b"] wsum_2 [OF assms(2)] assms(2) by (simp add: put_at_def wsum_def)
qed

lemma oc_complement: "oc (s + (65535 - oc s)) = 65535"
proof (cases "s = 0")
  case True
  then show ?thesis by (simp add: oc_id)
next
  case False
  have "oc (s + (65535 - oc s)) = oc (oc s + (65535 - oc s))" by (simp only: oc_add_oc)
  then show ?thesis using oc_le [of s] by (simp add: oc_id)
qed

lemma unat_NOT16: "unat (NOT (w :: u16)) = 65535 - unat w"
proof -
  have "NOT w = - 1 - w" by (simp add: not_eq_complement)
  then show ?thesis using unat_sub [of w "- 1"] by (simp add: unsigned_minus_1_eq_mask mask_eq_exp_minus_1)
qed

lemma checksum_fill:
  assumes "even i" "i + 2 \<le> length b" "slice i (i + 2) b = [0, 0]" "unat ac + 2 ^ 30 * length b < 2 ^ 64"
  shows "NOT (checksum (put_at i (be_bytes 2 (unat (NOT (checksum b ac)))) b) ac) = 0"
proof -
  let ?v = "be_bytes 2 (unat (NOT (checksum b ac)))"
  have n: "unat (NOT (checksum b ac)) = 65535 - oc (unat ac + wsum b)"
    using checksum_wsum [OF assms(4)] by (simp add: unat_NOT16)
  have "be_nat ?v = 65535 - oc (unat ac + wsum b)"
    unfolding be_nat_be_bytes n using oc_le [of "unat ac + wsum b"] by simp
  then have "unat (checksum (put_at i ?v b) ac) = oc (unat ac + wsum b + (65535 - oc (unat ac + wsum b)))"
    using assms checksum_wsum [of ac "put_at i ?v b"] wsum_put_at [of i ?v b] by (simp add: length_put_at add.assoc)
  then have "unat (checksum (put_at i ?v b) ac) = 65535" by (simp only: oc_complement)
  then have "unat (NOT (checksum (put_at i ?v b) ac)) = 0" by (simp add: unat_NOT16)
  then show ?thesis by (simp add: unat_eq_0)
qed

section \<open>Properties\<close>

text \<open>C26: The checksum the code computes in a 64-bit accumulator with unrolled 32-bit loads is the
  Internet checksum: the one's complement sum of the 16-bit words, with and without a pseudo
  header of addresses, protocol and length in front.\<close>

theorem checksum_reference:
  assumes "even (length src)" "even (length dst)" "length src + length dst + length b \<le> 2 ^ 32"
  shows "unat (checksum b 0) = oc_sum (words16 b) \<and>
    unat (checksum b (pseudoHeaderChecksumNoFold proto src dst len)) =
      oc_sum (words16 (src @ dst @ [0, proto] @ be_bytes 2 (unat len) @ b))"
proof -
  let ?p = "pseudoHeaderChecksumNoFold proto src dst len"
  have l: "wsum (be_bytes 2 (unat len)) = unat len"
    using wsum_2 [of "be_bytes 2 (unat len)"] be_nat_be_bytes [of 2 "unat len"] unsigned_less [of len, where ?'a = nat] by simp
  have w: "wsum (src @ dst @ [0, proto] @ be_bytes 2 (unat len) @ b) = wsum src + wsum dst + unat proto + unat len + wsum b"
    using assms l wsum_append [of "be_bytes 2 (unat len)" b] by (simp add: wsum_append wsum_pair)
  have "unat ?p + 2 ^ 30 * length b < 2 ^ 64" using pseudoHeader_oc [of src dst proto len] assms by simp
  then have "unat (checksum b ?p) = oc (unat ?p + wsum b)" by (rule checksum_wsum)
  also have "\<dots> = oc (wsum src + wsum dst + unat proto + unat len + wsum b)"
    using pseudoHeader_oc [of src dst proto len] assms by (intro oc_add_cong) simp
  finally show ?thesis using checksum_wsum [of 0 b] assms(3) w by (simp add: oc_sum_words16)
qed

theorem checksum_reference_witness:
  "unat (checksum [0x12, 0x34, 0xff, 0xff, 0x01] 0) = oc_sum (words16 [0x12, 0x34, 0xff, 0xff, 0x01]) \<and>
   unat (checksum [0x12, 0x34, 0xff, 0xff, 0x01] (pseudoHeaderChecksumNoFold 17 [10, 0, 0, 1] [10, 0, 0, 2] 5)) =
     oc_sum (words16 [10, 0, 0, 1, 10, 0, 0, 2, 0, 17, 0, 5, 0x12, 0x34, 0xff, 0xff, 0x01])"
proof -
  let ?b = "[0x12, 0x34, 0xff, 0xff, 0x01] :: bytes"
  have "be_bytes (Suc (Suc 0)) (unat (5 :: u16)) = [0, 5]" by simp
  then have n: "be_bytes 2 (unat (5 :: u16)) = [0, 5]" by (simp only: numeral_2_eq_2)
  have h: "even (length ([10, 0, 0, 1] :: bytes))" "even (length ([10, 0, 0, 2] :: bytes))"
    "length ([10, 0, 0, 1] :: bytes) + length ([10, 0, 0, 2] :: bytes) + length ?b \<le> 2 ^ 32" by simp_all
  show ?thesis using checksum_reference [OF h, of 17 5] unfolding n by (simp only: append.simps)
qed

end
