(* ===== verification/Go_Slices.thy ===== *)
theory Go_Slices
  imports Vwarp_Prelude "HOL-Library.Monad_Syntax"
begin

text \<open>
  Accesses to byte slices that can panic: indexing, slicing, and the fixed-width codecs of
  \<open>encoding/binary\<close>. \<open>None\<close> is a panic. An upper bound of a slice expression is compared with the
  length; Go compares it with the capacity, which makes no difference where no access is \<open>None\<close>.
\<close>

definition at :: "'a list \<Rightarrow> nat \<Rightarrow> 'a option" where
  "at b i = (if i < length b then Some (b ! i) else None)"

definition set_at :: "nat \<Rightarrow> 'a \<Rightarrow> 'a list \<Rightarrow> 'a list option" where
  "set_at i v b = (if i < length b then Some (b[i := v]) else None)"

definition sub :: "nat \<Rightarrow> nat \<Rightarrow> 'a list \<Rightarrow> 'a list option" where
  "sub lo hi b = (if lo \<le> hi \<and> hi \<le> length b then Some (slice lo hi b) else None)"

definition from_at :: "nat \<Rightarrow> 'a list \<Rightarrow> 'a list option" where
  "from_at lo b = (if lo \<le> length b then Some (drop lo b) else None)"

definition Uint16 :: "bytes \<Rightarrow> nat \<Rightarrow> u16 option" where
  "Uint16 b i = (if i + 2 \<le> length b then Some (of_nat (be_nat (slice i (i + 2) b))) else None)"

definition Uint32 :: "bytes \<Rightarrow> nat \<Rightarrow> u32 option" where
  "Uint32 b i = (if i + 4 \<le> length b then Some (of_nat (be_nat (slice i (i + 4) b))) else None)"

definition PutUint16 :: "nat \<Rightarrow> u16 \<Rightarrow> bytes \<Rightarrow> bytes option" where
  "PutUint16 i v b = (if i + 2 \<le> length b then Some (put_at i (be_bytes 2 (unat v)) b) else None)"

definition PutUint32 :: "nat \<Rightarrow> u32 \<Rightarrow> bytes \<Rightarrow> bytes option" where
  "PutUint32 i v b = (if i + 4 \<le> length b then Some (put_at i (be_bytes 4 (unat v)) b) else None)"

text \<open>\<open>copy(dst[i:], src)\<close> copies as much as fits.\<close>

definition copy_at :: "nat \<Rightarrow> 'a list \<Rightarrow> 'a list \<Rightarrow> 'a list option" where
  "copy_at i src dst = (if i \<le> length dst then Some (put_at i (take (length dst - i) src) dst) else None)"

lemma at_Some: "i < length b \<Longrightarrow> at b i = Some (b ! i)"
  by (simp add: at_def)

lemma sub_Some: "lo \<le> hi \<Longrightarrow> hi \<le> length b \<Longrightarrow> sub lo hi b = Some (slice lo hi b)"
  by (simp add: sub_def)

lemma from_at_Some: "lo \<le> length b \<Longrightarrow> from_at lo b = Some (drop lo b)"
  by (simp add: from_at_def)

lemma Uint16_Some: "i + 2 \<le> length b \<Longrightarrow> Uint16 b i = Some (of_nat (be_nat (slice i (i + 2) b)))"
  by (simp add: Uint16_def)

lemma Uint32_Some: "i + 4 \<le> length b \<Longrightarrow> Uint32 b i = Some (of_nat (be_nat (slice i (i + 4) b)))"
  by (simp add: Uint32_def)

lemma PutUint16_Some: "i + 2 \<le> length b \<Longrightarrow> PutUint16 i v b = Some (put_at i (be_bytes 2 (unat v)) b)"
  by (simp add: PutUint16_def)

lemma PutUint32_Some: "i + 4 \<le> length b \<Longrightarrow> PutUint32 i v b = Some (put_at i (be_bytes 4 (unat v)) b)"
  by (simp add: PutUint32_def)

lemma set_at_Some: "i < length b \<Longrightarrow> set_at i v b = Some (b[i := v])"
  by (simp add: set_at_def)

lemma copy_at_Some: "i + length src \<le> length dst \<Longrightarrow> copy_at i src dst = Some (put_at i src dst)"
  by (simp add: copy_at_def)

lemmas slice_total = at_Some sub_Some from_at_Some Uint16_Some Uint32_Some PutUint16_Some PutUint32_Some set_at_Some copy_at_Some

lemma drop_put_at: "i + length v \<le> j \<Longrightarrow> j \<le> length b \<Longrightarrow> drop j (put_at i v b) = drop j b"
  by (simp add: put_at_def)

lemma take_put_at: "j \<le> i \<Longrightarrow> i \<le> length b \<Longrightarrow> take j (put_at i v b) = take j b"
  by (simp add: put_at_def min_absorb1)

lemma slice_put_at_other:
  assumes "i + length v \<le> length b" "j + n \<le> i \<or> i + length v \<le> j"
  shows "slice j (j + n) (put_at i v b) = slice j (j + n) b"
proof (cases "j + n \<le> i")
  case True
  then have "slice j (j + n) (put_at i v b) = drop j (take (j + n) (put_at i v b))"
    by (simp add: slice_def drop_take)
  then show ?thesis using True assms(1) by (simp add: take_put_at slice_def drop_take)
next
  case False
  then have "drop j (put_at i v b) = drop j b" using assms by (cases "j \<le> length b") (simp_all add: drop_put_at length_put_at)
  then show ?thesis by (simp add: slice_def)
qed

lemma nth_put_at:
  assumes "i + length v \<le> length b" "j < length b"
  shows "put_at i v b ! j = (if i \<le> j \<and> j < i + length v then v ! (j - i) else b ! j)"
  using assms by (auto simp: put_at_def nth_append)

lemma put_at_mid: "length x = i \<Longrightarrow> length v = length y \<Longrightarrow> put_at i v (x @ y @ z) = x @ v @ z"
  by (simp add: put_at_def)

lemma slice_take: "slice 0 n xs = take n xs"
  by (simp add: slice_def)

lemma take_drop_slice: "take n (drop i xs) = slice i (i + n) xs"
  by (simp add: slice_def)

text \<open>A list cut into pieces of \<open>n\<close> elements; the last one may be shorter.\<close>

function cut :: "nat \<Rightarrow> 'a list \<Rightarrow> 'a list list" where
  "cut n xs = (if xs = [] \<or> n = 0 then [] else take n xs # cut n (drop n xs))"
  by auto
termination
  by (relation "measure (\<lambda>(n, xs). length xs)") auto

declare cut.simps [simp del]

lemma cut_Nil [simp]: "cut n [] = []"
  by (simp add: cut.simps)

lemma cut_step: "xs \<noteq> [] \<Longrightarrow> n > 0 \<Longrightarrow> cut n xs = take n xs # cut n (drop n xs)"
  by (simp add: cut.simps)

lemma concat_cut: "n > 0 \<Longrightarrow> concat (cut n xs) = xs"
  by (induction n xs rule: cut.induct) (subst cut.simps, auto)

lemma length_cut_le: "length xs \<le> m * n \<Longrightarrow> length (cut n xs) \<le> m"
proof (induction m arbitrary: xs)
  case (Suc m)
  then show ?case using Suc.IH [of "drop n xs"] by (subst cut.simps) (auto simp: algebra_simps)
qed simp

lemma cut_append: "length a = n \<Longrightarrow> 0 < n \<Longrightarrow> cut n (a @ b) = a # cut n b"
  by (subst cut_step) auto

lemma cut_short: "xs \<noteq> [] \<Longrightarrow> length xs \<le> n \<Longrightarrow> cut n xs = [xs]"
  by (subst cut_step) (auto simp: neq_Nil_conv)

lemma length_cut: "0 < n \<Longrightarrow> length (cut n xs) = (length xs + n - 1) div n"
proof (induction n xs rule: cut.induct)
  case (1 n xs)
  show ?case
  proof (cases "xs = []")
    case False
    have "length (cut n xs) = Suc ((length xs - n + n - 1) div n)"
      using 1 False by (subst cut.simps) simp
    also have "\<dots> = (length xs + n - 1) div n"
    proof (cases "n \<le> length xs")
      case True
      then have "length xs + n - 1 = (length xs - n + n - 1) + n" using 1(2) by linarith
      then show ?thesis using 1(2) by (metis add_Suc_right div_add_self2 neq0_conv plus_1_eq_Suc add.commute)
    next
      case f: False
      then have "length xs + n - 1 = (length xs - 1) + n" "length xs - 1 < n" using \<open>xs \<noteq> []\<close> by (auto simp: neq_Nil_conv)
      then have "(length xs + n - 1) div n = (length xs - 1) div n + 1" using 1(2) by (metis div_add_self2 neq0_conv)
      then show ?thesis using f 1(2) \<open>length xs - 1 < n\<close> by simp
    qed
    finally show ?thesis .
  qed (use 1(2) in simp)
qed

end
