(* ===== verification/Offload.thy ===== *)
theory Offload
  imports Checksum Go_Slices "HOL-Library.AList"
begin

text \<open>
  \<open>wireguard/tun/offload_linux.go\<close>: generic receive offload merges consecutive packets of a flow
  before they are written to the TUN device, segmentation offload splits a large packet read from
  it. A buffer is its bytes and its capacity. The tables of flows are association lists in the
  order of insertion; Go visits its maps in an unspecified order, and the visits touch different
  buffers. \<open>None\<close> is a panic. The virtio header has the byte order of a little-endian machine.
\<close>

section \<open>Constants\<close>

definition tcpFlagsOffset :: nat where "tcpFlagsOffset = 13"
definition tcpFlagFIN :: byte where "tcpFlagFIN = 0x01"
definition tcpFlagPSH :: byte where "tcpFlagPSH = 0x08"
definition tcpFlagACK :: byte where "tcpFlagACK = 0x10"
definition virtioNetHdrLen :: nat where "virtioNetHdrLen = 10"
definition udphLen :: nat where "udphLen = 8"
definition ipv4FlagMoreFragments :: byte where "ipv4FlagMoreFragments = 0x20"
definition ipv4SrcAddrOffset :: nat where "ipv4SrcAddrOffset = 12"
definition ipv6SrcAddrOffset :: nat where "ipv6SrcAddrOffset = 8"
definition maxUint16 :: nat where "maxUint16 = 65535"
definition IdealBatchSize :: nat where "IdealBatchSize = 128"

text \<open>Constants of the kernel interface (package \<open>unix\<close>).\<close>

definition IPPROTO_TCP :: byte where "IPPROTO_TCP = 6"
definition IPPROTO_UDP :: byte where "IPPROTO_UDP = 17"
definition VIRTIO_NET_HDR_F_NEEDS_CSUM :: byte where "VIRTIO_NET_HDR_F_NEEDS_CSUM = 1"
definition VIRTIO_NET_HDR_GSO_NONE :: byte where "VIRTIO_NET_HDR_GSO_NONE = 0"
definition VIRTIO_NET_HDR_GSO_TCPV4 :: byte where "VIRTIO_NET_HDR_GSO_TCPV4 = 1"
definition VIRTIO_NET_HDR_GSO_TCPV6 :: byte where "VIRTIO_NET_HDR_GSO_TCPV6 = 4"
definition VIRTIO_NET_HDR_GSO_UDP_L4 :: byte where "VIRTIO_NET_HDR_GSO_UDP_L4 = 5"

datatype tun_error =
    ErrShortBuffer
  | ErrInvalidOffset
  | ErrTooManySegments
  | ErrOverflowsBuffer
  | ErrUnsupportedGSOType byte
  | ErrVersionMismatch byte byte
  | ErrInvalidIPVersion byte
  | ErrPacketTooShort
  | ErrTCPHeaderLen u16
  | ErrHdrLenExceedsPacket
  | ErrHdrLenBeforeCsumStart
  | ErrChecksumOffset
  | ErrFile
  | ErrClosed

section \<open>Buffers and the virtio header\<close>

record Buf =
  buf :: bytes
  bcap :: nat

abbreviation blen :: "Buf \<Rightarrow> nat" where
  "blen b \<equiv> length (buf b)"

record virtioNetHdr =
  vh_flags :: byte
  vh_gsoType :: byte
  vh_hdrLen :: u16
  vh_gsoSize :: u16
  vh_csumStart :: u16
  vh_csumOffset :: u16

definition zero_virtioNetHdr :: virtioNetHdr where
  "zero_virtioNetHdr =
     \<lparr>vh_flags = 0, vh_gsoType = 0, vh_hdrLen = 0, vh_gsoSize = 0, vh_csumStart = 0, vh_csumOffset = 0\<rparr>"

definition hdr_decode :: "bytes \<Rightarrow> virtioNetHdr option" where
  "hdr_decode b =
     (if length b < virtioNetHdrLen then None
      else Some
        \<lparr>vh_flags = b ! 0, vh_gsoType = b ! 1, vh_hdrLen = of_nat (le_nat (slice 2 4 b)),
         vh_gsoSize = of_nat (le_nat (slice 4 6 b)), vh_csumStart = of_nat (le_nat (slice 6 8 b)),
         vh_csumOffset = of_nat (le_nat (slice 8 10 b))\<rparr>)"

definition hdr_bytes :: "virtioNetHdr \<Rightarrow> bytes" where
  "hdr_bytes v =
     [vh_flags v, vh_gsoType v] @ le_bytes 2 (unat (vh_hdrLen v)) @ le_bytes 2 (unat (vh_gsoSize v)) @
     le_bytes 2 (unat (vh_csumStart v)) @ le_bytes 2 (unat (vh_csumOffset v))"

text \<open>The encoder writes into the buffer from position \<open>i\<close> on; it fails when the rest is too short.\<close>

definition hdr_encode :: "virtioNetHdr \<Rightarrow> nat \<Rightarrow> bytes \<Rightarrow> bytes option" where
  "hdr_encode v i b = (if length b - i < virtioNetHdrLen then None else Some (put_at i (hdr_bytes v) b))"

section \<open>The table of TCP flows\<close>

record tcpFlowKey =
  tk_srcAddr :: bytes
  tk_dstAddr :: bytes
  tk_srcPort :: u16
  tk_dstPort :: u16
  tk_rxAck :: u32
  tk_isV6 :: bool

record tcpGROItem =
  ti_key :: tcpFlowKey
  ti_sentSeq :: u32
  ti_bufsIndex :: u16
  ti_numMerged :: u16
  ti_gsoSize :: u16
  ti_iphLen :: byte
  ti_tcphLen :: byte
  ti_pshSet :: bool

text \<open>The pool holds empty slices; only their number matters.\<close>

record tcpGROTable =
  tcp_itemsByFlow :: "(tcpFlowKey \<times> tcpGROItem list) list"
  tcp_itemsPool :: nat

definition newTCPGROTable :: tcpGROTable where
  "newTCPGROTable = \<lparr>tcp_itemsByFlow = [], tcp_itemsPool = IdealBatchSize\<rparr>"

text \<open>\<open>copy(key.srcAddr[:], a)\<close> into a zeroed array of 16 bytes.\<close>

definition addr16 :: "bytes \<Rightarrow> bytes" where
  "addr16 a = take 16 a @ replicate (16 - length a) 0"

definition newTCPFlowKey :: "bytes \<Rightarrow> nat \<Rightarrow> nat \<Rightarrow> nat \<Rightarrow> tcpFlowKey option" where
  "newTCPFlowKey pkt srcAddrOffset dstAddrOffset tcphOffset =
     do {
       let addrSize = dstAddrOffset - srcAddrOffset;
       src \<leftarrow> sub srcAddrOffset dstAddrOffset pkt;
       dst \<leftarrow> sub dstAddrOffset (dstAddrOffset + addrSize) pkt;
       sp \<leftarrow> Uint16 pkt tcphOffset;
       dp \<leftarrow> Uint16 pkt (tcphOffset + 2);
       ack \<leftarrow> Uint32 pkt (tcphOffset + 8);
       Some \<lparr>tk_srcAddr = addr16 src, tk_dstAddr = addr16 dst, tk_srcPort = sp, tk_dstPort = dp,
             tk_rxAck = ack, tk_isV6 = (addrSize = 16)\<rparr>
     }"

definition tcp_newItems :: "tcpGROTable \<Rightarrow> (tcpGROItem list \<times> tcpGROTable) option" where
  "tcp_newItems t = (if tcp_itemsPool t = 0 then None else Some ([], t\<lparr>tcp_itemsPool := tcp_itemsPool t - 1\<rparr>))"

definition tcp_insert :: "bytes \<Rightarrow> nat \<Rightarrow> nat \<Rightarrow> nat \<Rightarrow> nat \<Rightarrow> nat \<Rightarrow> tcpGROTable \<Rightarrow> tcpGROTable option" where
  "tcp_insert pkt srcAddrOffset dstAddrOffset tcphOffset tcphLen bufsIndex t =
     do {
       k \<leftarrow> newTCPFlowKey pkt srcAddrOffset dstAddrOffset tcphOffset;
       payload \<leftarrow> from_at (tcphOffset + tcphLen) pkt;
       seq \<leftarrow> Uint32 pkt (tcphOffset + 4);
       flags \<leftarrow> at pkt (tcphOffset + tcpFlagsOffset);
       let item = \<lparr>ti_key = k, ti_sentSeq = seq, ti_bufsIndex = of_nat bufsIndex, ti_numMerged = 0,
         ti_gsoSize = of_nat (length payload), ti_iphLen = of_nat tcphOffset, ti_tcphLen = of_nat tcphLen,
         ti_pshSet = (flags AND tcpFlagPSH \<noteq> 0)\<rparr>;
       (items, t1) \<leftarrow> (case map_of (tcp_itemsByFlow t) k of Some items \<Rightarrow> Some (items, t) | None \<Rightarrow> tcp_newItems t);
       Some (t1\<lparr>tcp_itemsByFlow := AList.update k (items @ [item]) (tcp_itemsByFlow t1)\<rparr>)
     }"

definition tcp_lookupOrInsert ::
  "bytes \<Rightarrow> nat \<Rightarrow> nat \<Rightarrow> nat \<Rightarrow> nat \<Rightarrow> nat \<Rightarrow> tcpGROTable \<Rightarrow> (tcpGROItem list option \<times> tcpGROTable) option" where
  "tcp_lookupOrInsert pkt srcAddrOffset dstAddrOffset tcphOffset tcphLen bufsIndex t =
     do {
       k \<leftarrow> newTCPFlowKey pkt srcAddrOffset dstAddrOffset tcphOffset;
       (case map_of (tcp_itemsByFlow t) k of
          Some items \<Rightarrow> Some (Some items, t)
        | None \<Rightarrow> do {
            t1 \<leftarrow> tcp_insert pkt srcAddrOffset dstAddrOffset tcphOffset tcphLen bufsIndex t;
            Some (None, t1)
          })
     }"

text \<open>A missing key is the nil slice.\<close>

definition tcp_items :: "tcpGROTable \<Rightarrow> tcpFlowKey \<Rightarrow> tcpGROItem list" where
  "tcp_items t k = (case map_of (tcp_itemsByFlow t) k of Some items \<Rightarrow> items | None \<Rightarrow> [])"

definition tcp_updateAt :: "tcpGROItem \<Rightarrow> nat \<Rightarrow> tcpGROTable \<Rightarrow> tcpGROTable option" where
  "tcp_updateAt item i t =
     do {
       items \<leftarrow> set_at i item (tcp_items t (ti_key item));
       Some (t\<lparr>tcp_itemsByFlow := AList.update (ti_key item) items (tcp_itemsByFlow t)\<rparr>)
     }"

definition tcp_deleteAt :: "tcpFlowKey \<Rightarrow> nat \<Rightarrow> tcpGROTable \<Rightarrow> tcpGROTable option" where
  "tcp_deleteAt k i t =
     (let items = tcp_items t k
      in if i < length items
         then Some (t\<lparr>tcp_itemsByFlow := AList.update k (take i items @ drop (Suc i) items) (tcp_itemsByFlow t)\<rparr>)
         else None)"

definition tcp_reset :: "tcpGROTable \<Rightarrow> tcpGROTable" where
  "tcp_reset t = \<lparr>tcp_itemsByFlow = [], tcp_itemsPool = tcp_itemsPool t + length (tcp_itemsByFlow t)\<rparr>"

section \<open>The table of UDP flows\<close>

record udpFlowKey =
  uk_srcAddr :: bytes
  uk_dstAddr :: bytes
  uk_srcPort :: u16
  uk_dstPort :: u16
  uk_isV6 :: bool

record udpGROItem =
  ui_key :: udpFlowKey
  ui_bufsIndex :: u16
  ui_numMerged :: u16
  ui_gsoSize :: u16
  ui_iphLen :: byte
  ui_cSumKnownInvalid :: bool

record udpGROTable =
  udp_itemsByFlow :: "(udpFlowKey \<times> udpGROItem list) list"
  udp_itemsPool :: nat

definition newUDPGROTable :: udpGROTable where
  "newUDPGROTable = \<lparr>udp_itemsByFlow = [], udp_itemsPool = IdealBatchSize\<rparr>"

definition newUDPFlowKey :: "bytes \<Rightarrow> nat \<Rightarrow> nat \<Rightarrow> nat \<Rightarrow> udpFlowKey option" where
  "newUDPFlowKey pkt srcAddrOffset dstAddrOffset udphOffset =
     do {
       let addrSize = dstAddrOffset - srcAddrOffset;
       src \<leftarrow> sub srcAddrOffset dstAddrOffset pkt;
       dst \<leftarrow> sub dstAddrOffset (dstAddrOffset + addrSize) pkt;
       sp \<leftarrow> Uint16 pkt udphOffset;
       dp \<leftarrow> Uint16 pkt (udphOffset + 2);
       Some \<lparr>uk_srcAddr = addr16 src, uk_dstAddr = addr16 dst, uk_srcPort = sp, uk_dstPort = dp,
             uk_isV6 = (addrSize = 16)\<rparr>
     }"

definition udp_newItems :: "udpGROTable \<Rightarrow> (udpGROItem list \<times> udpGROTable) option" where
  "udp_newItems u = (if udp_itemsPool u = 0 then None else Some ([], u\<lparr>udp_itemsPool := udp_itemsPool u - 1\<rparr>))"

definition udp_insert :: "bytes \<Rightarrow> nat \<Rightarrow> nat \<Rightarrow> nat \<Rightarrow> nat \<Rightarrow> bool \<Rightarrow> udpGROTable \<Rightarrow> udpGROTable option" where
  "udp_insert pkt srcAddrOffset dstAddrOffset udphOffset bufsIndex cSumKnownInvalid u =
     do {
       k \<leftarrow> newUDPFlowKey pkt srcAddrOffset dstAddrOffset udphOffset;
       payload \<leftarrow> from_at (udphOffset + udphLen) pkt;
       let item = \<lparr>ui_key = k, ui_bufsIndex = of_nat bufsIndex, ui_numMerged = 0,
         ui_gsoSize = of_nat (length payload), ui_iphLen = of_nat udphOffset,
         ui_cSumKnownInvalid = cSumKnownInvalid\<rparr>;
       (items, u1) \<leftarrow> (case map_of (udp_itemsByFlow u) k of Some items \<Rightarrow> Some (items, u) | None \<Rightarrow> udp_newItems u);
       Some (u1\<lparr>udp_itemsByFlow := AList.update k (items @ [item]) (udp_itemsByFlow u1)\<rparr>)
     }"

definition udp_lookupOrInsert ::
  "bytes \<Rightarrow> nat \<Rightarrow> nat \<Rightarrow> nat \<Rightarrow> nat \<Rightarrow> udpGROTable \<Rightarrow> (udpGROItem list option \<times> udpGROTable) option" where
  "udp_lookupOrInsert pkt srcAddrOffset dstAddrOffset udphOffset bufsIndex u =
     do {
       k \<leftarrow> newUDPFlowKey pkt srcAddrOffset dstAddrOffset udphOffset;
       (case map_of (udp_itemsByFlow u) k of
          Some items \<Rightarrow> Some (Some items, u)
        | None \<Rightarrow> do {
            u1 \<leftarrow> udp_insert pkt srcAddrOffset dstAddrOffset udphOffset bufsIndex False u;
            Some (None, u1)
          })
     }"

definition udp_items :: "udpGROTable \<Rightarrow> udpFlowKey \<Rightarrow> udpGROItem list" where
  "udp_items u k = (case map_of (udp_itemsByFlow u) k of Some items \<Rightarrow> items | None \<Rightarrow> [])"

definition udp_updateAt :: "udpGROItem \<Rightarrow> nat \<Rightarrow> udpGROTable \<Rightarrow> udpGROTable option" where
  "udp_updateAt item i u =
     do {
       items \<leftarrow> set_at i item (udp_items u (ui_key item));
       Some (u\<lparr>udp_itemsByFlow := AList.update (ui_key item) items (udp_itemsByFlow u)\<rparr>)
     }"

definition udp_reset :: "udpGROTable \<Rightarrow> udpGROTable" where
  "udp_reset u = \<lparr>udp_itemsByFlow = [], udp_itemsPool = udp_itemsPool u + length (udp_itemsByFlow u)\<rparr>"

section \<open>Which packets can be merged\<close>

datatype canCoalesce = coalescePrepend | coalesceUnavailable | coalesceAppend

definition ipHeadersCanCoalesce :: "bytes \<Rightarrow> bytes \<Rightarrow> bool" where
  "ipHeadersCanCoalesce pktA pktB =
     (if length pktA < 9 \<or> length pktB < 9 then False
      else if drop_bit 4 (pktA ! 0) = 6 then
        (if pktA ! 0 \<noteq> pktB ! 0 \<or> drop_bit 4 (pktA ! 1) \<noteq> drop_bit 4 (pktB ! 1) then False
         else if pktA ! 7 \<noteq> pktB ! 7 then False
         else True)
      else
        (if pktA ! 1 \<noteq> pktB ! 1 then False
         else if drop_bit 5 (pktA ! 6) \<noteq> drop_bit 5 (pktB ! 6) then False
         else if pktA ! 8 \<noteq> pktB ! 8 then False
         else True))"

text \<open>\<open>bufs[i][offset:]\<close>\<close>

definition pkt_at :: "Buf list \<Rightarrow> nat \<Rightarrow> nat \<Rightarrow> bytes option" where
  "pkt_at bufs i off = do { b \<leftarrow> at bufs i; from_at off (buf b) }"

text \<open>\<open>a % b\<close> on machine integers; a zero divisor panics.\<close>

definition go_mod :: "nat \<Rightarrow> nat \<Rightarrow> nat option" where
  "go_mod a b = (if b = 0 then None else Some (a mod b))"

definition udpPacketsCanCoalesce ::
  "bytes \<Rightarrow> byte \<Rightarrow> u16 \<Rightarrow> udpGROItem \<Rightarrow> Buf list \<Rightarrow> nat \<Rightarrow> canCoalesce option" where
  "udpPacketsCanCoalesce pkt iphLen gsoSize item bufs bufsOffset =
     do {
       pktTarget \<leftarrow> pkt_at bufs (unat (ui_bufsIndex item)) bufsOffset;
       (if \<not> ipHeadersCanCoalesce pkt pktTarget then Some coalesceUnavailable
        else do {
          payload \<leftarrow> from_at (unat (iphLen + of_nat udphLen)) pktTarget;
          m \<leftarrow> go_mod (length payload) (unat (ui_gsoSize item));
          Some (if m \<noteq> 0 then coalesceUnavailable
                else if gsoSize > ui_gsoSize item then coalesceUnavailable
                else coalesceAppend)
        })
     }"

definition same_tcp_options :: "bytes \<Rightarrow> bytes \<Rightarrow> byte \<Rightarrow> byte \<Rightarrow> byte \<Rightarrow> bool option" where
  "same_tcp_options pkt pktTarget iphLen tcphLen itemIphLen =
     (if tcphLen > 20 then do {
        a \<leftarrow> sub (unat (iphLen + 20)) (unat (iphLen + tcphLen)) pkt;
        b \<leftarrow> sub (unat (itemIphLen + 20)) (unat (iphLen + tcphLen)) pktTarget;
        Some (a = b)
      }
      else Some True)"

definition tcpPacketsCanCoalesce ::
  "bytes \<Rightarrow> byte \<Rightarrow> byte \<Rightarrow> u32 \<Rightarrow> bool \<Rightarrow> u16 \<Rightarrow> tcpGROItem \<Rightarrow> Buf list \<Rightarrow> nat \<Rightarrow> canCoalesce option" where
  "tcpPacketsCanCoalesce pkt iphLen tcphLen seq pshSet gsoSize item bufs bufsOffset =
     do {
       pktTarget \<leftarrow> pkt_at bufs (unat (ti_bufsIndex item)) bufsOffset;
       (if tcphLen \<noteq> ti_tcphLen item then Some coalesceUnavailable
        else do {
          same \<leftarrow> same_tcp_options pkt pktTarget iphLen tcphLen (ti_iphLen item);
          (if \<not> same then Some coalesceUnavailable
           else if \<not> ipHeadersCanCoalesce pkt pktTarget then Some coalesceUnavailable
           else
           let lhsLen = ti_gsoSize item + ti_numMerged item * ti_gsoSize item
           in if seq = ti_sentSeq item + ucast lhsLen then
                (if ti_pshSet item then Some coalesceUnavailable
                 else do {
                   payload \<leftarrow> from_at (unat (iphLen + tcphLen)) pktTarget;
                   m \<leftarrow> go_mod (length payload) (unat (ti_gsoSize item));
                   Some (if m \<noteq> 0 then coalesceUnavailable
                         else if gsoSize > ti_gsoSize item then coalesceUnavailable
                         else coalesceAppend)
                 })
              else if seq + ucast gsoSize = ti_sentSeq item then
                Some (if pshSet then coalesceUnavailable
                      else if gsoSize < ti_gsoSize item then coalesceUnavailable
                      else if gsoSize > ti_gsoSize item \<and> ti_numMerged item > 0 then coalesceUnavailable
                      else coalescePrepend)
              else Some coalesceUnavailable)
        })
     }"

definition checksumValid :: "bytes \<Rightarrow> byte \<Rightarrow> byte \<Rightarrow> bool \<Rightarrow> bool option" where
  "checksumValid pkt iphLen proto isV6 =
     do {
       let srcAddrAt = (if isV6 then ipv6SrcAddrOffset else ipv4SrcAddrOffset);
       let addrSize = (if isV6 then 16 else 4);
       let lenForPseudo = (word_of_int (int (length pkt) - uint iphLen) :: u16);
       src \<leftarrow> sub srcAddrAt (srcAddrAt + addrSize) pkt;
       dst \<leftarrow> sub (srcAddrAt + addrSize) (srcAddrAt + addrSize * 2) pkt;
       let cSum = pseudoHeaderChecksumNoFold proto src dst lenForPseudo;
       seg \<leftarrow> from_at (unat iphLen) pkt;
       Some (NOT (checksum seg cSum) = 0)
     }"

section \<open>Merging two packets\<close>

datatype coalesceResult =
  coalesceInsufficientCap | coalescePSHEnding | coalesceItemInvalidCSum | coalescePktInvalidCSum | coalesceSuccess

text \<open>
  \<open>append(b, make([]byte, n)...)\<close> within the capacity, followed by a copy to position \<open>i\<close>. A
  negative \<open>n\<close> panics.
\<close>

definition extend_copy :: "int \<Rightarrow> nat \<Rightarrow> bytes \<Rightarrow> Buf \<Rightarrow> Buf option" where
  "extend_copy n i src b =
     (if n < 0 then None
      else do {
        d \<leftarrow> copy_at i src (buf b @ replicate (nat n) 0);
        Some (b\<lparr>buf := d\<rparr>)
      })"

definition coalesceUDPPackets ::
  "bytes \<Rightarrow> udpGROItem \<Rightarrow> Buf list \<Rightarrow> nat \<Rightarrow> bool \<Rightarrow> (coalesceResult \<times> udpGROItem \<times> Buf list) option" where
  "coalesceUDPPackets pkt item bufs bufsOffset isV6 =
     do {
       let ix = unat (ui_bufsIndex item);
       b \<leftarrow> at bufs ix;
       pktHead \<leftarrow> from_at bufsOffset (buf b);
       let headersLen = ui_iphLen item + of_nat udphLen;
       let coalescedLen = int (length pktHead) + int (length pkt) - uint headersLen;
       (if int (bcap b) - int bufsOffset - int bufsOffset < coalescedLen then
          Some (coalesceInsufficientCap, item, bufs)
        else do {
          headOk \<leftarrow> (if ui_numMerged item = 0 then
                       (if ui_cSumKnownInvalid item then Some False
                        else checksumValid pktHead (ui_iphLen item) IPPROTO_UDP isV6)
                     else Some True);
          (if \<not> headOk then Some (coalesceItemInvalidCSum, item, bufs)
           else do {
             pktOk \<leftarrow> checksumValid pkt (ui_iphLen item) IPPROTO_UDP isV6;
             (if \<not> pktOk then Some (coalescePktInvalidCSum, item, bufs)
              else do {
                let extendBy = int (length pkt) - uint headersLen;
                payload \<leftarrow> from_at (unat headersLen) pkt;
                b' \<leftarrow> extend_copy extendBy (bufsOffset + length pktHead) payload b;
                Some (coalesceSuccess, item\<lparr>ui_numMerged := ui_numMerged item + 1\<rparr>, bufs[ix := b'])
              })
           })
        })
     }"

text \<open>The two directions of \<open>coalesceTCPPackets\<close>, up to the update of the counters.\<close>

definition coalesce_prepend ::
  "bytes \<Rightarrow> nat \<Rightarrow> u32 \<Rightarrow> bool \<Rightarrow> tcpGROItem \<Rightarrow> Buf list \<Rightarrow> nat \<Rightarrow> bool \<Rightarrow>
   (coalesceResult \<times> tcpGROItem \<times> Buf list) option" where
  "coalesce_prepend pkt pktBuffsIndex seq pshSet item bufs bufsOffset isV6 =
     do {
       let ix = unat (ti_bufsIndex item);
       b \<leftarrow> at bufs ix;
       target \<leftarrow> from_at bufsOffset (buf b);
       pb \<leftarrow> at bufs pktBuffsIndex;
       let headersLen = ti_iphLen item + ti_tcphLen item;
       let coalescedLen = int (length target) + int (length pkt) - uint headersLen;
       (if int (bcap pb) - int bufsOffset - int bufsOffset < coalescedLen then
          Some (coalesceInsufficientCap, item, bufs)
        else if pshSet then Some (coalescePSHEnding, item, bufs)
        else do {
          itemOk \<leftarrow> (if ti_numMerged item = 0 then checksumValid target (ti_iphLen item) IPPROTO_TCP isV6 else Some True);
          (if \<not> itemOk then Some (coalesceItemInvalidCSum, item, bufs)
           else do {
             pktOk \<leftarrow> checksumValid pkt (ti_iphLen item) IPPROTO_TCP isV6;
             (if \<not> pktOk then Some (coalescePktInvalidCSum, item, bufs)
              else do {
                let extendBy = coalescedLen - int (length pkt);
                payload \<leftarrow> from_at (bufsOffset + unat headersLen) (buf b);
                pb' \<leftarrow> extend_copy extendBy (bufsOffset + length pkt) payload pb;
                Some (coalesceSuccess, item\<lparr>ti_sentSeq := seq\<rparr>, bufs[pktBuffsIndex := b, ix := pb'])
              })
           })
        })
     }"

definition coalesce_append ::
  "bytes \<Rightarrow> bool \<Rightarrow> tcpGROItem \<Rightarrow> Buf list \<Rightarrow> nat \<Rightarrow> bool \<Rightarrow> (coalesceResult \<times> tcpGROItem \<times> Buf list) option" where
  "coalesce_append pkt pshSet item bufs bufsOffset isV6 =
     do {
       let ix = unat (ti_bufsIndex item);
       b \<leftarrow> at bufs ix;
       pktHead \<leftarrow> from_at bufsOffset (buf b);
       let headersLen = ti_iphLen item + ti_tcphLen item;
       let coalescedLen = int (length pktHead) + int (length pkt) - uint headersLen;
       (if int (bcap b) - int bufsOffset - int bufsOffset < coalescedLen then
          Some (coalesceInsufficientCap, item, bufs)
        else do {
          itemOk \<leftarrow> (if ti_numMerged item = 0 then checksumValid pktHead (ti_iphLen item) IPPROTO_TCP isV6 else Some True);
          (if \<not> itemOk then Some (coalesceItemInvalidCSum, item, bufs)
           else do {
             pktOk \<leftarrow> checksumValid pkt (ti_iphLen item) IPPROTO_TCP isV6;
             (if \<not> pktOk then Some (coalescePktInvalidCSum, item, bufs)
              else do {
                let flagsAt = unat (ti_iphLen item + of_nat tcpFlagsOffset);
                d \<leftarrow> (if pshSet then do {
                         f \<leftarrow> at pktHead flagsAt;
                         set_at (bufsOffset + flagsAt) (f OR tcpFlagPSH) (buf b)
                       }
                       else Some (buf b));
                let extendBy = int (length pkt) - uint headersLen;
                payload \<leftarrow> from_at (unat headersLen) pkt;
                b' \<leftarrow> extend_copy extendBy (bufsOffset + length pktHead) payload (b\<lparr>buf := d\<rparr>);
                Some (coalesceSuccess, (if pshSet then item\<lparr>ti_pshSet := pshSet\<rparr> else item), bufs[ix := b'])
              })
           })
        })
     }"

definition coalesceTCPPackets ::
  "canCoalesce \<Rightarrow> bytes \<Rightarrow> nat \<Rightarrow> u16 \<Rightarrow> u32 \<Rightarrow> bool \<Rightarrow> tcpGROItem \<Rightarrow> Buf list \<Rightarrow> nat \<Rightarrow> bool \<Rightarrow>
   (coalesceResult \<times> tcpGROItem \<times> Buf list) option" where
  "coalesceTCPPackets mode pkt pktBuffsIndex gsoSize seq pshSet item bufs bufsOffset isV6 =
     do {
       (r, item1, bufs1) \<leftarrow>
         (if mode = coalescePrepend then coalesce_prepend pkt pktBuffsIndex seq pshSet item bufs bufsOffset isV6
          else coalesce_append pkt pshSet item bufs bufsOffset isV6);
       (if r \<noteq> coalesceSuccess then Some (r, item1, bufs1)
        else
        let item2 = (if gsoSize > ti_gsoSize item1 then item1\<lparr>ti_gsoSize := gsoSize\<rparr> else item1)
        in Some (coalesceSuccess, item2\<lparr>ti_numMerged := ti_numMerged item2 + 1\<rparr>, bufs1))
     }"

section \<open>Evaluating one packet\<close>

datatype groResult = groResultNoop | groResultTableInsert | groResultCoalesced

text \<open>The loop over the items of the flow, from the last one down.\<close>

fun tcp_scan ::
  "bytes \<Rightarrow> nat \<Rightarrow> nat \<Rightarrow> u32 \<Rightarrow> bool \<Rightarrow> u16 \<Rightarrow> nat \<Rightarrow> nat \<Rightarrow> nat \<Rightarrow> bool \<Rightarrow> tcpGROItem list \<Rightarrow> nat \<Rightarrow> Buf list \<Rightarrow>
   tcpGROTable \<Rightarrow> (groResult \<times> Buf list \<times> tcpGROTable) option" where
  "tcp_scan pkt iphLen tcphLen seq pshSet gsoSize pktI off srcAt isV6 items 0 bufs t =
     do {
       t1 \<leftarrow> tcp_insert pkt srcAt (srcAt + (if isV6 then 16 else 4)) iphLen tcphLen pktI t;
       Some (groResultTableInsert, bufs, t1)
     }"
| "tcp_scan pkt iphLen tcphLen seq pshSet gsoSize pktI off srcAt isV6 items (Suc i) bufs t =
     do {
       let item = items ! i;
       can \<leftarrow> tcpPacketsCanCoalesce pkt (of_nat iphLen) (of_nat tcphLen) seq pshSet gsoSize item bufs off;
       (if can = coalesceUnavailable
        then tcp_scan pkt iphLen tcphLen seq pshSet gsoSize pktI off srcAt isV6 items i bufs t
        else do {
          (result, item1, bufs1) \<leftarrow> coalesceTCPPackets can pkt pktI gsoSize seq pshSet item bufs off isV6;
          (case result of
             coalesceSuccess \<Rightarrow> do { t1 \<leftarrow> tcp_updateAt item1 i t; Some (groResultCoalesced, bufs1, t1) }
           | coalesceItemInvalidCSum \<Rightarrow> do {
               t1 \<leftarrow> tcp_deleteAt (ti_key item1) i t;
               tcp_scan pkt iphLen tcphLen seq pshSet gsoSize pktI off srcAt isV6 items i bufs1 t1
             }
           | coalescePktInvalidCSum \<Rightarrow> Some (groResultNoop, bufs1, t)
           | _ \<Rightarrow> tcp_scan pkt iphLen tcphLen seq pshSet gsoSize pktI off srcAt isV6 items i bufs1 t)
        })
     }"

text \<open>
  The checks on the IP header that \<open>tcpGRO\<close> and \<open>udpGRO\<close> share: the header length, or \<open>Some None\<close> when
  the packet is no candidate.
\<close>

definition gro_ip_header :: "bytes \<Rightarrow> bool \<Rightarrow> nat option option" where
  "gro_ip_header pkt isV6 =
     (if length pkt > maxUint16 then Some None
      else do {
        b0 \<leftarrow> at pkt 0;
        let iphLen = (if isV6 then 40 else unat ((b0 AND 0x0F) * 4));
        field \<leftarrow> Uint16 pkt (if isV6 then 4 else 2);
        (if (if isV6 then int (unat field) \<noteq> int (length pkt) - int iphLen else unat field \<noteq> length pkt) then Some None
         else if length pkt < iphLen then Some None
         else Some (Some iphLen))
      })"

definition is_fragment :: "bytes \<Rightarrow> bool option" where
  "is_fragment pkt =
     do {
       b6 \<leftarrow> at pkt 6;
       (if b6 AND ipv4FlagMoreFragments \<noteq> 0 \<or> push_bit 3 b6 \<noteq> 0 then Some True
        else do { b7 \<leftarrow> at pkt 7; Some (b7 \<noteq> 0) })
     }"

definition tcpGRO ::
  "Buf list \<Rightarrow> nat \<Rightarrow> nat \<Rightarrow> tcpGROTable \<Rightarrow> bool \<Rightarrow> (groResult \<times> Buf list \<times> tcpGROTable) option" where
  "tcpGRO bufs off pktI table isV6 =
     do {
       pkt \<leftarrow> pkt_at bufs pktI off;
       ip \<leftarrow> gro_ip_header pkt isV6;
       (case ip of
          None \<Rightarrow> Some (groResultNoop, bufs, table)
        | Some iphLen \<Rightarrow> do {
            b12 \<leftarrow> at pkt (iphLen + 12);
            let tcphLen = unat (drop_bit 4 b12 * 4);
            (if tcphLen < 20 \<or> tcphLen > 60 then Some (groResultNoop, bufs, table)
             else if length pkt < iphLen + tcphLen then Some (groResultNoop, bufs, table)
             else do {
               frag \<leftarrow> (if isV6 then Some False else is_fragment pkt);
               (if frag then Some (groResultNoop, bufs, table)
                else do {
                  tcpFlags \<leftarrow> at pkt (iphLen + tcpFlagsOffset);
                  (if tcpFlags \<noteq> tcpFlagACK \<and> tcpFlags \<noteq> tcpFlagACK OR tcpFlagPSH
                   then Some (groResultNoop, bufs, table)
                   else do {
                     let pshSet = (tcpFlags \<noteq> tcpFlagACK);
                     let gsoSize = (word_of_int (int (length pkt) - int tcphLen - int iphLen) :: u16);
                     (if gsoSize < 1 then Some (groResultNoop, bufs, table)
                      else do {
                        seq \<leftarrow> Uint32 pkt (iphLen + 4);
                        let srcAddrOffset = (if isV6 then ipv6SrcAddrOffset else ipv4SrcAddrOffset);
                        let addrLen = (if isV6 then 16 else 4);
                        (existing, t1) \<leftarrow>
                          tcp_lookupOrInsert pkt srcAddrOffset (srcAddrOffset + addrLen) iphLen tcphLen pktI table;
                        (case existing of
                           None \<Rightarrow> Some (groResultTableInsert, bufs, t1)
                         | Some items \<Rightarrow>
                             tcp_scan pkt iphLen tcphLen seq pshSet gsoSize pktI off srcAddrOffset isV6 items
                               (length items) bufs t1)
                      })
                   })
                })
             })
          })
     }"

definition udpGRO ::
  "Buf list \<Rightarrow> nat \<Rightarrow> nat \<Rightarrow> udpGROTable \<Rightarrow> bool \<Rightarrow> (groResult \<times> Buf list \<times> udpGROTable) option" where
  "udpGRO bufs off pktI table isV6 =
     do {
       pkt \<leftarrow> pkt_at bufs pktI off;
       ip \<leftarrow> gro_ip_header pkt isV6;
       (case ip of
          None \<Rightarrow> Some (groResultNoop, bufs, table)
        | Some iphLen \<Rightarrow>
            if length pkt < iphLen + udphLen then Some (groResultNoop, bufs, table)
            else do {
              frag \<leftarrow> (if isV6 then Some False else is_fragment pkt);
              (if frag then Some (groResultNoop, bufs, table)
               else do {
                 let gsoSize = (word_of_int (int (length pkt) - int udphLen - int iphLen) :: u16);
                 (if gsoSize < 1 then Some (groResultNoop, bufs, table)
                  else do {
                    let srcAddrOffset = (if isV6 then ipv6SrcAddrOffset else ipv4SrcAddrOffset);
                    let addrLen = (if isV6 then 16 else 4);
                    (existing, u1) \<leftarrow> udp_lookupOrInsert pkt srcAddrOffset (srcAddrOffset + addrLen) iphLen pktI table;
                    (case existing of
                       None \<Rightarrow> Some (groResultTableInsert, bufs, u1)
                     | Some items \<Rightarrow>
                         if items = [] then None
                         else do {
                           let item = last items;
                           can \<leftarrow> udpPacketsCanCoalesce pkt (of_nat iphLen) gsoSize item bufs off;
                           (result, item1, bufs1) \<leftarrow>
                             (if can = coalesceAppend then map_option (\<lambda>(r, x, y). (Some r, x, y)) (coalesceUDPPackets pkt item bufs off isV6)
                              else Some (None, item, bufs));
                           (if result = Some coalesceSuccess then do {
                              u2 \<leftarrow> udp_updateAt item1 (length items - 1) u1;
                              Some (groResultCoalesced, bufs1, u2)
                            }
                            else do {
                              u2 \<leftarrow> udp_insert pkt srcAddrOffset (srcAddrOffset + addrLen) iphLen pktI
                                      (result = Some coalescePktInvalidCSum) u1;
                              Some (groResultTableInsert, bufs1, u2)
                            })
                         })
                  })
               })
            })
     }"

datatype groCandidateType =
  notGROCandidate | tcp4GROCandidate | tcp6GROCandidate | udp4GROCandidate | udp6GROCandidate

definition packetIsGROCandidate :: "bytes \<Rightarrow> bool \<Rightarrow> groCandidateType" where
  "packetIsGROCandidate b canUDPGRO =
     (if length b < 28 then notGROCandidate
      else if drop_bit 4 (b ! 0) = 4 then
        (if b ! 0 AND 0x0F \<noteq> 5 then notGROCandidate
         else if b ! 9 = IPPROTO_TCP \<and> length b \<ge> 40 then tcp4GROCandidate
         else if b ! 9 = IPPROTO_UDP \<and> canUDPGRO then udp4GROCandidate
         else notGROCandidate)
      else if drop_bit 4 (b ! 0) = 6 then
        (if b ! 6 = IPPROTO_TCP \<and> length b \<ge> 60 then tcp6GROCandidate
         else if b ! 6 = IPPROTO_UDP \<and> length b \<ge> 48 \<and> canUDPGRO then udp6GROCandidate
         else notGROCandidate)
      else notGROCandidate)"

end
