(* ===== verification/Segmentation.thy ===== *)
theory Segmentation
  imports Offload
begin

text \<open>
  The rest of \<open>wireguard/tun/offload_linux.go\<close>: the headers of merged packets, the evaluation of a
  batch, and segmentation; and reading and writing a batch of packets on the TUN file
  (\<open>wireguard/tun/tun_linux.go\<close>). \<open>None\<close> is a panic; errors are values.
\<close>

section \<open>Headers of merged packets\<close>

definition pseudo_sum_at :: "byte \<Rightarrow> bool \<Rightarrow> bytes \<Rightarrow> byte \<Rightarrow> u16 option" where
  "pseudo_sum_at proto isV6 pkt iphLen =
     do {
       let addrLen = (if isV6 then 16 else 4);
       let addrOffset = (if isV6 then ipv6SrcAddrOffset else ipv4SrcAddrOffset);
       src \<leftarrow> sub addrOffset (addrOffset + addrLen) pkt;
       dst \<leftarrow> sub (addrOffset + addrLen) (addrOffset + addrLen * 2) pkt;
       Some (checksum [] (pseudoHeaderChecksumNoFold proto src dst (word_of_int (int (length pkt) - uint iphLen))))
     }"

text \<open>The length field, and for IPv4 the header checksum, of a merged packet.\<close>

definition fix_ip_header :: "bool \<Rightarrow> byte \<Rightarrow> bytes \<Rightarrow> bytes option" where
  "fix_ip_header isV6 iphLen pkt =
     (if isV6 then PutUint16 4 (of_nat (length pkt) - ucast iphLen) pkt
      else do {
        p \<leftarrow> set_at 10 0 pkt;
        p \<leftarrow> set_at 11 0 p;
        p \<leftarrow> PutUint16 2 (of_nat (length p)) p;
        h \<leftarrow> sub 0 (unat iphLen) p;
        PutUint16 10 (NOT (checksum h 0)) p
      })"

text \<open>Replace the bytes of a buffer from \<open>offset\<close> on.\<close>

definition set_pkt :: "nat \<Rightarrow> bytes \<Rightarrow> Buf \<Rightarrow> Buf" where
  "set_pkt off pkt b = b\<lparr>buf := take off (buf b) @ pkt\<rparr>"

text \<open>\<open>offset - virtioNetHdrLen\<close> must not be negative.\<close>

definition write_hdr :: "virtioNetHdr \<Rightarrow> nat \<Rightarrow> Buf \<Rightarrow> (tun_error option \<times> Buf) option" where
  "write_hdr hdr off b =
     (if off < virtioNetHdrLen \<or> blen b < off - virtioNetHdrLen then None
      else Some (case hdr_encode hdr (off - virtioNetHdrLen) (buf b) of
                   None \<Rightarrow> (Some ErrShortBuffer, b)
                 | Some d \<Rightarrow> (None, b\<lparr>buf := d\<rparr>)))"

definition tcp_hdr :: "tcpGROItem \<Rightarrow> virtioNetHdr" where
  "tcp_hdr item =
     \<lparr>vh_flags = VIRTIO_NET_HDR_F_NEEDS_CSUM,
      vh_gsoType = (if tk_isV6 (ti_key item) then VIRTIO_NET_HDR_GSO_TCPV6 else VIRTIO_NET_HDR_GSO_TCPV4),
      vh_hdrLen = ucast (ti_iphLen item + ti_tcphLen item), vh_gsoSize = ti_gsoSize item,
      vh_csumStart = ucast (ti_iphLen item), vh_csumOffset = 16\<rparr>"

definition tcp_account :: "nat \<Rightarrow> tcpGROItem \<Rightarrow> Buf list \<Rightarrow> (tun_error option \<times> Buf list) option" where
  "tcp_account off item bufs =
     do {
       let ix = unat (ti_bufsIndex item);
       b \<leftarrow> at bufs ix;
       (if ti_numMerged item > 0 then do {
          let hdr = tcp_hdr item;
          pkt \<leftarrow> from_at off (buf b);
          pkt1 \<leftarrow> fix_ip_header (tk_isV6 (ti_key item)) (ti_iphLen item) pkt;
          (e, b1) \<leftarrow> write_hdr hdr off (set_pkt off pkt1 b);
          (if e \<noteq> None then Some (e, bufs[ix := b1])
           else do {
               psum \<leftarrow> pseudo_sum_at IPPROTO_TCP (tk_isV6 (ti_key item)) pkt1 (ti_iphLen item);
               pkt2 \<leftarrow> PutUint16 (unat (vh_csumStart hdr + vh_csumOffset hdr)) psum pkt1;
               Some (None, bufs[ix := set_pkt off pkt2 b1])
             })
        }
        else do {
          (e, b1) \<leftarrow> write_hdr zero_virtioNetHdr off b;
          Some (e, bufs[ix := b1])
        })
     }"

definition udp_hdr :: "udpGROItem \<Rightarrow> virtioNetHdr" where
  "udp_hdr item =
     \<lparr>vh_flags = VIRTIO_NET_HDR_F_NEEDS_CSUM, vh_gsoType = VIRTIO_NET_HDR_GSO_UDP_L4,
      vh_hdrLen = ucast (ui_iphLen item + of_nat udphLen), vh_gsoSize = ui_gsoSize item,
      vh_csumStart = ucast (ui_iphLen item), vh_csumOffset = 6\<rparr>"

definition udp_account :: "nat \<Rightarrow> udpGROItem \<Rightarrow> Buf list \<Rightarrow> (tun_error option \<times> Buf list) option" where
  "udp_account off item bufs =
     do {
       let ix = unat (ui_bufsIndex item);
       b \<leftarrow> at bufs ix;
       (if ui_numMerged item > 0 then do {
          let hdr = udp_hdr item;
          pkt \<leftarrow> from_at off (buf b);
          pkt1 \<leftarrow> fix_ip_header (uk_isV6 (ui_key item)) (ui_iphLen item) pkt;
          (e, b1) \<leftarrow> write_hdr hdr off (set_pkt off pkt1 b);
          (if e \<noteq> None then Some (e, bufs[ix := b1])
           else do {
               dgram \<leftarrow> from_at (unat (ui_iphLen item)) pkt1;
               pkt2 \<leftarrow> PutUint16 (unat (ui_iphLen item + 4)) (of_nat (length dgram)) pkt1;
               psum \<leftarrow> pseudo_sum_at IPPROTO_UDP (uk_isV6 (ui_key item)) pkt2 (ui_iphLen item);
               pkt3 \<leftarrow> PutUint16 (unat (vh_csumStart hdr + vh_csumOffset hdr)) psum pkt2;
               Some (None, bufs[ix := set_pkt off pkt3 b1])
             })
        }
        else do {
          (e, b1) \<leftarrow> write_hdr zero_virtioNetHdr off b;
          Some (e, bufs[ix := b1])
        })
     }"

text \<open>The loops stop at the first error.\<close>

fun account_all :: "('i \<Rightarrow> Buf list \<Rightarrow> (tun_error option \<times> Buf list) option) \<Rightarrow> 'i list \<Rightarrow> Buf list \<Rightarrow>
    (tun_error option \<times> Buf list) option" where
  "account_all f [] bufs = Some (None, bufs)"
| "account_all f (x # xs) bufs =
     do {
       (e, bufs1) \<leftarrow> f x bufs;
       (if e \<noteq> None then Some (e, bufs1) else account_all f xs bufs1)
     }"

definition applyTCPCoalesceAccounting :: "Buf list \<Rightarrow> nat \<Rightarrow> tcpGROTable \<Rightarrow> (tun_error option \<times> Buf list) option" where
  "applyTCPCoalesceAccounting bufs off t = account_all (tcp_account off) (concat (map snd (tcp_itemsByFlow t))) bufs"

definition applyUDPCoalesceAccounting :: "Buf list \<Rightarrow> nat \<Rightarrow> udpGROTable \<Rightarrow> (tun_error option \<times> Buf list) option" where
  "applyUDPCoalesceAccounting bufs off u = account_all (udp_account off) (concat (map snd (udp_itemsByFlow u))) bufs"

section \<open>A batch of packets\<close>

record GroState =
  g_bufs :: "Buf list"
  g_tcp :: tcpGROTable
  g_udp :: udpGROTable
  g_toWrite :: "nat list"

definition gro_packet :: "nat \<Rightarrow> bool \<Rightarrow> nat \<Rightarrow> bytes \<Rightarrow> GroState \<Rightarrow> (groResult \<times> GroState) option" where
  "gro_packet off canUDPGRO i pkt s =
     (let tcp = (\<lambda>v6. do { (r, bs, t) \<leftarrow> tcpGRO (g_bufs s) off i (g_tcp s) v6; Some (r, s\<lparr>g_bufs := bs, g_tcp := t\<rparr>) });
          udp = (\<lambda>v6. do { (r, bs, u) \<leftarrow> udpGRO (g_bufs s) off i (g_udp s) v6; Some (r, s\<lparr>g_bufs := bs, g_udp := u\<rparr>) })
      in case packetIsGROCandidate pkt canUDPGRO of
           tcp4GROCandidate \<Rightarrow> tcp False
         | tcp6GROCandidate \<Rightarrow> tcp True
         | udp4GROCandidate \<Rightarrow> udp False
         | udp6GROCandidate \<Rightarrow> udp True
         | notGROCandidate \<Rightarrow> Some (groResultNoop, s))"

text \<open>One round of the loop over the buffers.\<close>

definition gro_round :: "nat \<Rightarrow> bool \<Rightarrow> nat \<Rightarrow> GroState \<Rightarrow> (tun_error option \<times> GroState) option" where
  "gro_round off canUDPGRO i s =
     do {
       b \<leftarrow> at (g_bufs s) i;
       (if off < virtioNetHdrLen \<or> int off > int (blen b) - 1 then Some (Some ErrInvalidOffset, s)
        else do {
          pkt \<leftarrow> from_at off (buf b);
          (result, s1) \<leftarrow> gro_packet off canUDPGRO i pkt s;
          (case result of
             groResultNoop \<Rightarrow> do {
               b1 \<leftarrow> at (g_bufs s1) i;
               (e, b2) \<leftarrow> write_hdr zero_virtioNetHdr off b1;
               let s2 = s1\<lparr>g_bufs := (g_bufs s1)[i := b2]\<rparr>;
               Some (if e \<noteq> None then (e, s2) else (None, s2\<lparr>g_toWrite := g_toWrite s2 @ [i]\<rparr>))
             }
           | groResultTableInsert \<Rightarrow> Some (None, s1\<lparr>g_toWrite := g_toWrite s1 @ [i]\<rparr>)
           | groResultCoalesced \<Rightarrow> Some (None, s1))
        })
     }"

fun gro_rounds :: "nat \<Rightarrow> bool \<Rightarrow> nat list \<Rightarrow> GroState \<Rightarrow> (tun_error option \<times> GroState) option" where
  "gro_rounds off canUDPGRO [] s = Some (None, s)"
| "gro_rounds off canUDPGRO (i # is) s =
     do {
       (e, s1) \<leftarrow> gro_round off canUDPGRO i s;
       (if e \<noteq> None then Some (e, s1) else gro_rounds off canUDPGRO is s1)
     }"

text \<open>The error of the TCP accounting, or else that of the UDP accounting, stands for both.\<close>

definition handleGRO :: "nat \<Rightarrow> bool \<Rightarrow> GroState \<Rightarrow> (tun_error option \<times> GroState) option" where
  "handleGRO off canUDPGRO s =
     do {
       (e, s1) \<leftarrow> gro_rounds off canUDPGRO [0..<length (g_bufs s)] s;
       (if e \<noteq> None then Some (e, s1)
        else do {
          (errTCP, bs1) \<leftarrow> applyTCPCoalesceAccounting (g_bufs s1) off (g_tcp s1);
          (errUDP, bs2) \<leftarrow> applyUDPCoalesceAccounting bs1 off (g_udp s1);
          Some (if errTCP \<noteq> None then errTCP else errUDP, s1\<lparr>g_bufs := bs2\<rparr>)
        })
     }"

section \<open>Segmentation\<close>

text \<open>One segment: written over \<open>out\<close>, which is \<open>outBuffs[i][outOffset:]\<close>.\<close>

definition gso_next_id :: "nat \<Rightarrow> bytes \<Rightarrow> bytes option" where
  "gso_next_id i out = (if i > 0 then do { id \<leftarrow> Uint16 out 4; PutUint16 4 (id + of_nat i) out } else Some out)"

definition gso_ip_header :: "bytes \<Rightarrow> nat \<Rightarrow> bool \<Rightarrow> nat \<Rightarrow> nat \<Rightarrow> bytes \<Rightarrow> bytes option" where
  "gso_ip_header inp iphLen isV6 i totalLen out =
     do {
       h \<leftarrow> sub 0 iphLen inp;
       out \<leftarrow> copy_at 0 h out;
       (if \<not> isV6 then do {
          out \<leftarrow> gso_next_id i out;
          out \<leftarrow> PutUint16 2 (of_nat totalLen) out;
          h \<leftarrow> sub 0 iphLen out;
          PutUint16 10 (NOT (checksum h 0)) out
        }
        else PutUint16 4 (word_of_int (int totalLen - int iphLen)) out)
     }"

definition gso_transport_header :: "bytes \<Rightarrow> virtioNetHdr \<Rightarrow> bool \<Rightarrow> u32 \<Rightarrow> nat \<Rightarrow> bool \<Rightarrow> nat \<Rightarrow> bytes \<Rightarrow> bytes option" where
  "gso_transport_header inp hdr tcp firstTCPSeqNum i lastSegment segmentDataLen out =
     do {
       let cs = unat (vh_csumStart hdr);
       h \<leftarrow> sub cs (unat (vh_hdrLen hdr)) inp;
       _ \<leftarrow> sub cs (unat (vh_hdrLen hdr)) out;
       out \<leftarrow> copy_at cs h out;
       (if tcp then do {
          out \<leftarrow> PutUint32 (unat (vh_csumStart hdr + 4)) (firstTCPSeqNum + ucast (vh_gsoSize hdr * of_nat i)) out;
          (if \<not> lastSegment then do {
             let at' = unat (vh_csumStart hdr + of_nat tcpFlagsOffset);
             f \<leftarrow> at out at';
             set_at at' (f AND NOT (tcpFlagFIN OR tcpFlagPSH)) out
           }
           else Some out)
        }
        else PutUint16 (unat (vh_csumStart hdr + 4)) (of_nat segmentDataLen + (vh_hdrLen hdr - vh_csumStart hdr)) out)
     }"

definition gso_segment :: "bytes \<Rightarrow> virtioNetHdr \<Rightarrow> bool \<Rightarrow> bool \<Rightarrow> u32 \<Rightarrow> nat \<Rightarrow> nat \<Rightarrow> nat \<Rightarrow> bytes \<Rightarrow> bytes option" where
  "gso_segment inp hdr isV6 tcp firstTCPSeqNum i dataAt dataEnd out =
     do {
       let iphLen = unat (vh_csumStart hdr);
       let segmentDataLen = dataEnd - dataAt;
       let totalLen = unat (vh_hdrLen hdr) + segmentDataLen;
       let srcAddrOffset = (if isV6 then ipv6SrcAddrOffset else ipv4SrcAddrOffset);
       let addrLen = (if isV6 then 16 else 4);
       out \<leftarrow> gso_ip_header inp iphLen isV6 i totalLen out;
       out \<leftarrow> gso_transport_header inp hdr tcp firstTCPSeqNum i (dataEnd = length inp) segmentDataLen out;
       payload \<leftarrow> sub dataAt dataEnd inp;
       out \<leftarrow> copy_at (unat (vh_hdrLen hdr)) payload out;
       let lenForPseudo = of_nat (unat (vh_hdrLen hdr - vh_csumStart hdr) + segmentDataLen);
       src \<leftarrow> sub srcAddrOffset (srcAddrOffset + addrLen) inp;
       dst \<leftarrow> sub (srcAddrOffset + addrLen) (srcAddrOffset + addrLen * 2) inp;
       let psum = pseudoHeaderChecksumNoFold (if tcp then IPPROTO_TCP else IPPROTO_UDP) src dst lenForPseudo;
       seg \<leftarrow> sub (unat (vh_csumStart hdr)) totalLen out;
       PutUint16 (unat (vh_csumStart hdr + vh_csumOffset hdr)) (NOT (checksum seg psum)) out
     }"

record SplitState =
  sp_out :: "bytes list"
  sp_sizes :: "int list"

text \<open>
  The loop over the segments; \<open>n\<close> output buffers are left. When they run out, the number returned
  is one less than the number of buffers filled.
\<close>

fun gso_loop ::
  "bytes \<Rightarrow> virtioNetHdr \<Rightarrow> bool \<Rightarrow> bool \<Rightarrow> u32 \<Rightarrow> nat \<Rightarrow> nat \<Rightarrow> nat \<Rightarrow> nat \<Rightarrow> SplitState \<Rightarrow>
   (int \<times> tun_error option \<times> SplitState) option" where
  "gso_loop inp hdr isV6 tcp seq outOffset 0 i dataAt s =
     (if dataAt < length inp then Some (int i - 1, Some ErrTooManySegments, s) else Some (int i, None, s))"
| "gso_loop inp hdr isV6 tcp seq outOffset (Suc n) i dataAt s =
     (if dataAt < length inp then do {
        let dataEnd = (if dataAt + unat (vh_gsoSize hdr) > length inp then length inp else dataAt + unat (vh_gsoSize hdr));
        sizes \<leftarrow> set_at i (int (unat (vh_hdrLen hdr) + (dataEnd - dataAt))) (sp_sizes s);
        b \<leftarrow> at (sp_out s) i;
        out \<leftarrow> from_at outOffset b;
        out' \<leftarrow> gso_segment inp hdr isV6 tcp seq i dataAt dataEnd out;
        gso_loop inp hdr isV6 tcp seq outOffset n (Suc i) (dataAt + unat (vh_gsoSize hdr))
          \<lparr>sp_out = (sp_out s)[i := take outOffset b @ out'], sp_sizes = sizes\<rparr>
      }
      else Some (int i, None, s))"

definition gsoSplit ::
  "bytes \<Rightarrow> virtioNetHdr \<Rightarrow> nat \<Rightarrow> bool \<Rightarrow> SplitState \<Rightarrow> (int \<times> tun_error option \<times> SplitState) option" where
  "gsoSplit inp hdr outOffset isV6 s =
     do {
       inp \<leftarrow> (if isV6 then Some inp else do { x \<leftarrow> set_at 10 0 inp; set_at 11 0 x });
       let transportCsumAt = unat (vh_csumStart hdr + vh_csumOffset hdr);
       inp \<leftarrow> set_at transportCsumAt 0 inp;
       inp \<leftarrow> set_at (transportCsumAt + 1) 0 inp;
       let tcp = (vh_gsoType hdr = VIRTIO_NET_HDR_GSO_TCPV4 \<or> vh_gsoType hdr = VIRTIO_NET_HDR_GSO_TCPV6);
       seq \<leftarrow> (if tcp then Uint32 inp (unat (vh_csumStart hdr + 4)) else Some 0);
       gso_loop inp hdr isV6 tcp seq outOffset (length (sp_out s)) 0 (unat (vh_hdrLen hdr)) s
     }"

definition gsoNoneChecksum :: "bytes \<Rightarrow> u16 \<Rightarrow> u16 \<Rightarrow> bytes option" where
  "gsoNoneChecksum inp cSumStart cSumOffset =
     do {
       let cSumAt = cSumStart + cSumOffset;
       initial \<leftarrow> Uint16 inp (unat cSumAt);
       x \<leftarrow> set_at (unat cSumAt) 0 inp;
       x \<leftarrow> set_at (unat (cSumAt + 1)) 0 x;
       seg \<leftarrow> from_at (unat cSumStart) x;
       PutUint16 (unat cSumAt) (NOT (checksum seg (ucast initial))) x
     }"

section \<open>Reading and writing the TUN file\<close>

text \<open>The transport header length is taken from the packet, not from the header the kernel gives.\<close>

definition virtio_hdrLen :: "bytes \<Rightarrow> virtioNetHdr \<Rightarrow> (tun_error + virtioNetHdr) option" where
  "virtio_hdrLen inp hdr =
     (if vh_gsoType hdr = VIRTIO_NET_HDR_GSO_UDP_L4 then Some (Inr (hdr\<lparr>vh_hdrLen := vh_csumStart hdr + 8\<rparr>))
      else if length inp \<le> unat (vh_csumStart hdr + 12) then Some (Inl ErrPacketTooShort)
      else do {
        b \<leftarrow> at inp (unat (vh_csumStart hdr + 12));
        let tcpHLen = (ucast (drop_bit 4 b * 4) :: u16);
        Some (if tcpHLen < 20 \<or> tcpHLen > 60 then Inl (ErrTCPHeaderLen tcpHLen)
              else Inr (hdr\<lparr>vh_hdrLen := vh_csumStart hdr + tcpHLen\<rparr>))
      })"

definition handleVirtioRead ::
  "bytes \<Rightarrow> nat \<Rightarrow> SplitState \<Rightarrow> (int \<times> tun_error option \<times> SplitState) option" where
  "handleVirtioRead inp off s =
     (case hdr_decode inp of
        None \<Rightarrow> Some (0, Some ErrShortBuffer, s)
      | Some hdr \<Rightarrow>
        let inp = drop virtioNetHdrLen inp;
            ty = vh_gsoType hdr;
            refuse = (\<lambda>e. Some (0, Some e, s))
        in if ty = VIRTIO_NET_HDR_GSO_NONE then do {
             inp \<leftarrow> (if vh_flags hdr AND VIRTIO_NET_HDR_F_NEEDS_CSUM \<noteq> 0
                     then gsoNoneChecksum inp (vh_csumStart hdr) (vh_csumOffset hdr) else Some inp);
             b \<leftarrow> at (sp_out s) 0;
             room \<leftarrow> from_at off b;
             (if length inp > length room then refuse ErrOverflowsBuffer
              else do {
                b' \<leftarrow> copy_at off inp b;
                sizes \<leftarrow> set_at 0 (int (length inp)) (sp_sizes s);
                Some (1, None, \<lparr>sp_out = (sp_out s)[0 := b'], sp_sizes = sizes\<rparr>)
              })
           }
           else if ty \<noteq> VIRTIO_NET_HDR_GSO_TCPV4 \<and> ty \<noteq> VIRTIO_NET_HDR_GSO_TCPV6 \<and> ty \<noteq> VIRTIO_NET_HDR_GSO_UDP_L4
           then refuse (ErrUnsupportedGSOType ty)
           else do {
             b0 \<leftarrow> at inp 0;
             let ipVersion = drop_bit 4 b0;
             (if ipVersion = 4 \<and> ty \<noteq> VIRTIO_NET_HDR_GSO_TCPV4 \<and> ty \<noteq> VIRTIO_NET_HDR_GSO_UDP_L4
                then refuse (ErrVersionMismatch ipVersion ty)
              else if ipVersion = 6 \<and> ty \<noteq> VIRTIO_NET_HDR_GSO_TCPV6 \<and> ty \<noteq> VIRTIO_NET_HDR_GSO_UDP_L4
                then refuse (ErrVersionMismatch ipVersion ty)
              else if ipVersion \<noteq> 4 \<and> ipVersion \<noteq> 6 then refuse (ErrInvalidIPVersion ipVersion)
              else do {
                r \<leftarrow> virtio_hdrLen inp hdr;
                (case r of
                   Inl e \<Rightarrow> refuse e
                 | Inr hdr1 \<Rightarrow>
                     if length inp < unat (vh_hdrLen hdr1) then refuse ErrHdrLenExceedsPacket
                     else if vh_hdrLen hdr1 < vh_csumStart hdr1 then refuse ErrHdrLenBeforeCsumStart
                     else if unat (vh_csumStart hdr1 + vh_csumOffset hdr1) + 1 \<ge> length inp then refuse ErrChecksumOffset
                     else gsoSplit inp hdr1 off (ipVersion = 6) s)
              })
           })"

text \<open>
  The device: its offload flags and its tables. Every write to the file succeeds with the number
  of bytes written, fails, or finds the file closed; \<open>wr\<close> gives the result of each write.
\<close>

datatype file_write = Wrote int | Write_failed | Write_EBADFD

record NativeTun =
  nt_vnetHdr :: bool
  nt_udpGSO :: bool
  nt_tcpGROTable :: tcpGROTable
  nt_udpGROTable :: udpGROTable

fun write_out :: "(bytes \<Rightarrow> file_write) \<Rightarrow> Buf list \<Rightarrow> nat \<Rightarrow> nat list \<Rightarrow> int \<Rightarrow> tun_error option \<Rightarrow>
    (int \<times> tun_error option) option" where
  "write_out wr bufs off [] n errs = Some (n, errs)"
| "write_out wr bufs off (i # is) n errs =
     do {
       p \<leftarrow> pkt_at bufs i off;
       (case wr p of
          Write_EBADFD \<Rightarrow> Some (n, Some ErrClosed)
        | Write_failed \<Rightarrow> write_out wr bufs off is n (Some ErrFile)
        | Wrote k \<Rightarrow> write_out wr bufs off is (n + k) errs)
     }"

definition NativeTun_Write ::
  "(bytes \<Rightarrow> file_write) \<Rightarrow> Buf list \<Rightarrow> nat \<Rightarrow> NativeTun \<Rightarrow> (int \<times> tun_error option \<times> NativeTun) option" where
  "NativeTun_Write wr bufs off tun =
     (let finish = (\<lambda>t u. tun\<lparr>nt_tcpGROTable := tcp_reset t, nt_udpGROTable := udp_reset u\<rparr>)
      in if nt_vnetHdr tun then do {
           (err, s) \<leftarrow> handleGRO off (nt_udpGSO tun)
              \<lparr>g_bufs = bufs, g_tcp = nt_tcpGROTable tun, g_udp = nt_udpGROTable tun, g_toWrite = []\<rparr>;
           (if err \<noteq> None then Some (0, err, finish (g_tcp s) (g_udp s))
            else do {
              (n, e) \<leftarrow> write_out wr (g_bufs s) (off - virtioNetHdrLen) (g_toWrite s) 0 None;
              Some (n, e, finish (g_tcp s) (g_udp s))
            })
         }
         else do {
           (n, e) \<leftarrow> write_out wr bufs off [0..<length bufs] 0 None;
           Some (n, e, finish (nt_tcpGROTable tun) (nt_udpGROTable tun))
         })"

text \<open>What \<open>tunFile.Read\<close> delivers: an error, the file closed, or the bytes it placed.\<close>

datatype file_read = Got bytes | Read_failed | Read_EBADFD

definition readBuff_len :: nat where "readBuff_len = virtioNetHdrLen + 65535"

definition NativeTun_Read ::
  "tun_error option \<Rightarrow> (nat \<Rightarrow> file_read) \<Rightarrow> nat \<Rightarrow> NativeTun \<Rightarrow> SplitState \<Rightarrow>
   (int \<times> tun_error option \<times> SplitState) option" where
  "NativeTun_Read pending rd off tun s =
     (case pending of
        Some err \<Rightarrow> Some (0, Some err, s)
      | None \<Rightarrow> do {
          b \<leftarrow> at (sp_out s) 0;
          room \<leftarrow> from_at off b;
          (case rd (if nt_vnetHdr tun then readBuff_len else length room) of
             Read_EBADFD \<Rightarrow> Some (0, Some ErrClosed, s)
           | Read_failed \<Rightarrow> Some (0, Some ErrFile, s)
           | Got d \<Rightarrow>
               if nt_vnetHdr tun then handleVirtioRead d off s
               else do {
                 b' \<leftarrow> copy_at off d b;
                 sizes \<leftarrow> set_at 0 (int (length d)) (sp_sizes s);
                 Some (1, None, \<lparr>sp_out = (sp_out s)[0 := b'], sp_sizes = sizes\<rparr>)
               })
        })"

end
