(* ===== verification/Segment_Lemmas.thy ===== *)
theory Segment_Lemmas
  imports Segmentation
begin

text \<open>
  Segmentation is correct: the segments carry the payload in order, the lengths and sequence numbers
  are right, and the IPv4 header checksum and the transport checksum of every segment verify.
\<close>

section \<open>Runs of bytes\<close>

lemma slice_whole: "slice i (i + n) xs = take n (drop i xs)"
  by (simp add: slice_def)

lemma slice_eq_take: "j \<le> m \<Longrightarrow> slice i j xs = slice i j (take m xs)"
  by (simp add: slice_def drop_take min_absorb1)

lemma slice_eq_drop: "m \<le> i \<Longrightarrow> slice i j xs = slice (i - m) (j - m) (drop m xs)"
  by (simp add: slice_def)

lemma slice_take_cong: "take m xs = take m ys \<Longrightarrow> j \<le> m \<Longrightarrow> slice i j xs = slice i j ys"
  using slice_eq_take [of j m i xs] slice_eq_take [of j m i ys] by simp

lemma slice_slice: "i + k \<le> j \<Longrightarrow> slice a b (slice i j xs) = take (min (b - a) (j - i - a)) (drop (i + a) xs)"
  by (simp add: slice_def drop_take min.commute add.commute)

lemma take_list_update_other: "n \<le> i \<Longrightarrow> take n (xs[i := v]) = take n xs"
  by (simp add: take_update_cancel)

lemma drop_list_update_other: "i < n \<Longrightarrow> drop n (xs[i := v]) = drop n xs"
  by (simp add: drop_update_cancel)

lemma nth_slice: "k < length (slice a b xs) \<Longrightarrow> slice a b xs ! k = xs ! (a + k)"
  by (cases "a \<le> length xs") (simp_all add: slice_def)

lemma slice_list_update_other:
  assumes "i < a \<or> b \<le> i"
  shows "slice a b (xs[i := v]) = slice a b xs"
proof (rule nth_equalityI)
  fix k assume "k < length (slice a b (xs[i := v]))"
  then show "slice a b (xs[i := v]) ! k = slice a b xs ! k"
    using assms by (auto simp: nth_slice length_slice)
qed (simp add: length_slice)

lemma be_bytes_u16: "of_nat (be_nat (be_bytes 2 (unat (v :: u16)))) = v"
  using unsigned_less [of v, where ?'a = nat] by (simp add: be_nat_be_bytes)

lemma be_bytes_u32: "of_nat (be_nat (be_bytes 4 (unat (v :: u32)))) = v"
  using unsigned_less [of v, where ?'a = nat] by (simp add: be_nat_be_bytes)

lemma Uint16I: "j = i + 2 \<Longrightarrow> j \<le> length b \<Longrightarrow> slice i j b = be_bytes 2 (unat v) \<Longrightarrow> Uint16 b i = Some v"
  by (simp add: Uint16_def be_bytes_u16)

lemma Uint32I: "j = i + 4 \<Longrightarrow> j \<le> length b \<Longrightarrow> slice i j b = be_bytes 4 (unat v) \<Longrightarrow> Uint32 b i = Some v"
  by (simp add: Uint32_def be_bytes_u32)

section \<open>The IP header of a segment\<close>

lemma put_at_checksum_field:
  assumes "i + 2 \<le> n" "n \<le> length b"
  shows "take n (put_at i (be_bytes 2 v) b) = put_at i (be_bytes 2 v) (take n b)"
  using assms by (simp add: put_at_def min_def drop_take)

lemma gso_ip_header_v4:
  assumes "20 \<le> iphLen" "iphLen \<le> length inp" "iphLen \<le> length out" "slice 10 12 inp = [0, 0]" "iphLen < 2 ^ 16"
  shows "\<exists>out'. gso_ip_header inp iphLen False i totalLen out = Some out' \<and> length out' = length out \<and>
    drop iphLen out' = drop iphLen out \<and> NOT (checksum (take iphLen out') 0) = 0 \<and>
    slice 12 20 out' = slice 12 20 inp \<and> slice 2 4 out' = be_bytes 2 (unat (of_nat totalLen :: u16))"
proof -
  define o1 where "o1 = put_at 0 (take iphLen inp) out"
  have l1: "length o1 = length out" using assms by (simp add: o1_def length_put_at)
  have t1: "take iphLen o1 = take iphLen inp" "drop iphLen o1 = drop iphLen out" using assms by (simp_all add: o1_def put_at_def)
  define o2 where "o2 = (if i > 0 then put_at 4 (be_bytes 2 (unat (of_nat (be_nat (slice 4 6 o1)) + (of_nat i :: u16)))) o1 else o1)"
  have l2: "length o2 = length out" using assms l1 by (simp add: o2_def length_put_at)
  have s2: "drop iphLen o2 = drop iphLen out" "slice 10 12 o2 = [0, 0]" "slice 12 20 o2 = slice 12 20 inp"
    using assms l1 t1 slice_put_at_other [of 4 _ o1 10 2] slice_put_at_other [of 4 _ o1 12 8]
      slice_take_cong [OF t1(1), of 12 10] slice_take_cong [OF t1(1), of 20 12]
    by (auto simp: o2_def drop_put_at)
  define o3 where "o3 = put_at 2 (be_bytes 2 (unat (of_nat totalLen :: u16))) o2"
  have l3: "length o3 = length out" using assms l2 by (simp add: o3_def length_put_at)
  have s3: "drop iphLen o3 = drop iphLen out" "slice 10 12 o3 = [0, 0]" "slice 12 20 o3 = slice 12 20 inp"
    "slice 2 4 o3 = be_bytes 2 (unat (of_nat totalLen :: u16))"
    using assms l2 s2 slice_put_at_other [of 2 _ o2 10 2] slice_put_at_other [of 2 _ o2 12 8]
      slice_put_at [of 2 "be_bytes 2 (unat (of_nat totalLen :: u16))" o2]
    by (simp_all add: o3_def drop_put_at)
  let ?c = "NOT (checksum (take iphLen o3) 0)"
  define o4 where "o4 = put_at 10 (be_bytes 2 (unat ?c)) o3"
  have e2: "gso_next_id i o1 = Some o2" using assms l1 by (simp add: gso_next_id_def o2_def slice_total)
  have r: "gso_ip_header inp iphLen False i totalLen out = Some o4"
    using assms l1 l2 l3
    by (simp add: gso_ip_header_def slice_total slice_take o1_def [symmetric] e2 o3_def [symmetric] o4_def)
  have "slice 10 12 (take iphLen o3) = [0, 0]" using s3(2) slice_eq_take [of 12 iphLen 10 o3] assms by simp
  then have "NOT (checksum (take iphLen o4) 0) = 0"
    using checksum_fill [of 10 "take iphLen o3" 0] assms l3 put_at_checksum_field [of 10 iphLen o3] by (simp add: o4_def)
  moreover have "drop iphLen o4 = drop iphLen out" using assms l3 s3 by (simp add: o4_def drop_put_at)
  moreover have "slice 12 20 o4 = slice 12 20 inp" "slice 2 4 o4 = be_bytes 2 (unat (of_nat totalLen :: u16))"
    using assms l3 s3 slice_put_at_other [of 10 _ o3 12 8] slice_put_at_other [of 10 _ o3 2 2] by (simp_all add: o4_def)
  ultimately show ?thesis using r l3 assms by (simp add: o4_def length_put_at)
qed

lemma gso_ip_header_v6:
  assumes "40 \<le> iphLen" "iphLen \<le> length inp" "iphLen \<le> length out"
  shows "\<exists>out'. gso_ip_header inp iphLen True i totalLen out = Some out' \<and> length out' = length out \<and>
    drop iphLen out' = drop iphLen out \<and> slice 8 40 out' = slice 8 40 inp \<and>
    slice 4 6 out' = be_bytes 2 (unat (word_of_int (int totalLen - int iphLen) :: u16))"
proof -
  define o1 where "o1 = put_at 0 (take iphLen inp) out"
  have l1: "length o1 = length out" using assms by (simp add: o1_def length_put_at)
  have t1: "take iphLen o1 = take iphLen inp" "drop iphLen o1 = drop iphLen out" using assms by (simp_all add: o1_def put_at_def)
  define o2 where "o2 = put_at 4 (be_bytes 2 (unat (word_of_int (int totalLen - int iphLen) :: u16))) o1"
  have r: "gso_ip_header inp iphLen True i totalLen out = Some o2"
    using assms l1 by (simp add: gso_ip_header_def slice_total slice_take o1_def [symmetric] o2_def)
  show ?thesis using r assms l1 t1 slice_put_at_other [of 4 _ o1 8 32] slice_take_cong [OF t1(1), of 40 8]
      slice_put_at [of 4 "be_bytes 2 (unat (word_of_int (int totalLen - int iphLen) :: u16))" o1]
    by (simp add: o2_def length_put_at drop_put_at)
qed

section \<open>The transport header of a segment\<close>

text \<open>The header \<open>handleVirtioRead\<close> passes on: fields in range, and the checksum field where TCP or UDP has it.\<close>

definition gso_hdr_ok :: "virtioNetHdr \<Rightarrow> bool \<Rightarrow> bool \<Rightarrow> nat \<Rightarrow> bool" where
  "gso_hdr_ok hdr isV6 tcp n =
     (let cs = unat (vh_csumStart hdr); hl = unat (vh_hdrLen hdr)
      in (if isV6 then 40 else 20) \<le> cs \<and> cs < 256 \<and> hl \<le> n \<and> n \<le> 65535 \<and> vh_gsoSize hdr > 0 \<and>
         (if tcp then cs + 20 \<le> hl \<and> vh_csumOffset hdr = 16 else hl = cs + 8 \<and> vh_csumOffset hdr = 6))"

lemma unat_csum: "unat (v :: u16) + k < 65536 \<Longrightarrow> unat (v + of_nat k) = unat v + k"
  by (simp add: unat_word_ariths unat_of_nat)

lemma gso_transport_tcp:
  assumes "gso_hdr_ok hdr isV6 True (length inp)" "unat (vh_hdrLen hdr) \<le> length out"
    "slice (unat (vh_csumStart hdr) + 16) (unat (vh_csumStart hdr) + 18) inp = [0, 0]"
  shows "\<exists>out'. gso_transport_header inp hdr True seq i lst sl out = Some out' \<and> length out' = length out \<and>
    take (unat (vh_csumStart hdr)) out' = take (unat (vh_csumStart hdr)) out \<and>
    drop (unat (vh_hdrLen hdr)) out' = drop (unat (vh_hdrLen hdr)) out \<and>
    slice (unat (vh_csumStart hdr) + 16) (unat (vh_csumStart hdr) + 18) out' = [0, 0] \<and>
    slice (unat (vh_csumStart hdr) + 4) (unat (vh_csumStart hdr) + 8) out' =
      be_bytes 4 (unat (seq + ucast (vh_gsoSize hdr * of_nat i)))"
proof -
  let ?cs = "unat (vh_csumStart hdr)" and ?hl = "unat (vh_hdrLen hdr)"
  have h: "?cs + 20 \<le> ?hl" "?hl \<le> length inp" "?cs < 256" using assms(1) by (auto simp: gso_hdr_ok_def Let_def split: if_splits)
  have w: "unat (vh_csumStart hdr + 4) = ?cs + 4" "unat (vh_csumStart hdr + of_nat tcpFlagsOffset) = ?cs + 13"
    using unat_csum [of "vh_csumStart hdr" 4] unat_csum [of "vh_csumStart hdr" 13] h(3) by (simp_all add: tcpFlagsOffset_def)
  define o1 where "o1 = put_at ?cs (slice ?cs ?hl inp) out"
  have ls: "length (slice ?cs ?hl inp) = ?hl - ?cs" using h by (simp add: length_slice)
  have l1: "length o1 = length out" using h assms(2) ls by (simp add: o1_def length_put_at)
  have s1: "slice ?cs ?hl o1 = slice ?cs ?hl inp" "take ?cs o1 = take ?cs out" "drop ?hl o1 = drop ?hl out"
    using slice_put_at [of ?cs "slice ?cs ?hl inp" out] h assms(2) ls by (simp_all add: o1_def take_put_at drop_put_at)
  have z1: "slice (?cs + 16) (?cs + 18) o1 = [0, 0]"
  proof -
    have "slice (?cs + 16) (?cs + 18) o1 = slice 16 18 (slice ?cs ?hl o1)" using h by (simp add: slice_def drop_take min_def add.commute)
    also have "\<dots> = slice (?cs + 16) (?cs + 18) inp" unfolding s1(1) using h by (simp add: slice_def drop_take min_def add.commute)
    finally show ?thesis using assms(3) by simp
  qed
  let ?s = "be_bytes 4 (unat (seq + ucast (vh_gsoSize hdr * of_nat i)))"
  define o2 where "o2 = put_at (?cs + 4) ?s o1"
  have l2: "length o2 = length out" using h assms(2) l1 by (simp add: o2_def length_put_at)
  have s2: "slice (?cs + 16) (?cs + 18) o2 = [0, 0]" "take ?cs o2 = take ?cs out" "drop ?hl o2 = drop ?hl out"
    "slice (?cs + 4) (?cs + 8) o2 = ?s"
    using z1 s1 l1 h assms(2) slice_put_at_other [of "?cs + 4" ?s o1 "?cs + 16" 2] slice_put_at [of "?cs + 4" ?s o1]
    by (simp_all add: o2_def take_put_at drop_put_at add.commute)
  define o3 where "o3 = (if lst then o2 else o2[?cs + 13 := o2 ! (?cs + 13) AND NOT (tcpFlagFIN OR tcpFlagPSH)])"
  have r: "gso_transport_header inp hdr True seq i lst sl out = Some o3"
    using h assms(2) l1 l2 ls by (simp add: gso_transport_header_def slice_total w o1_def [symmetric] o2_def [symmetric] o3_def Let_def)
  show ?thesis using r l2 s2 h
    by (auto simp: o3_def take_list_update_other drop_list_update_other slice_list_update_other)
qed

lemma gso_transport_udp:
  assumes "gso_hdr_ok hdr isV6 False (length inp)" "unat (vh_hdrLen hdr) \<le> length out"
    "slice (unat (vh_csumStart hdr) + 6) (unat (vh_csumStart hdr) + 8) inp = [0, 0]"
  shows "\<exists>out'. gso_transport_header inp hdr False seq i lst sl out = Some out' \<and> length out' = length out \<and>
    take (unat (vh_csumStart hdr)) out' = take (unat (vh_csumStart hdr)) out \<and>
    drop (unat (vh_hdrLen hdr)) out' = drop (unat (vh_hdrLen hdr)) out \<and>
    slice (unat (vh_csumStart hdr) + 6) (unat (vh_csumStart hdr) + 8) out' = [0, 0] \<and>
    slice (unat (vh_csumStart hdr) + 4) (unat (vh_csumStart hdr) + 6) out' = be_bytes 2 (unat (of_nat (sl + 8) :: u16))"
proof -
  let ?cs = "unat (vh_csumStart hdr)" and ?hl = "unat (vh_hdrLen hdr)"
  have h: "?hl = ?cs + 8" "?hl \<le> length inp" "?cs < 256" using assms(1) by (auto simp: gso_hdr_ok_def Let_def split: if_splits)
  have w: "unat (vh_csumStart hdr + 4) = ?cs + 4"
    using unat_csum [of "vh_csumStart hdr" 4] h(3) by simp
  have d: "vh_hdrLen hdr - vh_csumStart hdr = 8"
  proof -
    have "vh_hdrLen hdr = vh_csumStart hdr + 8"
      using unat_csum [of "vh_csumStart hdr" 8] h by (simp add: word_unat_eq_iff)
    then show ?thesis by simp
  qed
  define o1 where "o1 = put_at ?cs (slice ?cs ?hl inp) out"
  have o1: "put_at ?cs (slice ?cs (?cs + 8) inp) out = o1" by (simp add: o1_def h(1))
  have ls: "length (slice ?cs ?hl inp) = 8" using h by (simp add: length_slice)
  have l1: "length o1 = length out" using h assms(2) ls by (simp add: o1_def length_put_at)
  have s1: "slice ?cs ?hl o1 = slice ?cs ?hl inp" "take ?cs o1 = take ?cs out" "drop ?hl o1 = drop ?hl out"
    using slice_put_at [of ?cs "slice ?cs ?hl inp" out] h assms(2) ls by (simp_all add: o1_def take_put_at drop_put_at)
  have z1: "slice (?cs + 6) (?cs + 8) o1 = [0, 0]"
  proof -
    have "slice (?cs + 6) (?cs + 8) o1 = slice 6 8 (slice ?cs ?hl o1)" using h by (simp add: slice_def drop_take min_def add.commute)
    also have "\<dots> = slice (?cs + 6) (?cs + 8) inp" unfolding s1(1) using h by (simp add: slice_def drop_take min_def add.commute)
    finally show ?thesis using assms(3) by simp
  qed
  let ?s = "be_bytes 2 (unat (of_nat (sl + 8) :: u16))"
  define o2 where "o2 = put_at (?cs + 4) ?s o1"
  have r: "gso_transport_header inp hdr False seq i lst sl out = Some o2"
    using h assms(2) l1 ls d by (simp add: gso_transport_header_def slice_total w o1 o2_def Let_def)
  show ?thesis
    using r z1 s1 l1 h assms(2) slice_put_at_other [of "?cs + 4" ?s o1 "?cs + 6" 2] slice_put_at [of "?cs + 4" ?s o1]
    by (simp add: o2_def take_put_at drop_put_at length_put_at add.commute)
qed

section \<open>A segment\<close>

definition gso_proto :: "bool \<Rightarrow> byte" where
  "gso_proto tcp = (if tcp then IPPROTO_TCP else IPPROTO_UDP)"

definition csum_off :: "bool \<Rightarrow> nat" where
  "csum_off tcp = (if tcp then 16 else 6)"

text \<open>What a receiver checks of a segment: the length fields, the two checksums and the sequence number.\<close>

definition segment_ok :: "virtioNetHdr \<Rightarrow> bool \<Rightarrow> bool \<Rightarrow> u32 \<Rightarrow> bytes \<Rightarrow> bool" where
  "segment_ok hdr isV6 tcp seq seg =
     (let cs = unat (vh_csumStart hdr)
      in checksumValid seg (of_nat cs) (gso_proto tcp) isV6 = Some True \<and>
         (if isV6 then Uint16 seg 4 = Some (of_nat (length seg - cs))
          else Uint16 seg 2 = Some (of_nat (length seg)) \<and> NOT (checksum (take cs seg) 0) = 0) \<and>
         (if tcp then Uint32 seg (cs + 4) = Some seq else Uint16 seg (cs + 4) = Some (of_nat (length seg - cs))))"

abbreviation src_at :: "bool \<Rightarrow> nat" where
  "src_at isV6 \<equiv> (if isV6 then ipv6SrcAddrOffset else ipv4SrcAddrOffset)"

abbreviation alen :: "bool \<Rightarrow> nat" where
  "alen isV6 \<equiv> (if isV6 then 16 else 4)"

lemma gso_ip_header_ok:
  assumes "gso_hdr_ok hdr isV6 tcp (length inp)" "unat (vh_hdrLen hdr) \<le> length out" "\<not> isV6 \<longrightarrow> slice 10 12 inp = [0, 0]"
    and cs: "cs = unat (vh_csumStart hdr)"
  shows "\<exists>out'. gso_ip_header inp cs isV6 i totalLen out = Some out' \<and> length out' = length out \<and>
    slice (src_at isV6) (src_at isV6 + 2 * alen isV6) out' = slice (src_at isV6) (src_at isV6 + 2 * alen isV6) inp \<and>
    (if isV6 then slice 4 6 out' = be_bytes 2 (unat (word_of_int (int totalLen - int cs) :: u16))
     else NOT (checksum (take cs out') 0) = 0 \<and> slice 2 4 out' = be_bytes 2 (unat (of_nat totalLen :: u16)))"
proof (cases isV6)
  case True
  then show ?thesis using assms gso_ip_header_v6 [of cs inp out i totalLen]
    by (auto simp: gso_hdr_ok_def Let_def ipv6SrcAddrOffset_def split: if_splits)
next
  case False
  then show ?thesis using assms gso_ip_header_v4 [of cs inp out i totalLen]
    by (auto simp: gso_hdr_ok_def Let_def ipv4SrcAddrOffset_def split: if_splits)
qed

lemma gso_transport_ok:
  assumes "gso_hdr_ok hdr isV6 tcp (length inp)" "unat (vh_hdrLen hdr) \<le> length out"
    and cs: "cs = unat (vh_csumStart hdr)"
    and "slice (cs + csum_off tcp) (cs + csum_off tcp + 2) inp = [0, 0]"
  shows "\<exists>out'. gso_transport_header inp hdr tcp seq i lst sl out = Some out' \<and> length out' = length out \<and>
    take cs out' = take cs out \<and> slice (cs + csum_off tcp) (cs + csum_off tcp + 2) out' = [0, 0] \<and>
    (if tcp then slice (cs + 4) (cs + 8) out' = be_bytes 4 (unat (seq + ucast (vh_gsoSize hdr * of_nat i)))
     else slice (cs + 4) (cs + 6) out' = be_bytes 2 (unat (of_nat (sl + 8) :: u16)))"
proof (cases tcp)
  case True
  then show ?thesis using assms gso_transport_tcp [of hdr isV6 inp out seq i lst sl]
    by (fastforce simp: csum_off_def add.commute)
next
  case False
  then show ?thesis using assms gso_transport_udp [of hdr isV6 inp out seq i lst sl]
    by (fastforce simp: csum_off_def add.commute)
qed

lemma gso_hdr_okD:
  assumes "gso_hdr_ok hdr isV6 tcp n"
  shows "unat (vh_csumStart hdr) + csum_off tcp + 2 \<le> unat (vh_hdrLen hdr)" "unat (vh_hdrLen hdr) \<le> n"
    "unat (vh_csumStart hdr) < 256" "n \<le> 65535" "src_at isV6 + 2 * alen isV6 \<le> unat (vh_csumStart hdr)"
    "vh_csumOffset hdr = of_nat (csum_off tcp)" "vh_gsoSize hdr > 0" "\<not> tcp \<Longrightarrow> unat (vh_hdrLen hdr) = unat (vh_csumStart hdr) + 8"
    "tcp \<Longrightarrow> unat (vh_csumStart hdr) + 20 \<le> unat (vh_hdrLen hdr)"
  using assms by (auto simp: gso_hdr_ok_def Let_def csum_off_def ipv6SrcAddrOffset_def ipv4SrcAddrOffset_def split: if_splits)

lemma segment_okI:
  assumes "length seg = n" "cs < 256" "cs + csum_off tcp + 2 \<le> n" "n \<le> 65535" "src_at isV6 + 2 * alen isV6 \<le> cs"
    and "NOT (checksum (drop cs seg) (pseudoHeaderChecksumNoFold (gso_proto tcp) (slice (src_at isV6) (src_at isV6 + alen isV6) seg)
      (slice (src_at isV6 + alen isV6) (src_at isV6 + 2 * alen isV6) seg) (of_nat (n - cs)))) = 0"
    and "if isV6 then slice 4 6 seg = be_bytes 2 (unat (of_nat (n - cs) :: u16))
     else NOT (checksum (take cs seg) 0) = 0 \<and> slice 2 4 seg = be_bytes 2 (unat (of_nat n :: u16))"
    and "if tcp then slice (cs + 4) (cs + 8) seg = be_bytes 4 (unat seq)
     else slice (cs + 4) (cs + 6) seg = be_bytes 2 (unat (of_nat (n - cs) :: u16))"
    and cs: "cs = unat (vh_csumStart hdr)"
  shows "segment_ok hdr isV6 tcp seq seg"
proof -
  have u: "unat (of_nat cs :: byte) = cs" using assms(2) by (simp add: unat_of_nat)
  have "uint (of_nat cs :: byte) = int cs" by (metis of_nat_unat u)
  then have "int n - uint (of_nat cs :: byte) = int (n - cs)" using assms(3) by linarith
  then have "word_of_int (int n - uint (of_nat cs :: byte)) = (of_nat (n - cs) :: u16)" by simp
  then have "checksumValid seg (of_nat cs) (gso_proto tcp) isV6 = Some True"
    using assms(1-6) u unfolding checksumValid_def by (simp add: Let_def sub_Some from_at_Some mult.commute)
  moreover have "if isV6 then Uint16 seg 4 = Some (of_nat (length seg - cs))
      else Uint16 seg 2 = Some (of_nat (length seg)) \<and> NOT (checksum (take cs seg) 0) = 0"
    using assms(1,3,7) Uint16I [of 6 4 seg] Uint16I [of 4 2 seg] by (auto simp: csum_off_def split: if_splits)
  moreover have "if tcp then Uint32 seg (cs + 4) = Some seq else Uint16 seg (cs + 4) = Some (of_nat (length seg - cs))"
    using assms(1,3,8) Uint16I [of "cs + 6" "cs + 4" seg] Uint32I [of "cs + 8" "cs + 4" seg seq]
    by (simp add: csum_off_def split: if_splits)
  ultimately show ?thesis unfolding segment_ok_def Let_def cs [symmetric] by blast
qed

lemma slice_inner: "a \<le> c \<Longrightarrow> d \<le> b \<Longrightarrow> slice c d xs = slice (c - a) (d - a) (slice a b xs)"
  by (simp add: slice_def drop_take min_absorb1 diff_le_mono)

lemma slice_inner_cong: "slice a b xs = slice a b ys \<Longrightarrow> a \<le> c \<Longrightarrow> d \<le> b \<Longrightarrow> slice c d xs = slice c d ys"
  using slice_inner [of a c d b xs] slice_inner [of a c d b ys] by simp

lemma pseudo_room:
  assumes "length src \<le> 16" "length dst \<le> 16" "n \<le> 131072"
  shows "unat (pseudoHeaderChecksumNoFold proto src dst len) + 2 ^ 30 * n < 2 ^ 64"
  using pseudoHeader_oc [of src dst proto len] assms by simp

lemma put_at_inner:
  assumes "cs \<le> i" "i + length v \<le> tn" "tn \<le> length b"
  shows "drop cs (take tn (put_at i v b)) = put_at (i - cs) v (slice cs tn b)"
proof (rule nth_equalityI)
  show "length (drop cs (take tn (put_at i v b))) = length (put_at (i - cs) v (slice cs tn b))"
    using assms by (simp add: length_put_at length_slice)
next
  fix k assume "k < length (drop cs (take tn (put_at i v b)))"
  then have k: "cs + k < tn" using assms by (simp add: length_put_at)
  then have "drop cs (take tn (put_at i v b)) ! k = put_at i v b ! (cs + k)"
    using assms by (simp add: length_put_at)
  also have "\<dots> = (if i \<le> cs + k \<and> cs + k < i + length v then v ! (cs + k - i) else b ! (cs + k))"
    using assms k by (intro nth_put_at) auto
  also have "\<dots> = put_at (i - cs) v (slice cs tn b) ! k"
    using assms k nth_put_at [of "i - cs" v "slice cs tn b" k] by (auto simp: length_slice nth_slice add.commute)
  finally show "drop cs (take tn (put_at i v b)) ! k = put_at (i - cs) v (slice cs tn b) ! k" .
qed

lemma gso_segment_ok:
  assumes ok: "gso_hdr_ok hdr isV6 tcp (length inp)"
    and cs: "cs = unat (vh_csumStart hdr)" and hl: "hl = unat (vh_hdrLen hdr)" and tn: "tn = hl + (dataEnd - dataAt)"
    and zero: "\<not> isV6 \<longrightarrow> slice 10 12 inp = [0, 0]" "slice (cs + csum_off tcp) (cs + csum_off tcp + 2) inp = [0, 0]"
    and rng: "hl \<le> dataAt" "dataAt < dataEnd" "dataEnd \<le> length inp" and room: "tn \<le> length out"
  shows "\<exists>out'. gso_segment inp hdr isV6 tcp seq i dataAt dataEnd out = Some out' \<and> length out' = length out \<and>
    drop hl (take tn out') = slice dataAt dataEnd inp \<and>
    segment_ok hdr isV6 tcp (seq + ucast (vh_gsoSize hdr * of_nat i)) (take tn out')"
proof -
  let ?sl = "dataEnd - dataAt" and ?co = "csum_off tcp" and ?a = "src_at isV6" and ?n = "alen isV6"
  note h = gso_hdr_okD [OF ok, folded cs hl]
  have hlr: "hl \<le> length out" using room tn by simp
  obtain o1 where o1: "gso_ip_header inp cs isV6 i tn out = Some o1" "length o1 = length out"
    "slice ?a (?a + 2 * ?n) o1 = slice ?a (?a + 2 * ?n) inp"
    "if isV6 then slice 4 6 o1 = be_bytes 2 (unat (word_of_int (int tn - int cs) :: u16))
     else NOT (checksum (take cs o1) 0) = 0 \<and> slice 2 4 o1 = be_bytes 2 (unat (of_nat tn :: u16))"
    using gso_ip_header_ok [OF ok _ zero(1) cs, of out i tn] hlr hl by blast
  obtain o2 where o2: "gso_transport_header inp hdr tcp seq i (dataEnd = length inp) ?sl o1 = Some o2" "length o2 = length out"
    "take cs o2 = take cs o1" "slice (cs + ?co) (cs + ?co + 2) o2 = [0, 0]"
    "if tcp then slice (cs + 4) (cs + 8) o2 = be_bytes 4 (unat (seq + ucast (vh_gsoSize hdr * of_nat i)))
     else slice (cs + 4) (cs + 6) o2 = be_bytes 2 (unat (of_nat (?sl + 8) :: u16))"
    using gso_transport_ok [OF ok _ cs zero(2), of o1 seq i "dataEnd = length inp" ?sl] o1(2) hlr hl by metis
  let ?pl = "slice dataAt dataEnd inp"
  have lp: "length ?pl = ?sl" using rng by (simp add: length_slice)
  define o3 where "o3 = put_at hl ?pl o2"
  have l3: "length o3 = length out" using o2(2) room tn lp by (simp add: o3_def length_put_at)
  have t3: "take hl o3 = take hl o2" "slice hl tn o3 = ?pl"
    using o2(2) hlr slice_put_at [of hl ?pl o2] room tn lp by (simp_all add: o3_def take_put_at)
  let ?ps = "pseudoHeaderChecksumNoFold (gso_proto tcp) (slice ?a (?a + ?n) inp) (slice (?a + ?n) (?a + 2 * ?n) inp) (of_nat (tn - cs))"
  let ?v = "be_bytes 2 (unat (NOT (checksum (slice cs tn o3) ?ps)))"
  define o4 where "o4 = put_at (cs + ?co) ?v o3"
  have l4: "length o4 = length out" using h l3 hlr by (simp add: o4_def length_put_at)
  have w: "unat (vh_csumStart hdr + of_nat ?co) = cs + ?co"
    using unat_csum [of "vh_csumStart hdr" ?co] h(3) cs by (simp add: csum_off_def)
  have d: "unat (vh_hdrLen hdr - vh_csumStart hdr) = hl - cs"
    using h(1) unfolding cs hl by (intro unat_sub) (simp add: word_le_nat_alt)
  have r: "gso_segment inp hdr isV6 tcp seq i dataAt dataEnd out = Some o4"
  proof -
    have e: "hl - cs + ?sl = tn - cs" using h(1) tn by simp
    show ?thesis unfolding gso_segment_def
      using o1(1) o2(1) h l3 hlr rng room lp o2(2) w d e
      by (simp add: cs [symmetric] hl [symmetric] tn [symmetric] Let_def sub_Some copy_at_Some o3_def [symmetric] PutUint16_Some o4_def
          gso_proto_def [symmetric] mult.commute del: of_nat_add of_nat_diff)
  qed
  have seg: "drop cs (take tn o4) = put_at ?co ?v (slice cs tn o3)"
    unfolding o4_def using put_at_inner [of cs "cs + ?co" ?v tn o3] h(1) l3 room tn by simp
  have tcs: "take cs o4 = take cs o1" and thl: "take hl o3 = take hl o2"
    using t3(1) o2(3) h(1) l3 hlr take_take [of cs hl o3] take_take [of cs hl o2] by (simp_all add: o4_def take_put_at min_absorb1)
  have low: "slice x y (take tn o4) = slice x y o1" if "y \<le> cs" for x y
    using slice_take_cong [OF tcs that] slice_eq_take [of y tn x o4] that h(1) tn by simp
  have addr: "slice ?a (?a + ?n) (take tn o4) = slice ?a (?a + ?n) inp"
    "slice (?a + ?n) (?a + 2 * ?n) (take tn o4) = slice (?a + ?n) (?a + 2 * ?n) inp"
    using low [of "?a + ?n" ?a] low [of "?a + 2 * ?n" "?a + ?n"] h(5)
      slice_inner_cong [OF o1(3), of ?a "?a + ?n"] slice_inner_cong [OF o1(3), of "?a + ?n" "?a + 2 * ?n"] by simp_all
  have "slice ?co (?co + 2) (slice cs tn o3) = slice (cs + ?co) (cs + ?co + 2) o3"
    using slice_inner [of cs "cs + ?co" "cs + ?co + 2" tn o3] h(1) tn by simp
  also have "\<dots> = [0, 0]" using slice_take_cong [OF thl h(1)] o2(4) by simp
  finally have z: "slice ?co (?co + 2) (slice cs tn o3) = [0, 0]" .
  have tb: "tn - cs \<le> 131072" using h(2,4) rng tn by linarith
  have "length (slice cs tn o3) = tn - cs" using l3 room by (simp add: length_slice)
  moreover have "unat ?ps + 2 ^ 30 * (tn - cs) < 2 ^ 64"
    by (intro pseudo_room tb) (simp_all add: length_slice min_le_iff_disj)
  ultimately have "NOT (checksum (put_at ?co ?v (slice cs tn o3)) ?ps) = 0"
    using z h(1) tn by (intro checksum_fill) (simp_all add: csum_off_def)
  then have sum: "NOT (checksum (drop cs (take tn o4)) ?ps) = 0" unfolding seg .
  have mid: "slice x y (take tn o4) = slice x y o2" if "cs \<le> x" "y \<le> cs + ?co" for x y
  proof -
    have "slice x y (take tn o4) = slice x y o4" using slice_eq_take [of y tn x o4] that h(1) tn by simp
    also have "\<dots> = slice x y o3"
      using slice_take_cong [of "cs + ?co" o4 o3 y x] that h(1) l3 hlr by (simp add: o4_def take_put_at)
    also have "\<dots> = slice x y o2" using slice_take_cong [OF thl, of y x] that h(1) by simp
    finally show ?thesis .
  qed
  have "word_of_int (int tn - int cs) = (of_nat (tn - cs) :: u16)"
  proof -
    have "int tn - int cs = int (tn - cs)" using h(1) tn by linarith
    then show ?thesis by (simp only: of_int_of_nat_eq)
  qed
  then have ip: "if isV6 then slice 4 6 (take tn o4) = be_bytes 2 (unat (of_nat (tn - cs) :: u16))
     else NOT (checksum (take cs (take tn o4)) 0) = 0 \<and> slice 2 4 (take tn o4) = be_bytes 2 (unat (of_nat tn :: u16))"
    using o1(4) low [of 6 4] low [of 4 2] h(5) tcs h(1) tn
    by (auto simp: ipv6SrcAddrOffset_def ipv4SrcAddrOffset_def min_absorb1 split: if_splits)
  have tr: "if tcp then slice (cs + 4) (cs + 8) (take tn o4) = be_bytes 4 (unat (seq + ucast (vh_gsoSize hdr * of_nat i)))
     else slice (cs + 4) (cs + 6) (take tn o4) = be_bytes 2 (unat (of_nat (tn - cs) :: u16))"
  proof (cases tcp)
    case True
    then show ?thesis using o2(5) mid [of "cs + 4" "cs + 8"] by (simp add: csum_off_def)
  next
    case False
    then have "tn - cs = ?sl + 8" using h(8) tn by simp
    then show ?thesis using False o2(5) mid [of "cs + 4" "cs + 6"] by (simp only: if_False) (simp add: csum_off_def)
  qed
  have "segment_ok hdr isV6 tcp (seq + ucast (vh_gsoSize hdr * of_nat i)) (take tn o4)"
  proof (rule segment_okI [OF _ h(3) _ _ h(5) _ ip tr cs])
    show "length (take tn o4) = tn" using l4 room by simp
    show "cs + ?co + 2 \<le> tn" using h(1) tn by linarith
    show "tn \<le> 65535" using tn rng h(4) by linarith
    show "NOT (checksum (drop cs (take tn o4)) (pseudoHeaderChecksumNoFold (gso_proto tcp) (slice ?a (?a + ?n) (take tn o4))
      (slice (?a + ?n) (?a + 2 * ?n) (take tn o4)) (of_nat (tn - cs)))) = 0" unfolding addr by (rule sum)
  qed
  moreover have "drop hl (take tn o4) = ?pl"
  proof -
    have "drop hl (take tn o4) = slice hl tn o4" by (simp add: slice_def drop_take)
    also have "\<dots> = slice hl tn o3"
      using slice_put_at_other [of "cs + ?co" ?v o3 hl ?sl] h(1) l3 hlr tn by (simp add: o4_def)
    finally show ?thesis using t3(2) by simp
  qed
  ultimately show ?thesis using r l4 by blast
qed

section \<open>All segments\<close>

definition seg_of :: "nat \<Rightarrow> SplitState \<Rightarrow> nat \<Rightarrow> bytes" where
  "seg_of off s k = take (nat (sp_sizes s ! k)) (drop off (sp_out s ! k))"

definition split_room :: "virtioNetHdr \<Rightarrow> nat \<Rightarrow> SplitState \<Rightarrow> bool" where
  "split_room hdr off s =
     (length (sp_out s) \<le> length (sp_sizes s) \<and>
      list_all (\<lambda>b. off + unat (vh_hdrLen hdr) + unat (vh_gsoSize hdr) \<le> length b) (sp_out s))"

lemma gso_loop_ok:
  assumes ok: "gso_hdr_ok hdr isV6 tcp (length inp)"
    and cs: "cs = unat (vh_csumStart hdr)" and hl: "hl = unat (vh_hdrLen hdr)" and gs: "gs = unat (vh_gsoSize hdr)"
    and zero: "\<not> isV6 \<longrightarrow> slice 10 12 inp = [0, 0]" "slice (cs + csum_off tcp) (cs + csum_off tcp + 2) inp = [0, 0]"
    and "hl \<le> dataAt" "i + n = length (sp_out s)" "split_room hdr off s"
  shows "\<exists>s'. gso_loop inp hdr isV6 tcp seq off n i dataAt s =
      Some (if length (cut gs (drop dataAt inp)) \<le> n then (int (i + length (cut gs (drop dataAt inp))), None, s')
        else (int (i + n) - 1, Some ErrTooManySegments, s')) \<and>
    length (sp_out s') = length (sp_out s) \<and>
    (\<forall>j<i. seg_of off s' j = seg_of off s j) \<and>
    (\<forall>k<min n (length (cut gs (drop dataAt inp))). drop hl (seg_of off s' (i + k)) = cut gs (drop dataAt inp) ! k \<and>
      segment_ok hdr isV6 tcp (seq + ucast (vh_gsoSize hdr * of_nat (i + k))) (seg_of off s' (i + k)))"
proof -
  have g0: "gs > 0" using gso_hdr_okD(7) [OF ok] gs by (simp add: word_less_nat_alt)
  show ?thesis using assms(7-9)
proof (induction n arbitrary: i dataAt s)
  case 0
  then show ?case using g0 cut_step [of "drop dataAt inp" gs] by (cases "drop dataAt inp = []") auto
next
  case (Suc n)
  show ?case
  proof (cases "dataAt < length inp")
    case False
    then show ?thesis by simp
  next
    case True
    define en where "en = (if dataAt + gs > length inp then length inp else dataAt + gs)"
    have en: "dataAt < en" "en \<le> length inp" "en - dataAt \<le> gs" using True g0 by (auto simp: en_def)
    have i: "i < length (sp_out s)" "i < length (sp_sizes s)" using Suc.prems(2,3) by (auto simp: split_room_def)
    let ?b = "sp_out s ! i" and ?tn = "hl + (en - dataAt)"
    have room: "off + hl + gs \<le> length ?b" using Suc.prems(3) i by (auto simp: split_room_def list_all_length hl gs)
    then have r: "?tn \<le> length (drop off ?b)" using en by simp
    obtain o' where o': "gso_segment inp hdr isV6 tcp seq i dataAt en (drop off ?b) = Some o'" "length o' = length (drop off ?b)"
      "drop hl (take ?tn o') = slice dataAt en inp"
      "segment_ok hdr isV6 tcp (seq + ucast (vh_gsoSize hdr * of_nat i)) (take ?tn o')"
      using gso_segment_ok [OF ok cs hl refl zero Suc.prems(1) en(1,2) r, of seq i] by blast
    define s1 where "s1 = \<lparr>sp_out = (sp_out s)[i := take off ?b @ o'], sp_sizes = (sp_sizes s)[i := int ?tn]\<rparr>"
    have dn: "drop dataAt inp \<noteq> []" using True by simp
    have tk: "take gs (drop dataAt inp) = slice dataAt en inp" using True by (auto simp: en_def slice_def)
    have c: "cut gs (drop dataAt inp) = slice dataAt en inp # cut gs (drop (dataAt + gs) inp)"
      using cut_step [OF dn g0] tk by (simp add: add.commute)
    have room1: "split_room hdr off s1"
      using Suc.prems(3) o'(2) room i by (auto simp: split_room_def s1_def list_all_length nth_list_update)
    have step: "gso_loop inp hdr isV6 tcp seq off (Suc n) i dataAt s = gso_loop inp hdr isV6 tcp seq off n (Suc i) (dataAt + gs) s1"
      unfolding gso_loop.simps Let_def gs [symmetric] hl [symmetric] en_def [symmetric]
      using True i room o'(1) by (simp add: slice_total s1_def)
    have seg1: "seg_of off s1 i = take ?tn o'"
      using i room by (simp add: seg_of_def s1_def nat_add_distrib)
    have old: "seg_of off s1 j = seg_of off s j" if "j < i" for j using that by (simp add: seg_of_def s1_def)
    have len1: "Suc i + n = length (sp_out s1)" "hl \<le> dataAt + gs"
      using Suc.prems(1,2) by (simp_all add: s1_def)
    from Suc.IH [OF len1(2,1) room1] obtain s' where s': "gso_loop inp hdr isV6 tcp seq off n (Suc i) (dataAt + gs) s1 =
        Some (if length (cut gs (drop (dataAt + gs) inp)) \<le> n
          then (int (Suc i + length (cut gs (drop (dataAt + gs) inp))), None, s') else (int (Suc i + n) - 1, Some ErrTooManySegments, s'))" "length (sp_out s') = length (sp_out s1)"
      "\<forall>j<Suc i. seg_of off s' j = seg_of off s1 j"
      "\<forall>k<min n (length (cut gs (drop (dataAt + gs) inp))). drop hl (seg_of off s' (Suc i + k)) = cut gs (drop (dataAt + gs) inp) ! k \<and>
        segment_ok hdr isV6 tcp (seq + ucast (vh_gsoSize hdr * of_nat (Suc i + k))) (seg_of off s' (Suc i + k))"
      by blast
    have all: "drop hl (seg_of off s' (i + k)) = cut gs (drop dataAt inp) ! k \<and>
        segment_ok hdr isV6 tcp (seq + ucast (vh_gsoSize hdr * of_nat (i + k))) (seg_of off s' (i + k))"
      if "k < min (Suc n) (length (cut gs (drop dataAt inp)))" for k
    proof (cases k)
      case 0
      then show ?thesis using s'(3) seg1 o'(3,4) c by simp
    next
      case (Suc j)
      then show ?thesis using s'(4) c that by auto
    qed
    have "length (sp_out s') = length (sp_out s)" using s'(2) by (simp add: s1_def)
    moreover have "\<forall>j<i. seg_of off s' j = seg_of off s j" using s'(3) old by simp
    moreover have "gso_loop inp hdr isV6 tcp seq off (Suc n) i dataAt s =
        Some (if length (cut gs (drop dataAt inp)) \<le> Suc n then (int (i + length (cut gs (drop dataAt inp))), None, s')
          else (int (i + Suc n) - 1, Some ErrTooManySegments, s'))"
      unfolding step s'(1) c by simp
    ultimately show ?thesis using all by blast
  qed
qed
qed

section \<open>Splitting a packet\<close>

definition gso_tcp :: "virtioNetHdr \<Rightarrow> bool" where
  "gso_tcp hdr = (vh_gsoType hdr = VIRTIO_NET_HDR_GSO_TCPV4 \<or> vh_gsoType hdr = VIRTIO_NET_HDR_GSO_TCPV6)"

text \<open>The packet with its checksum fields cleared.\<close>

definition cleared :: "virtioNetHdr \<Rightarrow> bool \<Rightarrow> bytes \<Rightarrow> bytes" where
  "cleared hdr isV6 inp =
     (let c = unat (vh_csumStart hdr + vh_csumOffset hdr); x = (if isV6 then inp else inp[10 := 0, 11 := 0])
      in x[c := 0, c + 1 := 0])"

lemma slice_zero: "i + 2 \<le> length xs \<Longrightarrow> slice i (i + 2) (xs[i := 0, Suc i := 0]) = [0, 0 :: byte]"
  by (intro nth_equalityI) (auto simp: length_slice nth_slice nth_list_update less_Suc_eq numeral_2_eq_2)

lemma slice_zero_keep: "slice i j xs = [0, 0 :: byte] \<Longrightarrow> j = i + 2 \<Longrightarrow> slice i j (xs[k := 0]) = [0, 0]"
proof (cases "k < i \<or> j \<le> k")
  case True
  assume "slice i j xs = [0, 0]"
  then show ?thesis by (simp add: slice_list_update_other [OF True])
next
  case False
  assume a: "slice i j xs = [0, 0]" "j = i + 2"
  have l: "length (slice i j (xs[k := 0])) = 2" using arg_cong [OF a(1), of length] by (simp add: length_slice)
  show ?thesis
  proof (rule nth_equalityI)
    fix n assume "n < length (slice i j (xs[k := 0]))"
    then have n: "n < length (slice i j xs)" by (simp add: length_slice)
    then have "xs ! (i + n) = 0" using nth_slice [OF n] a(1) by (auto simp: less_Suc_eq nth_Cons split: nat.splits)
    moreover have "i + n < length xs" "n < 2" using n a(2) by (auto simp: length_slice)
    ultimately have "xs[k := 0] ! (i + n) = 0" by (cases "k = i + n") auto
    then have "slice i j (xs[k := 0]) ! n = 0" using nth_slice [of n i j "xs[k := 0]"] \<open>n < 2\<close> l by simp
    then show "slice i j (xs[k := 0]) ! n = [0, 0] ! n" using \<open>n < 2\<close> by (auto simp: less_Suc_eq numeral_2_eq_2)
  qed (simp add: l)
qed

lemma cleared_ok:
  assumes ok: "gso_hdr_ok hdr isV6 tcp (length inp)" and cs: "cs = unat (vh_csumStart hdr)"
  shows "length (cleared hdr isV6 inp) = length inp" "\<not> isV6 \<longrightarrow> slice 10 12 (cleared hdr isV6 inp) = [0, 0]"
    "slice (cs + csum_off tcp) (cs + csum_off tcp + 2) (cleared hdr isV6 inp) = [0, 0]"
    "drop (unat (vh_hdrLen hdr)) (cleared hdr isV6 inp) = drop (unat (vh_hdrLen hdr)) inp"
    "slice (cs + 4) (cs + 4 + n) (cleared hdr isV6 inp) = (if n \<le> csum_off tcp - 4 then slice (cs + 4) (cs + 4 + n) inp
      else slice (cs + 4) (cs + 4 + n) (cleared hdr isV6 inp))"
proof -
  note h = gso_hdr_okD [OF ok, folded cs]
  have w: "unat (vh_csumStart hdr + vh_csumOffset hdr) = cs + csum_off tcp"
    using unat_csum [of "vh_csumStart hdr" "csum_off tcp"] h(3,6) cs by (simp add: csum_off_def)
  have c: "cleared hdr isV6 inp = (if isV6 then inp else inp[10 := 0, 11 := 0])[cs + csum_off tcp := 0, Suc (cs + csum_off tcp) := 0]"
    by (simp add: cleared_def w Let_def)
  have l: "12 < cs" "cs + csum_off tcp + 2 \<le> length inp" using h(1,2,5) by (auto simp: ipv6SrcAddrOffset_def ipv4SrcAddrOffset_def split: if_splits)
  show "length (cleared hdr isV6 inp) = length inp" by (simp add: c)
  show "\<not> isV6 \<longrightarrow> slice 10 12 (cleared hdr isV6 inp) = [0, 0]"
    unfolding c using slice_zero [of 10 inp] l by (simp add: slice_zero_keep)
  show "slice (cs + csum_off tcp) (cs + csum_off tcp + 2) (cleared hdr isV6 inp) = [0, 0]"
    unfolding c using l by (intro slice_zero) simp
  show "drop (unat (vh_hdrLen hdr)) (cleared hdr isV6 inp) = drop (unat (vh_hdrLen hdr)) inp"
    unfolding c using h(1) l by (simp add: drop_list_update_other)
  show "slice (cs + 4) (cs + 4 + n) (cleared hdr isV6 inp) = (if n \<le> csum_off tcp - 4 then slice (cs + 4) (cs + 4 + n) inp
      else slice (cs + 4) (cs + 4 + n) (cleared hdr isV6 inp))"
    unfolding c using l by (simp add: slice_list_update_other csum_off_def)
qed

lemma gsoSplit_loop:
  assumes ok: "gso_hdr_ok hdr isV6 (gso_tcp hdr) (length inp)"
    and seq: "if gso_tcp hdr then Uint32 inp (unat (vh_csumStart hdr) + 4) = Some seq else seq = 0"
  shows "gsoSplit inp hdr off isV6 s =
    gso_loop (cleared hdr isV6 inp) hdr isV6 (gso_tcp hdr) seq off (length (sp_out s)) 0 (unat (vh_hdrLen hdr)) s"
proof -
  let ?cs = "unat (vh_csumStart hdr)" and ?c = "unat (vh_csumStart hdr + vh_csumOffset hdr)"
  note h = gso_hdr_okD [OF ok]
  have w: "?c = ?cs + csum_off (gso_tcp hdr)"
    using unat_csum [of "vh_csumStart hdr" "csum_off (gso_tcp hdr)"] h(3,6) by (simp add: csum_off_def)
  have l: "12 < ?cs" "?cs + csum_off (gso_tcp hdr) + 2 \<le> length inp" using h(1,2,5) by (auto simp: ipv6SrcAddrOffset_def ipv4SrcAddrOffset_def split: if_splits)
  define x where "x = (if isV6 then inp else inp[10 := 0, 11 := 0])"
  have x: "(if isV6 then Some inp else do { x \<leftarrow> set_at 10 0 inp; set_at 11 0 x }) = Some x" "length x = length inp"
    using l by (simp_all add: x_def set_at_Some)
  have u: "unat (vh_csumStart hdr + 4) = ?cs + 4" using unat_csum [of "vh_csumStart hdr" 4] h(3) by simp
  have cl: "x[?c := 0, ?c + 1 := 0] = cleared hdr isV6 inp" by (simp add: cleared_def x_def Let_def)
  have c1: "set_at ?c 0 x = Some (x[?c := 0])" using l w x(2) by (intro set_at_Some) linarith
  have c2: "set_at (?c + 1) 0 (x[?c := 0]) = Some (cleared hdr isV6 inp)"
    unfolding cl [symmetric] using l w x(2) by (intro set_at_Some) simp
  have c3: "(if gso_tcp hdr then Uint32 (cleared hdr isV6 inp) (unat (vh_csumStart hdr + 4)) else Some 0) = Some seq"
    using seq cleared_ok(1) [OF ok refl] cleared_ok(5) [OF ok refl, of 4] u by (auto simp: Uint32_def csum_off_def split: if_splits)
  show ?thesis by (simp only: gsoSplit_def x(1) Let_def Option.bind.simps c1 c2 gso_tcp_def [symmetric] c3)
qed

lemma cut_index: "k < length (cut n xs) \<Longrightarrow> k * n < length xs"
proof (induction n xs arbitrary: k rule: cut.induct)
  case (1 n xs)
  show ?case
  proof (cases "xs = [] \<or> n = 0")
    case True
    then show ?thesis using "1.prems" by (auto simp: cut.simps [of n xs])
  next
    case False
    then have c: "cut n xs = take n xs # cut n (drop n xs)" by (simp add: cut.simps [of n xs])
    show ?thesis
    proof (cases k)
      case (Suc j)
      then have "j * n < length (drop n xs)" using "1.IH" [OF False] "1.prems" c by simp
      then show ?thesis using Suc by simp
    qed (use False in simp)
  qed
qed

lemma length_cut_nth: "k < length (cut n xs) \<Longrightarrow> length (cut n xs ! k) \<le> n"
proof (induction n xs arbitrary: k rule: cut.induct)
  case (1 n xs)
  then show ?case by (cases k) (auto simp: cut.simps [of n xs] split: if_splits)
qed

lemma seq_step:
  assumes "k < length (cut (unat (g :: u16)) xs)" "length xs \<le> 65535"
  shows "ucast (g * of_nat k) = (of_nat (k * unat g) :: u32)"
proof -
  have "k * unat g < 65536" using cut_index [OF assms(1)] assms(2) by simp
  then have "unat (g * of_nat k) = k * unat g" by (simp add: unat_word_ariths unat_of_nat mult.commute mod_mult_right_eq)
  then show ?thesis by (metis of_nat_unat)
qed

section \<open>Properties\<close>

text \<open>C27: Given enough output buffers, \<open>gsoSplit\<close> cuts a TCP or UDP packet into segments whose payloads
  are the consecutive pieces of at most \<open>gsoSize\<close> bytes and together are the payload of the packet.
  Every segment has correct length fields, an IPv4 header checksum and a transport checksum that
  verify, and the TCP sequence number of its first byte.\<close>

theorem gsoSplit_segments:
  assumes "gso_hdr_ok hdr isV6 (gso_tcp hdr) (length inp)" "split_room hdr off s"
    and "if gso_tcp hdr then Uint32 inp (unat (vh_csumStart hdr) + 4) = Some seq else seq = 0"
    and "segs = cut (unat (vh_gsoSize hdr)) (drop (unat (vh_hdrLen hdr)) inp)" "length segs \<le> length (sp_out s)"
  shows "concat segs = drop (unat (vh_hdrLen hdr)) inp \<and>
    (\<exists>s'. gsoSplit inp hdr off isV6 s = Some (int (length segs), None, s') \<and>
      (\<forall>k<length segs. drop (unat (vh_hdrLen hdr)) (seg_of off s' k) = segs ! k \<and> length (segs ! k) \<le> unat (vh_gsoSize hdr) \<and>
        segment_ok hdr isV6 (gso_tcp hdr) (seq + of_nat (k * unat (vh_gsoSize hdr))) (seg_of off s' k)))"
proof -
  let ?hl = "unat (vh_hdrLen hdr)" and ?gs = "unat (vh_gsoSize hdr)" and ?x = "cleared hdr isV6 inp"
  note c = cleared_ok [OF assms(1) refl]
  have ok: "gso_hdr_ok hdr isV6 (gso_tcp hdr) (length ?x)" using assms(1) c(1) by simp
  have sg: "cut ?gs (drop ?hl ?x) = segs" unfolding c(4) by (simp add: assms(4))
  obtain s' where s': "gsoSplit inp hdr off isV6 s = Some (int (length segs), None, s')"
    "\<forall>k<length segs. drop ?hl (seg_of off s' k) = segs ! k \<and>
       segment_ok hdr isV6 (gso_tcp hdr) (seq + ucast (vh_gsoSize hdr * of_nat k)) (seg_of off s' k)"
    using gso_loop_ok [OF ok refl refl refl c(2,3) order_refl _ assms(2), of 0 "length (sp_out s)" seq]
      gsoSplit_loop [OF assms(1,3), of off s] assms(5) unfolding sg by auto
  have n: "length (drop ?hl inp) \<le> 65535" using gso_hdr_okD(4) [OF assms(1)] by simp
  have g: "?gs > 0" using gso_hdr_okD(7) [OF assms(1)] by (simp add: word_less_nat_alt)
  have k: "length (segs ! k) \<le> ?gs \<and> ucast (vh_gsoSize hdr * of_nat k) = (of_nat (k * ?gs) :: u32)" if "k < length segs" for k
    using length_cut_nth seq_step [OF _ n] that unfolding assms(4) by blast
  then have "\<forall>k<length segs. drop ?hl (seg_of off s' k) = segs ! k \<and> length (segs ! k) \<le> ?gs \<and>
       segment_ok hdr isV6 (gso_tcp hdr) (seq + of_nat (k * ?gs)) (seg_of off s' k)" using s'(2) by metis
  then show ?thesis using s'(1) concat_cut [OF g, of "drop ?hl inp"] assms(4) by blast
qed


section \<open>An example\<close>

definition example_udp :: bytes where
  "example_udp = [0x45, 0, 0, 31, 0, 1, 0, 0, 64, 17, 0, 0, 10, 0, 0, 1, 10, 0, 0, 2] @
     [0, 7, 0, 9, 0, 11, 0, 0] @ [1, 2, 3]"

definition example_hdr :: virtioNetHdr where
  "example_hdr = \<lparr>vh_flags = 1, vh_gsoType = VIRTIO_NET_HDR_GSO_UDP_L4, vh_hdrLen = 28, vh_gsoSize = 2,
     vh_csumStart = 20, vh_csumOffset = 6\<rparr>"

definition example_room :: "nat \<Rightarrow> SplitState" where
  "example_room n = \<lparr>sp_out = replicate n (replicate 40 0), sp_sizes = replicate n 0\<rparr>"

lemma example_gso:
  "gso_hdr_ok example_hdr False (gso_tcp example_hdr) (length example_udp)" "split_room example_hdr 4 (example_room n)"
  "\<not> gso_tcp example_hdr" "cut (unat (vh_gsoSize example_hdr)) (drop (unat (vh_hdrLen example_hdr)) example_udp) = [[1, 2], [3]]"
  by (simp_all add: gso_hdr_ok_def example_hdr_def example_udp_def gso_tcp_def split_room_def example_room_def Let_def
      VIRTIO_NET_HDR_GSO_UDP_L4_def VIRTIO_NET_HDR_GSO_TCPV4_def VIRTIO_NET_HDR_GSO_TCPV6_def cut.simps list_all_length)

theorem gsoSplit_segments_witness:
  "\<exists>s'. gsoSplit example_udp example_hdr 4 False (example_room 3) = Some (2, None, s') \<and>
     drop 28 (seg_of 4 s' 0) = [1, 2] \<and> drop 28 (seg_of 4 s' 1) = [3] \<and>
     segment_ok example_hdr False False 0 (seg_of 4 s' 0)"
proof -
  have l: "length [[1, 2], [3 :: byte]] \<le> length (sp_out (example_room 3))" by (simp add: example_room_def)
  obtain s' where s': "gsoSplit example_udp example_hdr 4 False (example_room 3) = Some (int (length [[1, 2], [3 :: byte]]), None, s')"
    "\<forall>k<length [[1, 2], [3 :: byte]]. drop (unat (vh_hdrLen example_hdr)) (seg_of 4 s' k) = [[1, 2], [3]] ! k \<and>
       length ([[1, 2], [3 :: byte]] ! k) \<le> unat (vh_gsoSize example_hdr) \<and>
       segment_ok example_hdr False (gso_tcp example_hdr) (0 + of_nat (k * unat (vh_gsoSize example_hdr))) (seg_of 4 s' k)"
    using gsoSplit_segments [OF example_gso(1,2) _ example_gso(4) [symmetric] l, of 0] example_gso(3) by auto
  have hl: "unat (vh_hdrLen example_hdr) = 28" by (simp add: example_hdr_def)
  have 0: "drop 28 (seg_of 4 s' 0) = [1, 2]" "segment_ok example_hdr False False 0 (seg_of 4 s' 0)"
    using s'(2) [rule_format, of 0] example_gso(3) hl by simp_all
  have 1: "drop 28 (seg_of 4 s' 1) = [3]" using s'(2) [rule_format, of 1] hl by simp
  show ?thesis using s'(1) 0 1 by simp
qed


end
