(* ===== verification/Go_Text.thy ===== *)
theory Go_Text
  imports Go_Strings
begin

text \<open>Further functions of the package \<open>strings\<close> on ASCII text.\<close>

definition HasPrefix :: "string \<Rightarrow> string \<Rightarrow> bool" where
  "HasPrefix s p = (take (length p) s = p)"

definition HasSuffix :: "string \<Rightarrow> string \<Rightarrow> bool" where
  "HasSuffix s p = (length p \<le> length s \<and> drop (length s - length p) s = p)"

definition TrimPrefix :: "string \<Rightarrow> string \<Rightarrow> string" where
  "TrimPrefix s p = (if HasPrefix s p then drop (length p) s else s)"

definition TrimSuffix :: "string \<Rightarrow> string \<Rightarrow> string" where
  "TrimSuffix s p = (if HasSuffix s p then take (length s - length p) s else s)"

fun Contains :: "string \<Rightarrow> string \<Rightarrow> bool" where
  "Contains [] p = (p = [])"
| "Contains (c # s) p = (HasPrefix (c # s) p \<or> Contains s p)"

definition lower_char :: "char \<Rightarrow> char" where
  "lower_char c = (let n = of_char c :: nat in if 65 \<le> n \<and> n \<le> 90 then char_of (n + 32) else c)"

definition ToLower :: "string \<Rightarrow> string" where
  "ToLower s = map lower_char s"

definition is_space :: "char \<Rightarrow> bool" where
  "is_space c = (let n = of_char c :: nat in n = 32 \<or> 9 \<le> n \<and> n \<le> 13)"

definition TrimSpace :: "string \<Rightarrow> string" where
  "TrimSpace s = rev (dropWhile is_space (rev (dropWhile is_space s)))"

lemma HasSuffix_append: "HasSuffix (a @ p) p"
  by (simp add: HasSuffix_def)

lemma TrimSuffix_append: "TrimSuffix (a @ p) p = a"
  by (simp add: TrimSuffix_def HasSuffix_append)

lemma HasPrefix_append: "HasPrefix (p @ a) p"
  by (simp add: HasPrefix_def)

lemma TrimPrefix_append: "TrimPrefix (p @ a) p = a"
  by (simp add: TrimPrefix_def HasPrefix_append)

section \<open>Hosts and ports\<close>

text \<open>\<open>net.SplitHostPort\<close>; \<open>None\<close> is an error.\<close>

definition SplitHostPort :: "string \<Rightarrow> (string \<times> string) option" where
  "SplitHostPort s =
     (case last_cut CHR '':'' s of
        None \<Rightarrow> None
      | Some (pre, port) \<Rightarrow>
          if hd s = CHR ''['' then
            (case cut_at CHR '']'' s of
               None \<Rightarrow> None
             | Some (a, _) \<Rightarrow>
                 let host = drop 1 a
                 in if Suc (length a) \<noteq> length pre then None
                    else if CHR ''['' \<in> set (drop 1 s) \<or> CHR '']'' \<in> set (drop (Suc (length a)) s) then None
                    else Some (host, port))
          else if CHR '':'' \<in> set pre \<or> CHR ''['' \<in> set s \<or> CHR '']'' \<in> set s then None
          else Some (pre, port))"

definition JoinHostPort :: "string \<Rightarrow> string \<Rightarrow> string" where
  "JoinHostPort host port =
     (if CHR '':'' \<in> set host then ''['' @ host @ '']:'' @ port else host @ '':'' @ port)"

lemma SplitHostPort_Join:
  assumes "CHR ''['' \<notin> set host" "CHR '']'' \<notin> set host" "CHR '':'' \<notin> set port" "CHR ''['' \<notin> set port" "CHR '']'' \<notin> set port"
  shows "SplitHostPort (JoinHostPort host port) = Some (host, port)"
proof (cases "CHR '':'' \<in> set host")
  case True
  have l: "last_cut CHR '':'' ((CHR ''['' # host @ [CHR '']'']) @ CHR '':'' # port) = Some (CHR ''['' # host @ [CHR '']''], port)"
    by (rule last_cut_append [OF assms(3)])
  have c: "cut_at CHR '']'' ((CHR ''['' # host) @ CHR '']'' # CHR '':'' # port) = Some (CHR ''['' # host, CHR '':'' # port)"
    by (rule cut_at_append) (use assms(2) in simp)
  show ?thesis using True l c assms by (simp add: SplitHostPort_def JoinHostPort_def)
next
  case False
  have l: "last_cut CHR '':'' (host @ CHR '':'' # port) = Some (host, port)" by (rule last_cut_append [OF assms(3)])
  show ?thesis using False l assms by (cases host) (auto simp: SplitHostPort_def JoinHostPort_def)
qed

end
