(* ===== verification/Go_Netip.thy ===== *)
theory Go_Netip
  imports Ip_Bits
begin

text \<open>
  Operations of \<open>net/netip\<close> on addresses without zone, and addresses as numbers: the 16-byte form,
  IPv4-mapped addresses, masking, membership in a prefix and the order of addresses.
\<close>

definition Is4 :: "Addr \<Rightarrow> bool" where
  "Is4 a = (case a of Addr4 _ \<Rightarrow> True | _ \<Rightarrow> False)"

definition Is6 :: "Addr \<Rightarrow> bool" where
  "Is6 a = (case a of Addr6 _ \<Rightarrow> True | _ \<Rightarrow> False)"

definition mapped_prefix :: bytes where
  "mapped_prefix = [0, 0, 0, 0, 0, 0, 0, 0, 0, 0, 255, 255]"

definition As16 :: "Addr \<Rightarrow> bytes" where
  "As16 a = (case a of AddrZero \<Rightarrow> replicate 16 0 | Addr4 b \<Rightarrow> mapped_prefix @ b | Addr6 b \<Rightarrow> b)"

definition Is4In6 :: "Addr \<Rightarrow> bool" where
  "Is4In6 a = (case a of Addr6 b \<Rightarrow> take 12 b = mapped_prefix | _ \<Rightarrow> False)"

definition Unmap :: "Addr \<Rightarrow> Addr" where
  "Unmap a = (if Is4In6 a then Addr4 (drop 12 (AsSlice a)) else a)"

definition BitLen :: "Addr \<Rightarrow> nat" where
  "BitLen a = 8 * length (AsSlice a)"

text \<open>\<open>Compare\<close> orders by family first, then by value.\<close>

definition addr_rank :: "Addr \<Rightarrow> nat" where
  "addr_rank a = (case a of AddrZero \<Rightarrow> 0 | Addr4 b \<Rightarrow> 1 + be_nat b | Addr6 b \<Rightarrow> 1 + 2 ^ 32 + be_nat b)"

definition addr_less :: "Addr \<Rightarrow> Addr \<Rightarrow> bool" where
  "addr_less a b = (addr_rank a < addr_rank b)"

definition Masked :: "Prefix \<Rightarrow> Prefix" where
  "Masked p =
     (let h = BitLen (pAddr p) - pBits p; n = be_nat (AsSlice (pAddr p)) div 2 ^ h * 2 ^ h
      in case pAddr p of
           AddrZero \<Rightarrow> p
         | Addr4 b \<Rightarrow> p\<lparr>pAddr := Addr4 (be_bytes 4 n)\<rparr>
         | Addr6 b \<Rightarrow> p\<lparr>pAddr := Addr6 (be_bytes 16 n)\<rparr>)"

definition Contains_addr :: "Prefix \<Rightarrow> Addr \<Rightarrow> bool" where
  "Contains_addr p a =
     (case (pAddr p, a) of
        (Addr4 b, Addr4 c) \<Rightarrow> be_nat b div 2 ^ (32 - pBits p) = be_nat c div 2 ^ (32 - pBits p)
      | (Addr6 b, Addr6 c) \<Rightarrow> be_nat b div 2 ^ (128 - pBits p) = be_nat c div 2 ^ (128 - pBits p)
      | _ \<Rightarrow> False)"

lemma be_bytes_split: "be_bytes (m + n) v = be_bytes m (v div 256 ^ n) @ be_bytes n v"
  by (induction m) (simp_all add: power_add div_mult2_eq [symmetric] mult.commute)

lemma be_bytes_be_nat_length: "length b = n \<Longrightarrow> be_bytes n (be_nat b) = b"
  using be_bytes_be_nat [of b] by simp

lemma be_nat_bound: "length b = n \<Longrightarrow> be_nat b < 256 ^ n"
  using be_nat_less [of b] by simp

lemma mapped_num: "be_nat mapped_prefix = 65535" "length mapped_prefix = 12"
  by (simp_all add: mapped_prefix_def)

lemma be_bytes_mapped: "be_bytes 12 65535 = mapped_prefix"
  using be_bytes_be_nat_length [OF mapped_num(2)] by (simp add: mapped_num)

text \<open>The address with a given 16-byte number.\<close>

definition addr_at :: "nat \<Rightarrow> Addr" where
  "addr_at n = Unmap (Addr6 (be_bytes 16 n))"

lemma be_bytes_16: "be_bytes 16 n = be_bytes 12 (n div 2 ^ 32) @ be_bytes 4 n"
  using be_bytes_split [of 12 4 n] by simp

lemma addr_at_v4: "n < 2 ^ 32 \<Longrightarrow> addr_at (65535 * 2 ^ 32 + n) = Addr4 (be_bytes 4 n)"
proof -
  assume n: "n < 2 ^ 32"
  have "be_bytes 4 (65535 * 2 ^ 32 + n) = be_bytes 4 n"
    using be_bytes_mod [of 4 "65535 * 2 ^ 32 + n"] be_bytes_mod [of 4 n] mod_mult_self3 [of 65535 "2 ^ 32" n] by simp
  moreover have "(65535 * 2 ^ 32 + n) div 2 ^ 32 = 65535" using n by simp
  ultimately have "be_bytes 16 (65535 * 2 ^ 32 + n) = mapped_prefix @ be_bytes 4 n"
    unfolding be_bytes_16 by (simp only: be_bytes_mapped)
  then show ?thesis by (simp add: addr_at_def Unmap_def Is4In6_def mapped_num)
qed

lemma addr_at_v6: "n < 2 ^ 128 \<Longrightarrow> n div 2 ^ 32 \<noteq> 65535 \<Longrightarrow> addr_at n = Addr6 (be_bytes 16 n)"
proof -
  assume n: "n < 2 ^ 128" "n div 2 ^ 32 \<noteq> 65535"
  have "be_nat (be_bytes 12 (n div 2 ^ 32)) = n div 2 ^ 32"
    using n(1) by (simp add: be_nat_be_bytes less_mult_imp_div_less)
  then have "take 12 (be_bytes 16 n) \<noteq> mapped_prefix" unfolding be_bytes_16 using n(2) mapped_num by (metis append_eq_conv_conj length_be_bytes)
  then show ?thesis by (simp add: addr_at_def Unmap_def Is4In6_def)
qed

lemma addr_at_cases: "\<exists>b. addr_at n = Addr4 b \<and> length b = 4 \<or> addr_at n = Addr6 b \<and> length b = 16"
  by (simp add: addr_at_def Unmap_def)

lemma addr_rank_at: "addr_rank (addr_at n) < 2 ^ 129"
proof -
  obtain b where "addr_at n = Addr4 b \<and> length b = 4 \<or> addr_at n = Addr6 b \<and> length b = 16" using addr_at_cases by blast
  then show ?thesis using be_nat_bound [of b 4] be_nat_bound [of b 16] by (auto simp: addr_rank_def)
qed

end
