(* ===== verification/Bind_Std.thy ===== *)
theory Bind_Std
  imports Device_State Offload Go_Text Go_Netip
begin

text \<open>
  \<open>wireguard/conn/bind_std.go\<close> with \<open>gso_linux.go\<close> and \<open>sticky_linux.go\<close>: the UDP sockets of the device.
  Sockets are numbers; what the operating system answers to a call is a parameter. A control
  buffer is the memory of its capacity and its length. \<open>None\<close> is a panic, or a loop that does not
  return.
\<close>

section \<open>Endpoints\<close>

definition ParseEndpoint :: "string \<Rightarrow> Endpoint option" where
  "ParseEndpoint s = map_option (\<lambda>(a, po). \<lparr>ep_addr = a, ep_port = po, ep_src = []\<rparr>) (ParseAddrPort s)"

section \<open>Control messages\<close>

text \<open>Sizes and numbers of the kernel interface on 64-bit Linux (package \<open>unix\<close>).\<close>

definition SizeofCmsghdr :: nat where "SizeofCmsghdr = 16"
definition SizeofInet4Pktinfo :: nat where "SizeofInet4Pktinfo = 12"
definition SizeofInet6Pktinfo :: nat where "SizeofInet6Pktinfo = 20"
definition CmsgLen :: "nat \<Rightarrow> nat" where "CmsgLen n = SizeofCmsghdr + n"
definition CmsgSpace :: "nat \<Rightarrow> nat" where "CmsgSpace n = SizeofCmsghdr + (n + 7) div 8 * 8"
definition SOL_UDP :: nat where "SOL_UDP = 17"
definition UDP_SEGMENT :: nat where "UDP_SEGMENT = 103"
definition UDP_GRO :: nat where "UDP_GRO = 104"
definition IPPROTO_IP :: nat where "IPPROTO_IP = 0"
definition IP_PKTINFO :: nat where "IP_PKTINFO = 8"
definition IPPROTO_IPV6 :: nat where "IPPROTO_IPV6 = 41"
definition IPV6_PKTINFO :: nat where "IPV6_PKTINFO = 50"

definition sizeOfGSOData :: nat where "sizeOfGSOData = 2"
definition gsoControlSize :: nat where "gsoControlSize = CmsgSpace sizeOfGSOData"
definition stickyControlSize :: nat where "stickyControlSize = CmsgSpace SizeofInet6Pktinfo"

definition cmsghdr :: "nat \<Rightarrow> nat \<Rightarrow> nat \<Rightarrow> bytes" where
  "cmsghdr len level type = le_bytes 8 len @ le_bytes 4 level @ le_bytes 4 type"

record Control =
  c_mem :: bytes
  c_len :: nat

definition control_bytes :: "Control \<Rightarrow> bytes" where
  "control_bytes c = take (c_len c) (c_mem c)"

definition new_control :: Control where
  "new_control = \<lparr>c_mem = replicate (stickyControlSize + gsoControlSize) 0, c_len = 0\<rparr>"

text \<open>A parsed control message: the length, level and type of its header, its data and what follows.\<close>

type_synonym cmsg = "(nat \<times> nat \<times> nat) \<times> bytes \<times> bytes"

text \<open>
  \<open>P\<close> stands for \<open>unix.ParseOneSocketControlMessage\<close>, which gives \<open>None\<close> on an error. The remainder is
  shorter than the input; the loops stop when it is not.
\<close>

function getGSOSize :: "(bytes \<Rightarrow> cmsg option) \<Rightarrow> bytes \<Rightarrow> int option" where
  "getGSOSize P rem =
     (if length rem > SizeofCmsghdr then
        (case P rem of
           None \<Rightarrow> None
         | Some ((len, level, type), data, rest) \<Rightarrow>
             if level = SOL_UDP \<and> type = UDP_GRO \<and> length data \<ge> sizeOfGSOData
             then Some (int (le_nat (take sizeOfGSOData data)))
             else if length rest < length rem then getGSOSize P rest else None)
      else Some 0)"
  by pat_completeness auto
termination
  by (relation "measure (\<lambda>(P, rem). length rem)") auto

declare getGSOSize.simps [simp del]

definition setGSOSize :: "Control \<Rightarrow> u16 \<Rightarrow> Control" where
  "setGSOSize c gsoSize =
     (let avail = length (c_mem c) - c_len c; space = CmsgSpace sizeOfGSOData
      in if avail < space then c
         else
         let m = put_at (c_len c) (cmsghdr (CmsgLen sizeOfGSOData) SOL_UDP UDP_SEGMENT) (c_mem c);
             m = put_at (c_len c + CmsgLen 0) (le_bytes 2 (unat gsoSize)) m
         in \<lparr>c_mem = m, c_len = c_len c + space\<rparr>)"

definition setSrcControl :: "Control \<Rightarrow> Endpoint \<Rightarrow> Control" where
  "setSrcControl c ep =
     (if length (c_mem c) < length (ep_src ep) then c
      else \<lparr>c_mem = put_at 0 (ep_src ep) (c_mem c), c_len = length (ep_src ep)\<rparr>)"

text \<open>
  The source information of the first message that has some. The endpoint of the only caller is a
  new one, so the memory that is written is new and zero.
\<close>

definition store_src :: "nat \<Rightarrow> nat \<Rightarrow> nat \<Rightarrow> nat \<Rightarrow> bytes \<Rightarrow> Endpoint \<Rightarrow> Endpoint" where
  "store_src sz len level type data ep =
     (let src = put_at 0 (cmsghdr len level type) (replicate (CmsgSpace sz) 0)
      in ep\<lparr>ep_src := put_at (CmsgLen 0) (take (CmsgSpace sz - CmsgLen 0) data) src\<rparr>)"

function src_from :: "(bytes \<Rightarrow> cmsg option) \<Rightarrow> bytes \<Rightarrow> Endpoint \<Rightarrow> Endpoint" where
  "src_from P rem ep =
     (if length rem > SizeofCmsghdr then
        (case P rem of
           None \<Rightarrow> ep
         | Some ((len, level, type), data, rest) \<Rightarrow>
             if level = IPPROTO_IP \<and> type = IP_PKTINFO then store_src SizeofInet4Pktinfo len level type data ep
             else if level = IPPROTO_IPV6 \<and> type = IPV6_PKTINFO then store_src SizeofInet6Pktinfo len level type data ep
             else if length rest < length rem then src_from P rest ep else ep)
      else ep)"
  by pat_completeness auto
termination
  by (relation "measure (\<lambda>(P, rem, ep). length rem)") auto

declare src_from.simps [simp del]

definition getSrcFromControl :: "(bytes \<Rightarrow> cmsg option) \<Rightarrow> bytes \<Rightarrow> Endpoint \<Rightarrow> Endpoint" where
  "getSrcFromControl P control ep = src_from P control (ClearSrc ep)"

definition SrcIP :: "Endpoint \<Rightarrow> Addr" where
  "SrcIP e =
     (if length (ep_src e) = CmsgSpace SizeofInet4Pktinfo
      then Addr4 (slice (CmsgLen 0 + 4) (CmsgLen 0 + 8) (ep_src e))
      else if length (ep_src e) = CmsgSpace SizeofInet6Pktinfo
      then Addr6 (slice (CmsgLen 0) (CmsgLen 0 + 16) (ep_src e))
      else AddrZero)"

definition SrcIfidx :: "Endpoint \<Rightarrow> int" where
  "SrcIfidx e =
     (if length (ep_src e) = CmsgSpace SizeofInet4Pktinfo
      then sint (of_nat (le_nat (slice (CmsgLen 0) (CmsgLen 0 + 4) (ep_src e))) :: u32)
      else if length (ep_src e) = CmsgSpace SizeofInet6Pktinfo
      then sint (of_nat (le_nat (slice (CmsgLen 0 + 16) (CmsgLen 0 + 20) (ep_src e))) :: u32)
      else 0)"

definition SrcToString :: "Endpoint \<Rightarrow> string" where
  "SrcToString e = show_addr (SrcIP e)"

section \<open>Messages\<close>

text \<open>The bytes and the port of a \<open>net.UDPAddr\<close>, and the pooled object \<open>Send\<close> fills: its memory, length and port.\<close>

type_synonym udp_addr = "bytes \<times> u16"

record UDPAddr =
  ua_mem :: bytes
  ua_len :: nat
  ua_port :: u16

definition new_UDPAddr :: UDPAddr where
  "new_UDPAddr = \<lparr>ua_mem = replicate 16 0, ua_len = 16, ua_port = 0\<rparr>"

definition udp_addr_of :: "UDPAddr \<Rightarrow> udp_addr" where
  "udp_addr_of ua = (take (ua_len ua) (ua_mem ua), ua_port ua)"

text \<open>
  \<open>Send\<close> copies the destination into the pooled address and sets its length; \<open>copy\<close> stops at the
  length the address had before. \<open>As4\<close> panics on the zero address.
\<close>

definition fill_addr :: "bytes \<Rightarrow> UDPAddr \<Rightarrow> UDPAddr" where
  "fill_addr b ua = ua\<lparr>ua_mem := put_at 0 (take (min (ua_len ua) (length b)) b) (ua_mem ua), ua_len := length b\<rparr>"

definition set_dst :: "Endpoint \<Rightarrow> UDPAddr \<Rightarrow> UDPAddr option" where
  "set_dst ep ua =
     map_option (\<lambda>ua1. ua1\<lparr>ua_port := ep_port ep\<rparr>)
       (case DstIP ep of
          AddrZero \<Rightarrow> None
        | Addr4 b \<Rightarrow> Some (fill_addr b ua)
        | Addr6 b \<Rightarrow> Some (fill_addr b ua))"

definition AddrPort :: "udp_addr \<Rightarrow> Endpoint" where
  "AddrPort a =
     \<lparr>ep_addr = (if length (fst a) = 4 then Addr4 (fst a) else if length (fst a) = 16 then Addr6 (fst a) else AddrZero),
      ep_port = snd a, ep_src = []\<rparr>"

record Message =
  m_buf :: Buf
  m_oob :: Control
  m_N :: nat
  m_NN :: nat
  m_Addr :: "udp_addr option"

definition maxIPv4PayloadLen :: nat where "maxIPv4PayloadLen = 2 ^ 16 - 1 - 20 - 8"
definition maxIPv6PayloadLen :: nat where "maxIPv6PayloadLen = 2 ^ 16 - 1 - 8"
definition udpSegmentMaxDatagrams :: nat where "udpSegmentMaxDatagrams = 64"

definition zero_Message :: Message where
  "zero_Message = \<lparr>m_buf = \<lparr>buf = [], bcap = 0\<rparr>, m_oob = new_control, m_N = 0, m_NN = 0, m_Addr = None\<rparr>"

definition new_messages :: "Message list" where
  "new_messages = replicate IdealBatchSize zero_Message"

text \<open>\<open>putMessages\<close> keeps the buffers and empties the control data before it pools the messages.\<close>

definition putMessages :: "Message list \<Rightarrow> Message list" where
  "putMessages ms =
     map (\<lambda>m. m\<lparr>m_oob := (m_oob m)\<lparr>c_len := 0\<rparr>, m_N := 0, m_NN := 0, m_Addr := None\<rparr>) ms"

record Coalesce =
  co_base :: int
  co_gsoSize :: nat
  co_dgramCnt :: nat
  co_endBatch :: bool
  co_msgs :: "Message list"

text \<open>
  One round of the loop of \<open>coalesceMessages\<close>: the test, the merge into the current message and the
  start of a new one; \<open>setGSO\<close> is the argument of the function.
\<close>

definition coalesce_fits :: "nat \<Rightarrow> nat \<Rightarrow> Buf \<Rightarrow> Coalesce \<Rightarrow> bool option" where
  "coalesce_fits maxPayloadLen i b s =
     (if i = 0 then Some False
      else if co_base s < 0 then None
      else do {
        m \<leftarrow> at (co_msgs s) (nat (co_base s));
        let msgLen = blen b;
        let baseLenBefore = blen (m_buf m);
        let freeBaseCap = int (bcap (m_buf m)) - int baseLenBefore;
        Some (msgLen + baseLenBefore \<le> maxPayloadLen \<and> msgLen \<le> co_gsoSize s \<and> int msgLen \<le> freeBaseCap \<and>
              co_dgramCnt s < udpSegmentMaxDatagrams \<and> \<not> co_endBatch s)
      })"

definition coalesce_merge :: "(Control \<Rightarrow> u16 \<Rightarrow> Control) \<Rightarrow> nat \<Rightarrow> nat \<Rightarrow> Buf \<Rightarrow> Coalesce \<Rightarrow> Coalesce option" where
  "coalesce_merge setGSO nbufs i b s =
     do {
       m \<leftarrow> at (co_msgs s) (nat (co_base s));
       let m1 = m\<lparr>m_buf := (m_buf m)\<lparr>buf := buf (m_buf m) @ buf b\<rparr>\<rparr>;
       let m2 = (if int i = int nbufs - 1 then m1\<lparr>m_oob := setGSO (m_oob m1) (of_nat (co_gsoSize s))\<rparr> else m1);
       Some (s\<lparr>co_msgs := (co_msgs s)[nat (co_base s) := m2], co_dgramCnt := co_dgramCnt s + 1,
               co_endBatch := (co_endBatch s \<or> blen b < co_gsoSize s)\<rparr>)
     }"

definition coalesce_start ::
  "udp_addr \<Rightarrow> Endpoint \<Rightarrow> (Control \<Rightarrow> u16 \<Rightarrow> Control) \<Rightarrow> Buf \<Rightarrow> Coalesce \<Rightarrow> Coalesce option" where
  "coalesce_start addr ep setGSO b s =
     do {
       msgs \<leftarrow> (if co_dgramCnt s > 1 then do {
                   m \<leftarrow> at (co_msgs s) (nat (co_base s));
                   Some ((co_msgs s)[nat (co_base s) := m\<lparr>m_oob := setGSO (m_oob m) (of_nat (co_gsoSize s))\<rparr>])
                 }
                 else Some (co_msgs s));
       let base = nat (co_base s + 1);
       m \<leftarrow> at msgs base;
       Some \<lparr>co_base = co_base s + 1, co_gsoSize = blen b, co_dgramCnt = 1, co_endBatch = False,
             co_msgs = msgs[base := m\<lparr>m_oob := setSrcControl (m_oob m) ep, m_buf := b, m_Addr := Some addr\<rparr>]\<rparr>
     }"

definition coalesce_round ::
  "udp_addr \<Rightarrow> Endpoint \<Rightarrow> (Control \<Rightarrow> u16 \<Rightarrow> Control) \<Rightarrow> nat \<Rightarrow> nat \<Rightarrow> nat \<Rightarrow> Buf \<Rightarrow> Coalesce \<Rightarrow> Coalesce option" where
  "coalesce_round addr ep setGSO maxPayloadLen nbufs i b s =
     do {
       fits \<leftarrow> coalesce_fits maxPayloadLen i b s;
       (if fits then coalesce_merge setGSO nbufs i b s else coalesce_start addr ep setGSO b s)
     }"

fun coalesce_rounds ::
  "udp_addr \<Rightarrow> Endpoint \<Rightarrow> (Control \<Rightarrow> u16 \<Rightarrow> Control) \<Rightarrow> nat \<Rightarrow> nat \<Rightarrow> nat \<Rightarrow> Buf list \<Rightarrow> Coalesce \<Rightarrow> Coalesce option" where
  "coalesce_rounds addr ep setGSO maxLen n i [] s = Some s"
| "coalesce_rounds addr ep setGSO maxLen n i (b # bs) s =
     do { s1 \<leftarrow> coalesce_round addr ep setGSO maxLen n i b s; coalesce_rounds addr ep setGSO maxLen n (Suc i) bs s1 }"

definition coalesceMessages ::
  "udp_addr \<Rightarrow> Endpoint \<Rightarrow> Buf list \<Rightarrow> Message list \<Rightarrow> (Control \<Rightarrow> u16 \<Rightarrow> Control) \<Rightarrow> (int \<times> Message list) option" where
  "coalesceMessages addr ep bufs msgs setGSO =
     do {
       let maxPayloadLen = (if Is6 (DstIP ep) then maxIPv6PayloadLen else maxIPv4PayloadLen);
       s \<leftarrow> coalesce_rounds addr ep setGSO maxPayloadLen (length bufs) 0 bufs
             \<lparr>co_base = -1, co_gsoSize = 0, co_dgramCnt = 0, co_endBatch = False, co_msgs = msgs\<rparr>;
       Some (co_base s + 1, co_msgs s)
     }"

text \<open>The copies of one message into the slots from \<open>n\<close> on; an error is the string of the code.\<close>

fun split_one ::
  "nat \<Rightarrow> nat \<Rightarrow> nat \<Rightarrow> nat \<Rightarrow> nat \<Rightarrow> nat \<Rightarrow> Message list \<Rightarrow> (bool \<times> nat \<times> Message list) option" where
  "split_one i gsoSize 0 n start fin msgs = Some (True, n, msgs)"
| "split_one i gsoSize (Suc k) n start fin msgs =
     (if n > i then Some (False, n, msgs)
      else do {
        msg \<leftarrow> at msgs i;
        dst \<leftarrow> at msgs n;
        src \<leftarrow> sub start fin (buf (m_buf msg));
        d \<leftarrow> copy_at 0 src (buf (m_buf dst));
        let dst1 = dst\<lparr>m_buf := (m_buf dst)\<lparr>buf := d\<rparr>, m_N := min (length src) (blen (m_buf dst)), m_Addr := m_Addr msg\<rparr>;
        let msgs1 = msgs[n := dst1];
        let total = (if n = i then m_N dst1 else m_N msg);
        split_one i gsoSize k (Suc n) fin (if fin + gsoSize > total then total else fin + gsoSize) msgs1
      })"

text \<open>
  Whether splitting succeeded, the number of messages and the messages. \<open>getGSO\<close> gives \<open>None\<close> on an
  error.
\<close>

function split_from ::
  "(bytes \<Rightarrow> int option) \<Rightarrow> nat \<Rightarrow> nat \<Rightarrow> Message list \<Rightarrow> (bool \<times> nat \<times> Message list) option" where
  "split_from getGSO i n msgs =
     (if i < length msgs then
        let msg = msgs ! i
        in if m_N msg = 0 then Some (True, n, msgs)
           else do {
             oob \<leftarrow> sub 0 (m_NN msg) (control_bytes (m_oob msg));
             (case getGSO oob of
                None \<Rightarrow> Some (False, n, msgs)
              | Some g \<Rightarrow> do {
                  let numToSplit = (if g > 0 then nat ((int (m_N msg) + g - 1) div g) else 1);
                  let fin = (if g > 0 then nat g else m_N msg);
                  (ok, n1, msgs1) \<leftarrow> split_one i (nat g) numToSplit n 0 fin msgs;
                  (if \<not> ok then Some (False, n1, msgs1)
                   else
                   let msgs2 = (if int i \<noteq> int n1 - 1 then msgs1[i := (msgs1 ! i)\<lparr>m_N := 0\<rparr>] else msgs1)
                   in if length msgs2 = length msgs then split_from getGSO (Suc i) n1 msgs2 else None)
                })
           }
      else Some (True, n, msgs))"
  by pat_completeness auto
termination
  by (relation "measure (\<lambda>(g, i, n, ms). length ms - i)") auto

declare split_from.simps [simp del]

definition splitCoalescedMessages ::
  "Message list \<Rightarrow> nat \<Rightarrow> (bytes \<Rightarrow> int option) \<Rightarrow> (bool \<times> nat \<times> Message list) option" where
  "splitCoalescedMessages msgs firstMsgAt getGSO = split_from getGSO firstMsgAt 0 msgs"

section \<open>The bind\<close>

datatype sys_error = EAFNOSUPPORT | EADDRINUSE | EIO | EOTHER nat

datatype bind_error = SysErr sys_error | ErrBindAlreadyOpen | ErrSplit | ErrGSODisabled "bind_error option"

text \<open>\<open>sb_sockets\<close> lists the sockets that are open in the operating system.\<close>

record StdNetBind =
  sb_ipv4 :: "nat option"
  sb_ipv6 :: "nat option"
  sb_ipv4TxOffload :: bool
  sb_ipv4RxOffload :: bool
  sb_ipv6TxOffload :: bool
  sb_ipv6RxOffload :: bool
  sb_blackhole4 :: bool
  sb_blackhole6 :: bool
  sb_sockets :: "nat list"

definition NewStdNetBind :: StdNetBind where
  "NewStdNetBind =
     \<lparr>sb_ipv4 = None, sb_ipv6 = None, sb_ipv4TxOffload = False, sb_ipv4RxOffload = False, sb_ipv6TxOffload = False,
      sb_ipv6RxOffload = False, sb_blackhole4 = False, sb_blackhole6 = False, sb_sockets = []\<rparr>"

text \<open>
  What the operating system answers: the socket and its port for the \<open>k\<close>-th call of \<open>listen\<close> with a
  family and a port, the offloads a socket supports, the error of closing it, the outcome of the
  \<open>k\<close>-th \<open>WriteBatch\<close> on a socket, and what \<open>ReadBatch\<close> makes of the messages.
\<close>

record Sys =
  sy_listen :: "nat \<Rightarrow> bool \<Rightarrow> u16 \<Rightarrow> sys_error + (nat \<times> u16)"
  sy_offload :: "nat \<Rightarrow> bool \<times> bool"
  sy_close :: "nat \<Rightarrow> sys_error option"
  sy_write :: "nat \<Rightarrow> nat \<Rightarrow> Message list \<Rightarrow> nat \<times> sys_error option"
  sy_read :: "nat \<Rightarrow> Message list \<Rightarrow> sys_error + (nat \<times> Message list)"
  sy_parse :: "bytes \<Rightarrow> cmsg option"

definition listenNet :: "Sys \<Rightarrow> nat \<Rightarrow> bool \<Rightarrow> u16 \<Rightarrow> StdNetBind \<Rightarrow> nat option \<times> u16 \<times> sys_error option \<times> StdNetBind" where
  "listenNet Y k six port s =
     (case sy_listen Y k six port of
        Inl e \<Rightarrow> (None, 0, Some e, s)
      | Inr (c, po) \<Rightarrow> (Some c, po, None, s\<lparr>sb_sockets := c # sb_sockets s\<rparr>))"

definition close_conn :: "nat option \<Rightarrow> StdNetBind \<Rightarrow> StdNetBind option" where
  "close_conn c s = map_option (\<lambda>c. s\<lparr>sb_sockets := remove1 c (sb_sockets s)\<rparr>) c"

text \<open>A receive function: the family, the socket and whether it splits merged datagrams.\<close>

type_synonym receive_func = "bool \<times> nat \<times> bool"

definition open_done ::
  "Sys \<Rightarrow> nat option \<Rightarrow> nat option \<Rightarrow> u16 \<Rightarrow> StdNetBind \<Rightarrow> (bind_error + (receive_func list \<times> u16)) \<times> StdNetBind" where
  "open_done Y v4 v6 port s =
     (let (f4, s) =
            (case v4 of
               None \<Rightarrow> ([], s)
             | Some c \<Rightarrow> let (t, r) = sy_offload Y c
                         in ([(False, c, r)], s\<lparr>sb_ipv4TxOffload := t, sb_ipv4RxOffload := r, sb_ipv4 := Some c\<rparr>));
          (f6, s) =
            (case v6 of
               None \<Rightarrow> ([], s)
             | Some c \<Rightarrow> let (t, r) = sy_offload Y c
                         in ([(True, c, r)], s\<lparr>sb_ipv6TxOffload := t, sb_ipv6RxOffload := r, sb_ipv6 := Some c\<rparr>))
      in if f4 @ f6 = [] then (Inl (SysErr EAFNOSUPPORT), s) else (Inr (f4 @ f6, port), s))"

text \<open>\<open>left\<close> is 100 minus the tries made.\<close>

fun open_try ::
  "Sys \<Rightarrow> u16 \<Rightarrow> nat \<Rightarrow> nat \<Rightarrow> StdNetBind \<Rightarrow> ((bind_error + (receive_func list \<times> u16)) \<times> StdNetBind) option" where
  "open_try Y uport k left s =
     (case listenNet Y k False uport s of
        (v4, port4, err4, s1) \<Rightarrow>
          if err4 \<noteq> None \<and> err4 \<noteq> Some EAFNOSUPPORT then Some (Inl (SysErr (the err4)), s1)
          else
          (case listenNet Y (k + 1) True port4 s1 of
             (v6, port, err, s2) \<Rightarrow>
               if uport = 0 \<and> err = Some EADDRINUSE \<and> left > 0
               then (case left of
                       0 \<Rightarrow> None
                     | Suc l \<Rightarrow> do { s3 \<leftarrow> close_conn v4 s2; open_try Y uport (k + 2) l s3 })
               else if err \<noteq> None \<and> err \<noteq> Some EAFNOSUPPORT
               then do { s3 \<leftarrow> close_conn v4 s2; Some (Inl (SysErr (the err)), s3) }
               else Some (open_done Y v4 v6 port s2)))"

declare open_try.simps [simp del]

definition Open :: "Sys \<Rightarrow> u16 \<Rightarrow> StdNetBind \<Rightarrow> ((bind_error + (receive_func list \<times> u16)) \<times> StdNetBind) option" where
  "Open Y uport s =
     (if sb_ipv4 s \<noteq> None \<or> sb_ipv6 s \<noteq> None then Some (Inl ErrBindAlreadyOpen, s)
      else open_try Y uport 0 100 s)"

definition StdNetBind_Close :: "Sys \<Rightarrow> StdNetBind \<Rightarrow> sys_error option \<times> StdNetBind" where
  "StdNetBind_Close Y s =
     (let (err1, s1) =
            (case sb_ipv4 s of
               None \<Rightarrow> (None, s)
             | Some c \<Rightarrow> (sy_close Y c, s\<lparr>sb_sockets := remove1 c (sb_sockets s), sb_ipv4 := None\<rparr>));
          (err2, s2) =
            (case sb_ipv6 s1 of
               None \<Rightarrow> (None, s1)
             | Some c \<Rightarrow> (sy_close Y c, s1\<lparr>sb_sockets := remove1 c (sb_sockets s1), sb_ipv6 := None\<rparr>));
          s3 = s2\<lparr>sb_blackhole4 := False, sb_blackhole6 := False, sb_ipv4TxOffload := False, sb_ipv4RxOffload := False,
                  sb_ipv6TxOffload := False, sb_ipv6RxOffload := False\<rparr>
      in (if err1 \<noteq> None then err1 else err2, s3))"

definition BatchSize :: nat where
  "BatchSize = IdealBatchSize"

section \<open>Sending\<close>

text \<open>
  The loop of \<open>send\<close>: the number of calls made, the messages the operating system took, in order, and
  the error. It returns only when a call fails or takes all that is left.
\<close>

partial_function (option) send_loop ::
  "Sys \<Rightarrow> nat \<Rightarrow> nat \<Rightarrow> Message list \<Rightarrow> Message list \<Rightarrow> (nat \<times> Message list \<times> sys_error option) option" where
  "send_loop Y conn k out msgs =
     (case sy_write Y k conn msgs of
        (n, err) \<Rightarrow>
          if err \<noteq> None \<or> n = length msgs then Some (k + 1, out @ take n msgs, err)
          else if n > length msgs then None
          else send_loop Y conn (k + 1) (out @ take n msgs) (drop n msgs))"

definition StdNetBind_send :: "Sys \<Rightarrow> nat \<Rightarrow> nat \<Rightarrow> Message list \<Rightarrow> (nat \<times> Message list \<times> sys_error option) option" where
  "StdNetBind_send Y conn k msgs = send_loop Y conn k [] msgs"

definition errShouldDisableUDPGSO :: "sys_error \<Rightarrow> bool" where
  "errShouldDisableUDPGSO e = (e = EIO)"

text \<open>The loop over the buffers that are sent one by one.\<close>

fun fill_messages :: "udp_addr \<Rightarrow> Endpoint \<Rightarrow> nat \<Rightarrow> Buf list \<Rightarrow> Message list \<Rightarrow> Message list option" where
  "fill_messages addr ep i [] msgs = Some msgs"
| "fill_messages addr ep i (b # bs) msgs =
     do {
       m \<leftarrow> at msgs i;
       fill_messages addr ep (Suc i) bs
         (msgs[i := m\<lparr>m_Addr := Some addr, m_buf := b, m_oob := setSrcControl (m_oob m) ep\<rparr>])
     }"

record SendOut =
  so_taken :: "Message list"
  so_error :: "bind_error option"
  so_addr :: UDPAddr
  so_msgs :: "Message list"

definition send_plain ::
  "Sys \<Rightarrow> nat \<Rightarrow> nat \<Rightarrow> Endpoint \<Rightarrow> UDPAddr \<Rightarrow> Buf list \<Rightarrow> Message list \<Rightarrow>
   (Message list \<times> sys_error option \<times> Message list) option" where
  "send_plain Y conn k ep ua bufs msgs =
     do {
       msgs1 \<leftarrow> fill_messages (udp_addr_of ua) ep 0 bufs msgs;
       ms \<leftarrow> sub 0 (length bufs) msgs1;
       (_, out, err) \<leftarrow> StdNetBind_send Y conn k ms;
       Some (out, err, msgs1)
     }"

text \<open>
  \<open>Send\<close> with messages and an address from the pools: what was taken, the error, and what goes back
  to the pools.
\<close>

definition StdNetBind_Send ::
  "Sys \<Rightarrow> Buf list \<Rightarrow> Endpoint \<Rightarrow> UDPAddr \<Rightarrow> Message list \<Rightarrow> StdNetBind \<Rightarrow> (SendOut \<times> StdNetBind) option" where
  "StdNetBind_Send Y bufs ep ua msgs s =
     (let is6 = Is6 (DstIP ep);
          blackhole = (if is6 then sb_blackhole6 s else sb_blackhole4 s);
          sock = (if is6 then sb_ipv6 s else sb_ipv4 s);
          offload = (if is6 then sb_ipv6TxOffload s else sb_ipv4TxOffload s);
          idle_out = (\<lambda>e. \<lparr>so_taken = [], so_error = e, so_addr = ua, so_msgs = msgs\<rparr>)
      in if blackhole then Some (idle_out None, s)
         else
         case sock of
           None \<Rightarrow> Some (idle_out (Some (SysErr EAFNOSUPPORT)), s)
         | Some conn \<Rightarrow> do {
             ua1 \<leftarrow> set_dst ep ua;
             (if offload then do {
                (n, msgs1) \<leftarrow> coalesceMessages (udp_addr_of ua1) ep bufs msgs setGSOSize;
                ms \<leftarrow> sub 0 (nat n) msgs1;
                (k, out, err) \<leftarrow> StdNetBind_send Y conn 0 ms;
                (case err of
                   None \<Rightarrow> Some (\<lparr>so_taken = out, so_error = None, so_addr = ua1, so_msgs = putMessages msgs1\<rparr>, s)
                 | Some e \<Rightarrow>
                     if errShouldDisableUDPGSO e then do {
                       let s1 = (if is6 then s\<lparr>sb_ipv6TxOffload := False\<rparr> else s\<lparr>sb_ipv4TxOffload := False\<rparr>);
                       (out2, err2, msgs2) \<leftarrow> send_plain Y conn k ep ua1 bufs msgs1;
                       Some (\<lparr>so_taken = out @ out2, so_error = Some (ErrGSODisabled (map_option SysErr err2)),
                              so_addr = ua1, so_msgs = putMessages msgs2\<rparr>, s1)
                     }
                     else Some (\<lparr>so_taken = out, so_error = Some (SysErr e), so_addr = ua1, so_msgs = putMessages msgs1\<rparr>, s))
              }
              else do {
                (out, err, msgs1) \<leftarrow> send_plain Y conn 0 ep ua1 bufs msgs;
                Some (\<lparr>so_taken = out, so_error = map_option SysErr err, so_addr = ua1, so_msgs = putMessages msgs1\<rparr>, s)
              })
           })"

section \<open>Receiving\<close>

fun load_messages :: "nat \<Rightarrow> Buf list \<Rightarrow> Message list \<Rightarrow> Message list option" where
  "load_messages i [] msgs = Some msgs"
| "load_messages i (b # bs) msgs =
     do {
       m \<leftarrow> at msgs i;
       load_messages (Suc i) bs (msgs[i := m\<lparr>m_buf := b, m_oob := (m_oob m)\<lparr>c_len := length (c_mem (m_oob m))\<rparr>\<rparr>])
     }"

text \<open>The loop that reports sizes and endpoints: \<open>n\<close> messages from the \<open>i\<close>-th on.\<close>

fun report ::
  "(bytes \<Rightarrow> cmsg option) \<Rightarrow> nat \<Rightarrow> nat \<Rightarrow> Message list \<Rightarrow> nat list \<Rightarrow> Endpoint option list \<Rightarrow> (nat list \<times> Endpoint option list) option" where
  "report P i 0 msgs sizes eps = Some (sizes, eps)"
| "report P i (Suc n) msgs sizes eps =
     do {
       msg \<leftarrow> at msgs i;
       sizes1 \<leftarrow> set_at i (m_N msg) sizes;
       (if m_N msg = 0 then report P (Suc i) n msgs sizes1 eps
        else do {
          a \<leftarrow> m_Addr msg;
          oob \<leftarrow> sub 0 (m_NN msg) (control_bytes (m_oob msg));
          eps1 \<leftarrow> set_at i (Some (getSrcFromControl P oob (AddrPort a))) eps;
          report P (Suc i) n msgs sizes1 eps1
        })
     }"

record RecvOut =
  ro_n :: nat
  ro_error :: "bind_error option"
  ro_bufs :: "Buf list"
  ro_sizes :: "nat list"
  ro_eps :: "Endpoint option list"
  ro_msgs :: "Message list"

definition receiveIP ::
  "Sys \<Rightarrow> nat \<Rightarrow> bool \<Rightarrow> Buf list \<Rightarrow> nat list \<Rightarrow> Endpoint option list \<Rightarrow> Message list \<Rightarrow> RecvOut option" where
  "receiveIP Y conn rxOffload bufs sizes eps msgs =
     do {
       msgs0 \<leftarrow> load_messages 0 bufs msgs;
       let readAt = (if rxOffload then length msgs0 - IdealBatchSize div udpSegmentMaxDatagrams else 0);
       let fail = (\<lambda>e ms. \<lparr>ro_n = 0, ro_error = Some e, ro_bufs = take (length bufs) (map m_buf ms), ro_sizes = sizes,
                            ro_eps = eps, ro_msgs = putMessages ms\<rparr>);
       (case sy_read Y conn (drop readAt msgs0) of
          Inl e \<Rightarrow> Some (fail (SysErr e) msgs0)
        | Inr (cnt, got) \<Rightarrow> do {
            let msgs1 = take readAt msgs0 @ got;
            (ok, n, msgs2) \<leftarrow> (if rxOffload then splitCoalescedMessages msgs1 readAt (getGSOSize (sy_parse Y))
                               else Some (True, cnt, msgs1));
            (if \<not> ok then Some (fail ErrSplit msgs2)
             else do {
               (sizes1, eps1) \<leftarrow> report (sy_parse Y) 0 n msgs2 sizes eps;
               Some \<lparr>ro_n = n, ro_error = None, ro_bufs = take (length bufs) (map m_buf msgs2), ro_sizes = sizes1,
                     ro_eps = eps1, ro_msgs = putMessages msgs2\<rparr>
             })
          })
     }"

section \<open>Names of receive functions\<close>

text \<open>
  \<open>PrettyName\<close> of the name the runtime gives the function; \<open>None\<close> where the code prints the address of
  the function.
\<close>

function strip_funcs :: "string \<Rightarrow> string" where
  "strip_funcs name =
     (let p = rev (dropWhile is_digit (rev name))
      in if p = name then name
         else if \<not> HasSuffix p ''.func'' then name
         else strip_funcs (take (length p - 5) p))"
  by pat_completeness auto
termination
proof (relation "measure length")
  fix name x assume "x = rev (dropWhile is_digit (rev name))" "x \<noteq> name" "\<not> \<not> HasSuffix x ''.func''"
  then show "(take (length x - 5) x, name) \<in> measure length"
    using length_dropWhile_le [of is_digit "rev name"] by (simp add: HasSuffix_def) linarith
qed simp

declare strip_funcs.simps [simp del]

definition PrettyName :: "string \<Rightarrow> string option" where
  "PrettyName fname =
     (let name = TrimSuffix fname ''-fm'';
          name = (case last_cut CHR ''/'' name of Some (_, b) \<Rightarrow> b | None \<Rightarrow> name);
          name = strip_funcs name;
          name = (case last_cut CHR ''.'' name of Some (_, b) \<Rightarrow> b | None \<Rightarrow> name)
      in if name = [] then None
         else if HasSuffix name ''IPv4'' then Some ''v4''
         else if HasSuffix name ''IPv6'' then Some ''v6''
         else Some name)"

end
