(* ===== verification/Bind_Lemmas.thy ===== *)
theory Bind_Lemmas
  imports Bind_Std
begin

text \<open>
  Coalescing loses and reorders no datagram and respects the limits of the kernel; splitting returns
  the datagrams in order; sending hands each message over once; opening and closing keep track of the
  sockets.
\<close>

section \<open>Coalescing\<close>

text \<open>
  A group of buffers that one message carries: all have the length of the first, but the last may be
  shorter.
\<close>

definition group_ok :: "nat \<Rightarrow> Buf list \<Rightarrow> bool" where
  "group_ok maxLen g \<longleftrightarrow>
     g \<noteq> [] \<and> length g \<le> udpSegmentMaxDatagrams \<and> (\<forall>b\<in>set (butlast g). blen b = blen (hd g)) \<and>
     blen (last g) \<le> blen (hd g) \<and> (length g > 1 \<longrightarrow> length (concat (map buf g)) \<le> maxLen)"

definition open_msg :: "udp_addr \<Rightarrow> Endpoint \<Rightarrow> Buf list \<Rightarrow> Message \<Rightarrow> Message" where
  "open_msg addr ep g m =
     m\<lparr>m_buf := (hd g)\<lparr>buf := concat (map buf g)\<rparr>, m_oob := setSrcControl (m_oob m) ep, m_Addr := Some addr\<rparr>"

definition group_msg :: "(Control \<Rightarrow> u16 \<Rightarrow> Control) \<Rightarrow> udp_addr \<Rightarrow> Endpoint \<Rightarrow> Buf list \<Rightarrow> Message \<Rightarrow> Message" where
  "group_msg setGSO addr ep g m =
     (let m1 = open_msg addr ep g m
      in if length g > 1 then m1\<lparr>m_oob := setGSO (m_oob m1) (of_nat (blen (hd g)))\<rparr> else m1)"

definition co_inv ::
  "(Control \<Rightarrow> u16 \<Rightarrow> Control) \<Rightarrow> udp_addr \<Rightarrow> Endpoint \<Rightarrow> nat \<Rightarrow> Message list \<Rightarrow> Buf list list \<Rightarrow> Buf list \<Rightarrow> bool \<Rightarrow> Coalesce \<Rightarrow> bool" where
  "co_inv setGSO addr ep maxLen msgs gs g fin s \<longleftrightarrow>
     co_base s = int (length gs) \<and> co_gsoSize s = blen (hd g) \<and> co_dgramCnt s = length g \<and>
     (co_endBatch s \<longleftrightarrow> blen (last g) < blen (hd g)) \<and> length gs < length msgs \<and>
     list_all (group_ok maxLen) gs \<and> group_ok maxLen g \<and>
     co_msgs s = map2 (group_msg setGSO addr ep) gs msgs @
       (if fin then group_msg setGSO addr ep g else open_msg addr ep g) (msgs ! length gs) # drop (Suc (length gs)) msgs"

lemma co_inv_at:
  assumes "co_inv setGSO addr ep maxLen msgs gs g fin s"
  shows "co_msgs s ! length gs = (if fin then group_msg setGSO addr ep g else open_msg addr ep g) (msgs ! length gs)"
    "length (co_msgs s) = length msgs"
    "(co_msgs s)[length gs := v] = map2 (group_msg setGSO addr ep) gs msgs @ v # drop (Suc (length gs)) msgs"
proof -
  have l: "length gs < length msgs" and c: "co_msgs s = map2 (group_msg setGSO addr ep) gs msgs @
       (if fin then group_msg setGSO addr ep g else open_msg addr ep g) (msgs ! length gs) # drop (Suc (length gs)) msgs"
    using assms by (auto simp: co_inv_def)
  have m: "length (map2 (group_msg setGSO addr ep) gs msgs) = length gs" using l by simp
  show "co_msgs s ! length gs = (if fin then group_msg setGSO addr ep g else open_msg addr ep g) (msgs ! length gs)"
    unfolding c using m by (metis nth_append_length)
  show "length (co_msgs s) = length msgs" unfolding c using l by simp
  show "(co_msgs s)[length gs := v] = map2 (group_msg setGSO addr ep) gs msgs @ v # drop (Suc (length gs)) msgs"
    unfolding c using m by (metis list_update_length)
qed

lemma map2_snoc:
  assumes "length gs < length msgs"
  shows "map2 f (gs @ [g]) msgs = map2 f gs msgs @ [f g (msgs ! length gs)]"
proof -
  have "msgs = take (length gs) msgs @ (msgs ! length gs) # drop (Suc (length gs)) msgs"
    using assms by (simp add: id_take_nth_drop)
  then obtain a b where m: "msgs = a @ (msgs ! length gs) # b" "length a = length gs" using assms by (metis length_take min.absorb4)
  then have "zip (gs @ [g]) msgs = zip gs a @ [(g, msgs ! length gs)]" "zip gs msgs = zip gs a"
    by (metis zip_append zip_Cons_Cons zip_Nil append_Nil2, metis m append_Nil2 zip_append zip_Nil)
  then show ?thesis by simp
qed

lemma group_ok_snoc:
  assumes "group_ok maxLen g" "blen b \<le> blen (hd g)" "\<not> blen (last g) < blen (hd g)"
    "length g < udpSegmentMaxDatagrams" "blen b + length (concat (map buf g)) \<le> maxLen"
  shows "group_ok maxLen (g @ [b])"
proof -
  have g: "g \<noteq> []" using assms(1) by (simp add: group_ok_def)
  then have "set g = insert (last g) (set (butlast g))"
    by (metis append_butlast_last_id list.simps(15) rotate1.simps(2) set_rotate1)
  then show ?thesis using assms g unfolding group_ok_def by (auto simp: butlast_append)
qed

lemma open_msg_fields [simp]:
  "buf (m_buf (open_msg addr ep g m)) = concat (map buf g)" "bcap (m_buf (open_msg addr ep g m)) = bcap (hd g)"
  by (simp_all add: open_msg_def)

lemma open_msg_snoc:
  assumes "g \<noteq> []"
  shows "open_msg addr ep (g @ [b]) m =
    (open_msg addr ep g m)\<lparr>m_buf := (m_buf (open_msg addr ep g m))\<lparr>buf := concat (map buf g) @ buf b\<rparr>\<rparr>"
  using assms by (intro Message.equality) (simp_all add: open_msg_def)

lemma open_msg_single: "open_msg addr ep [b] m = m\<lparr>m_oob := setSrcControl (m_oob m) ep, m_buf := b, m_Addr := Some addr\<rparr>"
  by (intro Message.equality) (simp_all add: open_msg_def)

lemma open_msg_fill: "m\<lparr>m_Addr := Some addr, m_buf := b, m_oob := setSrcControl (m_oob m) ep\<rparr> = open_msg addr ep [b] m"
  by (intro Message.equality) (simp_all add: open_msg_def)

lemma group_msg_single [simp]: "group_msg setGSO addr ep [b] m = open_msg addr ep [b] m"
  by (simp add: group_msg_def)

abbreviation fits :: "nat \<Rightarrow> Buf list \<Rightarrow> Buf \<Rightarrow> bool" where
  "fits maxLen g b \<equiv> blen b + length (concat (map buf g)) \<le> maxLen \<and> blen b \<le> blen (hd g) \<and>
     int (blen b) \<le> int (bcap (hd g)) - int (length (concat (map buf g))) \<and>
     length g < udpSegmentMaxDatagrams \<and> \<not> blen (last g) < blen (hd g)"

lemma co_inv_fields:
  assumes "co_inv setGSO addr ep maxLen msgs gs g fin s"
  shows "co_base s = int (length gs)" "co_gsoSize s = blen (hd g)" "co_dgramCnt s = length g"
    "co_endBatch s \<longleftrightarrow> blen (last g) < blen (hd g)" "group_ok maxLen g" "list_all (group_ok maxLen) gs"
    "length gs < length (co_msgs s)" "length gs < length msgs" "g \<noteq> []"
  using assms co_inv_at(2) [OF assms] by (auto simp: co_inv_def group_ok_def)

lemma coalesce_fits_ok:
  assumes "co_inv setGSO addr ep maxLen msgs gs g False s" "i > 0"
  shows "coalesce_fits maxLen i b s = Some (fits maxLen g b)"
  using assms(2) co_inv_fields [OF assms(1)] co_inv_at(1) [OF assms(1)] by (simp add: coalesce_fits_def at_Some Let_def)

lemma coalesce_merge_ok:
  assumes "co_inv setGSO addr ep maxLen msgs gs g False s" "fits maxLen g b"
  shows "\<exists>s'. coalesce_merge setGSO n i b s = Some s' \<and> co_inv setGSO addr ep maxLen msgs gs (g @ [b]) (int i = int n - 1) s'"
proof -
  note f = co_inv_fields [OF assms(1)]
  let ?m = "open_msg addr ep (g @ [b]) (msgs ! length gs)"
  let ?s = "s\<lparr>co_msgs := (co_msgs s)[length gs := (if int i = int n - 1 then group_msg setGSO addr ep (g @ [b]) (msgs ! length gs) else ?m)],
    co_dgramCnt := length g + 1, co_endBatch := blen b < blen (hd g)\<rparr>"
  have "coalesce_merge setGSO n i b s = Some ?s"
    using assms(2) f by (simp add: coalesce_merge_def co_inv_at(1) [OF assms(1)] at_Some open_msg_snoc group_msg_def Let_def)
  moreover have "co_inv setGSO addr ep maxLen msgs gs (g @ [b]) (int i = int n - 1) ?s"
    using f group_ok_snoc [of maxLen g b] assms(2) co_inv_at(3) [OF assms(1)] by (simp add: co_inv_def)
  ultimately show ?thesis by blast
qed

lemma coalesce_start_ok:
  assumes "co_inv setGSO addr ep maxLen msgs gs g False s" "Suc (length gs) < length msgs"
  shows "\<exists>s'. coalesce_start addr ep setGSO b s = Some s' \<and> co_inv setGSO addr ep maxLen msgs (gs @ [g]) [b] fin s'"
proof -
  note f = co_inv_fields [OF assms(1)]
  let ?ms = "(co_msgs s)[length gs := group_msg setGSO addr ep g (msgs ! length gs)]"
  have ms: "?ms = map2 (group_msg setGSO addr ep) (gs @ [g]) msgs @ drop (Suc (length gs)) msgs"
    using co_inv_at(3) [OF assms(1)] f by (simp add: map2_snoc)
  have d: "drop (Suc (length gs)) msgs = msgs ! Suc (length gs) # drop (Suc (Suc (length gs))) msgs"
    using assms(2) by (simp add: Cons_nth_drop_Suc)
  have len: "length (map2 (group_msg setGSO addr ep) (gs @ [g]) msgs) = Suc (length gs)" using assms(2) by simp
  have ms': "?ms ! Suc (length gs) = msgs ! Suc (length gs)"
    "?ms[Suc (length gs) := v] = map2 (group_msg setGSO addr ep) (gs @ [g]) msgs @ v # drop (Suc (Suc (length gs))) msgs" for v
    unfolding ms d using len by (metis nth_append_length, metis list_update_length)
  have same: "(co_msgs s)[length gs := open_msg addr ep g (msgs ! length gs)] = co_msgs s"
    using co_inv_at(1) [OF assms(1)] by (metis list_update_id)
  have upd: "(if co_dgramCnt s > 1 then do {
                   m \<leftarrow> at (co_msgs s) (nat (co_base s));
                   Some ((co_msgs s)[nat (co_base s) := m\<lparr>m_oob := setGSO (m_oob m) (of_nat (co_gsoSize s))\<rparr>])
                 }
                 else Some (co_msgs s)) = Some ?ms"
    using f co_inv_at(1) [OF assms(1)] same
    by (cases "length g > 1") (simp_all add: group_msg_def Let_def at_Some)
  let ?s = "\<lparr>co_base = int (length gs) + 1, co_gsoSize = blen b, co_dgramCnt = 1, co_endBatch = False,
    co_msgs = ?ms[Suc (length gs) := open_msg addr ep [b] (msgs ! Suc (length gs))]\<rparr>"
  have "coalesce_start addr ep setGSO b s = Some ?s"
    unfolding coalesce_start_def upd using ms'(1) assms(2) co_inv_at(2) [OF assms(1)]
    by (simp add: f at_Some Let_def open_msg_single nat_add_distrib)
  moreover have "co_inv setGSO addr ep maxLen msgs (gs @ [g]) [b] fin ?s"
    using assms(2) f ms'(2) by (simp add: co_inv_def group_ok_def udpSegmentMaxDatagrams_def)
  ultimately show ?thesis by blast
qed

lemma coalesce_rounds_ok:
  assumes "co_inv setGSO addr ep maxLen msgs gs g (bs = []) s" "i > 0" "length gs + length bs < length msgs" "n = i + length bs"
  shows "\<exists>s' gs' g'. coalesce_rounds addr ep setGSO maxLen n i bs s = Some s' \<and>
    co_inv setGSO addr ep maxLen msgs gs' g' True s' \<and> concat gs' @ g' = concat gs @ g @ bs"
  using assms
proof (induction bs arbitrary: gs g s i)
  case Nil
  then show ?case by auto
next
  case (Cons b bs)
  have inv: "co_inv setGSO addr ep maxLen msgs gs g False s" using Cons.prems(1) by simp
  have last: "(int i = int n - 1) = (bs = [])" using Cons.prems(4) by simp
  show ?case
  proof (cases "fits maxLen g b")
    case True
    obtain s1 where s1: "coalesce_merge setGSO n i b s = Some s1" "co_inv setGSO addr ep maxLen msgs gs (g @ [b]) (bs = []) s1"
      using coalesce_merge_ok [OF inv True, of n i] last by auto
    then show ?thesis using Cons.IH [OF s1(2), of "Suc i"] Cons.prems True coalesce_fits_ok [OF inv Cons.prems(2), of b]
      by (simp add: coalesce_round_def)
  next
    case False
    obtain s1 where s1: "coalesce_start addr ep setGSO b s = Some s1" "co_inv setGSO addr ep maxLen msgs (gs @ [g]) [b] (bs = []) s1"
      using coalesce_start_ok [OF inv, of b "bs = []"] Cons.prems(3) by auto
    have r: "coalesce_round addr ep setGSO maxLen n i b s = Some s1"
      unfolding coalesce_round_def coalesce_fits_ok [OF inv Cons.prems(2), of b] using False s1(1) by auto
    show ?thesis using Cons.IH [OF s1(2), of "Suc i"] Cons.prems r by simp
  qed
qed

lemma coalesce_first:
  assumes "msgs \<noteq> []"
  shows "\<exists>s'. coalesce_round addr ep setGSO maxLen n 0 b
      \<lparr>co_base = -1, co_gsoSize = 0, co_dgramCnt = 0, co_endBatch = False, co_msgs = msgs\<rparr> = Some s' \<and>
    co_inv setGSO addr ep maxLen msgs [] [b] fin s'"
  using assms by (cases msgs) (auto simp: coalesce_round_def coalesce_fits_def coalesce_start_def at_def co_inv_def
      group_ok_def udpSegmentMaxDatagrams_def open_msg_single)

text \<open>The datagrams of a group are the pieces of the message at the segment size.\<close>

lemma cut_group:
  assumes "group_ok maxLen g" "\<forall>b\<in>set g. buf b \<noteq> []"
  shows "cut (blen (hd g)) (concat (map buf g)) = map buf g"
proof -
  have "cut n (concat (map buf g)) = map buf g"
    if "g \<noteq> []" "\<forall>b\<in>set (butlast g). blen b = n" "blen (last g) \<le> n" "\<forall>b\<in>set g. buf b \<noteq> []" for n and g :: "Buf list"
    using that
  proof (induction g)
    case (Cons b g)
    show ?case
    proof (cases "g = []")
      case True
      then show ?thesis using Cons.prems by (simp add: cut_short)
    next
      case False
      then have "blen b = n" "0 < n" using Cons.prems(2,4) by auto
      then show ?thesis using Cons False by (simp add: cut_append)
    qed
  qed simp
  then show ?thesis using assms by (auto simp: group_ok_def)
qed

lemma coalesceMessages_ok:
  assumes "length bufs \<le> length msgs" "bufs \<noteq> []"
  shows "\<exists>gs. coalesceMessages addr ep bufs msgs setGSO =
      Some (int (length gs), map2 (group_msg setGSO addr ep) gs msgs @ drop (length gs) msgs) \<and>
    concat gs = bufs \<and> length gs \<le> length msgs \<and>
    list_all (group_ok (if Is6 (DstIP ep) then maxIPv6PayloadLen else maxIPv4PayloadLen)) gs"
proof -
  let ?max = "if Is6 (DstIP ep) then maxIPv6PayloadLen else maxIPv4PayloadLen"
  obtain b bs where b: "bufs = b # bs" using assms(2) by (cases bufs) auto
  then have "msgs \<noteq> []" using assms(1) by auto
  from coalesce_first [OF this, of addr ep setGSO ?max "length bufs" b "bs = []"]
  obtain s1 where s1: "coalesce_round addr ep setGSO ?max (length bufs) 0 b
      \<lparr>co_base = -1, co_gsoSize = 0, co_dgramCnt = 0, co_endBatch = False, co_msgs = msgs\<rparr> = Some s1"
    "co_inv setGSO addr ep ?max msgs [] [b] (bs = []) s1" by blast
  obtain s gs g where s: "coalesce_rounds addr ep setGSO ?max (length bufs) 1 bs s1 = Some s"
    "co_inv setGSO addr ep ?max msgs gs g True s" "concat gs @ g = b # bs"
    using coalesce_rounds_ok [OF s1(2), of 1 "length bufs"] assms(1) b by auto
  note f = co_inv_fields [OF s(2)]
  have "co_msgs s = map2 (group_msg setGSO addr ep) (gs @ [g]) msgs @ drop (length (gs @ [g])) msgs"
    using s(2) f(8) by (simp add: co_inv_def map2_snoc)
  then show ?thesis using s s1 f b
    by (intro exI [of _ "gs @ [g]"]) (simp add: coalesceMessages_def)
qed

section \<open>What the kernel sends\<close>

text \<open>
  The datagrams of a message: its payload cut at the size its control data gives after the source
  information, or the whole payload when there is no such size.
\<close>

definition wire :: "Endpoint \<Rightarrow> Message \<Rightarrow> bytes list" where
  "wire ep m =
     (let c = control_bytes (m_oob m); n = length (ep_src ep)
      in if length c \<le> n then [buf (m_buf m)] else cut (le_nat (slice (n + 16) (n + 18) c)) (buf (m_buf m)))"

definition room :: "Endpoint \<Rightarrow> Message \<Rightarrow> bool" where
  "room ep m \<longleftrightarrow> length (ep_src ep) + gsoControlSize \<le> length (c_mem (m_oob m))"

lemma control_sizes: "gsoControlSize = 24" "stickyControlSize = 40" "CmsgSpace sizeOfGSOData = 24" "CmsgLen 0 = 16"
  by (simp_all add: gsoControlSize_def stickyControlSize_def CmsgSpace_def CmsgLen_def sizeOfGSOData_def SizeofCmsghdr_def SizeofInet6Pktinfo_def)

lemma setSrcControl_bytes:
  assumes "length (ep_src ep) \<le> length (c_mem c)"
  shows "control_bytes (setSrcControl c ep) = ep_src ep" "c_len (setSrcControl c ep) = length (ep_src ep)"
    "length (c_mem (setSrcControl c ep)) = length (c_mem c)"
  using assms by (simp_all add: setSrcControl_def control_bytes_def put_at_def)

lemma length_cmsghdr [simp]: "length (cmsghdr a b c) = 16"
  by (simp add: cmsghdr_def)

lemma setGSOSize_bytes:
  assumes "c_len c + 24 \<le> length (c_mem c)"
  shows "slice (c_len c + 16) (c_len c + 18) (control_bytes (setGSOSize c g)) = le_bytes 2 (unat g)"
    "length (control_bytes (setGSOSize c g)) = c_len c + 24" "length (c_mem (setGSOSize c g)) = length (c_mem c)"
    "take (c_len c) (control_bytes (setGSOSize c g)) = control_bytes c"
proof -
  have n: "\<not> length (c_mem c) - c_len c < 24" using assms by linarith
  let ?m = "put_at (c_len c) (cmsghdr (CmsgLen sizeOfGSOData) SOL_UDP UDP_SEGMENT) (c_mem c)"
  have m: "length ?m = length (c_mem c)" "take (c_len c) ?m = take (c_len c) (c_mem c)"
    using assms by (simp_all add: length_put_at take_put_at)
  have e: "setGSOSize c g = \<lparr>c_mem = put_at (c_len c + 16) (le_bytes 2 (unat g)) ?m, c_len = c_len c + 24\<rparr>"
    using n by (simp add: setGSOSize_def Let_def control_sizes)
  show "length (c_mem (setGSOSize c g)) = length (c_mem c)" "length (control_bytes (setGSOSize c g)) = c_len c + 24"
    unfolding e using assms m by (simp_all add: length_put_at control_bytes_def)
  show "take (c_len c) (control_bytes (setGSOSize c g)) = control_bytes c"
    unfolding e using assms m by (simp add: control_bytes_def take_put_at)
  have "slice (c_len c + 16) (c_len c + 18) (control_bytes (setGSOSize c g)) =
      slice (c_len c + 16) (c_len c + 16 + length (le_bytes 2 (unat g))) (put_at (c_len c + 16) (le_bytes 2 (unat g)) ?m)"
    unfolding e by (simp add: control_bytes_def slice_def drop_take)
  also have "\<dots> = le_bytes 2 (unat g)" using assms m by (intro slice_put_at) simp
  finally show "slice (c_len c + 16) (c_len c + 18) (control_bytes (setGSOSize c g)) = le_bytes 2 (unat g)" .
qed

lemma wire_group:
  assumes "group_ok maxLen g" "\<forall>b\<in>set g. buf b \<noteq> []" "room ep m" "maxLen < 2 ^ 16"
  shows "wire ep (group_msg setGSOSize addr ep g m) = map buf g"
proof (cases "length g > 1")
  case True
  let ?c = "setSrcControl (m_oob m) ep"
  have r: "length (ep_src ep) \<le> length (c_mem (m_oob m))" "c_len ?c + 24 \<le> length (c_mem ?c)" "c_len ?c = length (ep_src ep)"
    using assms(3) setSrcControl_bytes [of ep "m_oob m"] by (simp_all add: room_def control_sizes)
  have oob: "m_oob (group_msg setGSOSize addr ep g m) = setGSOSize ?c (of_nat (blen (hd g)))"
    "buf (m_buf (group_msg setGSOSize addr ep g m)) = concat (map buf g)"
    using True by (simp_all add: group_msg_def open_msg_def)
  obtain b h where "g = b # h" using True by (cases g) auto
  then have "blen (hd g) < 2 ^ 16" using assms(1,4) True by (auto simp: group_ok_def)
  then have "le_nat (le_bytes 2 (unat (of_nat (blen (hd g)) :: u16))) = blen (hd g)"
    by (simp add: le_nat_le_bytes unat_of_nat)
  then show ?thesis unfolding wire_def oob Let_def
    using setGSOSize_bytes(1,2) [OF r(2), of "of_nat (blen (hd g))"] r(3) cut_group [OF assms(1,2)] by simp
next
  case False
  then obtain b where b: "g = [b]" using assms(1) by (cases g) (auto simp: group_ok_def)
  have "length (ep_src ep) \<le> length (c_mem (m_oob m))" using assms(3) by (simp add: room_def)
  then show ?thesis unfolding b using setSrcControl_bytes(1) [of ep "m_oob m"]
    by (simp add: wire_def open_msg_def Let_def)
qed

lemma wire_groups:
  assumes "list_all (group_ok maxLen) gs" "\<forall>b\<in>set (concat gs). buf b \<noteq> []" "list_all (room ep) msgs" "maxLen < 2 ^ 16"
    "length gs \<le> length msgs"
  shows "concat (map (wire ep) (map2 (group_msg setGSOSize addr ep) gs msgs)) = map buf (concat gs)"
  using assms
proof (induction gs arbitrary: msgs)
  case (Cons g gs)
  then show ?case by (cases msgs) (auto simp: wire_group [OF _ _ _ Cons.prems(4)])
qed simp

section \<open>Sending\<close>

text \<open>From the \<open>k\<close>-th call on, each call of \<open>WriteBatch\<close> takes at least one message.\<close>

definition progress :: "Sys \<Rightarrow> nat \<Rightarrow> nat \<Rightarrow> bool" where
  "progress Y conn k0 \<longleftrightarrow>
     (\<forall>k\<ge>k0. \<forall>ms. case sy_write Y k conn ms of (n, err) \<Rightarrow> err = None \<and> n \<le> length ms \<and> (ms \<noteq> [] \<longrightarrow> 0 < n))"

lemma send_loop_all: "progress Y conn k0 \<Longrightarrow> k0 \<le> k \<Longrightarrow> \<exists>k'. send_loop Y conn k out ms = Some (k', out @ ms, None)"
proof (induction "length ms" arbitrary: k out ms rule: less_induct)
  case less
  obtain n err where w: "sy_write Y k conn ms = (n, err)" by fastforce
  then have p: "err = None" "n \<le> length ms" "ms \<noteq> [] \<Longrightarrow> 0 < n" using less.prems by (auto simp: progress_def split: prod.splits dest: spec [of _ k])
  show ?case
  proof (cases "n = length ms")
    case True
    then show ?thesis using w p by (subst send_loop.simps) simp
  next
    case False
    then have "ms \<noteq> []" using p by auto
    then have "length (drop n ms) < length ms" using p by simp
    from less.hyps [OF this less.prems(1), of "k + 1" "out @ take n ms"] less.prems(2)
    show ?thesis using w p False by (subst send_loop.simps) simp
  qed
qed

lemma fill_messages_ok:
  assumes "i + length bs \<le> length ms"
  shows "fill_messages addr ep i bs ms =
    Some (take i ms @ map2 (\<lambda>b. open_msg addr ep [b]) bs (drop i ms) @ drop (i + length bs) ms)"
  using assms
proof (induction bs arbitrary: i ms)
  case (Cons b bs)
  have d: "drop i ms = ms ! i # drop (Suc i) ms" using Cons.prems by (simp add: Cons_nth_drop_Suc)
  have "fill_messages addr ep i (b # bs) ms = fill_messages addr ep (Suc i) bs (ms[i := open_msg addr ep [b] (ms ! i)])"
    using Cons.prems by (simp add: at_Some open_msg_fill)
  also have "\<dots> = Some (take (Suc i) (ms[i := open_msg addr ep [b] (ms ! i)]) @ map2 (\<lambda>b. open_msg addr ep [b]) bs (drop (Suc i) ms) @ drop (Suc i + length bs) ms)"
    using Cons.IH [of "Suc i" "ms[i := open_msg addr ep [b] (ms ! i)]"] Cons.prems by simp
  finally show ?case unfolding d using Cons.prems by (simp add: take_Suc_conv_app_nth)
qed simp

lemma wire_singles:
  assumes "list_all (room ep) msgs" "length bs \<le> length msgs"
  shows "concat (map (wire ep) (map2 (\<lambda>b. open_msg addr ep [b]) bs msgs)) = map buf bs"
  using assms
proof (induction bs arbitrary: msgs)
  case (Cons b bs)
  then show ?case using setSrcControl_bytes(1) [of ep]
    by (cases msgs) (auto simp: wire_def open_msg_def Let_def room_def)
qed simp

text \<open>
  Messages of the pool have empty control data and room for the source and the segment size; a
  pooled address has room for the destination when its length is at least that of the destination.
\<close>

definition pool_ok :: "Message list \<Rightarrow> bool" where
  "pool_ok msgs \<longleftrightarrow> length msgs = IdealBatchSize \<and>
     list_all (\<lambda>m. length (c_mem (m_oob m)) = stickyControlSize + gsoControlSize) msgs"

definition addr_bytes :: "Addr \<Rightarrow> bytes" where
  "addr_bytes a = (case a of AddrZero \<Rightarrow> [] | Addr4 b \<Rightarrow> b | Addr6 b \<Rightarrow> b)"

definition addr_room :: "Addr \<Rightarrow> UDPAddr \<Rightarrow> bool" where
  "addr_room a ua \<longleftrightarrow> addr_bytes a \<noteq> [] \<and> length (addr_bytes a) \<le> ua_len ua \<and> length (addr_bytes a) \<le> length (ua_mem ua)"

lemma set_dst_ok:
  assumes "addr_room (DstIP ep) ua"
  shows "\<exists>ua1. set_dst ep ua = Some ua1 \<and> udp_addr_of ua1 = (addr_bytes (DstIP ep), ep_port ep)"
  using assms by (cases "DstIP ep") (auto simp: set_dst_def addr_room_def addr_bytes_def udp_addr_of_def fill_addr_def put_at_def min_def)

lemma length_setGSOSize: "length (c_mem (setGSOSize c g)) = length (c_mem c)"
  by (simp add: setGSOSize_def Let_def control_sizes put_at_def) linarith

lemma length_setSrcControl: "length (c_mem (setSrcControl c ep)) = length (c_mem c)"
  by (simp add: setSrcControl_def put_at_def)

lemma group_msg_fields:
  "length (c_mem (m_oob (open_msg addr ep g m))) = length (c_mem (m_oob m))" "m_Addr (open_msg addr ep g m) = Some addr"
  "length (c_mem (m_oob (group_msg setGSOSize addr ep g m))) = length (c_mem (m_oob m))"
  "m_Addr (group_msg setGSOSize addr ep g m) = Some addr"
  by (simp_all add: open_msg_def group_msg_def Let_def length_setGSOSize length_setSrcControl)

lemma pool_ok_update:
  assumes "pool_ok msgs" "length gs \<le> length msgs" "\<And>g m. length (c_mem (m_oob (f g m))) = length (c_mem (m_oob m))"
  shows "pool_ok (map2 f gs msgs @ drop (length gs) msgs)"
proof -
  have "list_all (\<lambda>m. length (c_mem (m_oob m)) = z) (map2 f gs msgs)"
    if "list_all (\<lambda>m. length (c_mem (m_oob m)) = z) msgs" for z
    using that by (induction gs msgs rule: list_induct2') (auto simp: assms(3))
  moreover have "list_all P (drop n msgs)" if "list_all P msgs" for P n
    using that by (meson in_set_dropD list_all_iff)
  ultimately show ?thesis using assms(1,2) by (auto simp: pool_ok_def)
qed

lemma pool_ok_put: "pool_ok msgs \<Longrightarrow> pool_ok (putMessages msgs)"
  by (simp add: pool_ok_def putMessages_def list_all_iff)

lemma pool_room: "pool_ok msgs \<Longrightarrow> length (ep_src ep) \<le> stickyControlSize \<Longrightarrow> list_all (room ep) msgs"
  by (auto simp: pool_ok_def room_def list_all_iff)

text \<open>The limits of the kernel on a message with several datagrams.\<close>

definition max_payload :: "Endpoint \<Rightarrow> nat" where
  "max_payload ep = (if Is6 (DstIP ep) then maxIPv6PayloadLen else maxIPv4PayloadLen)"

definition sendable :: "Endpoint \<Rightarrow> udp_addr \<Rightarrow> Message \<Rightarrow> bool" where
  "sendable ep addr m \<longleftrightarrow> m_Addr m = Some addr \<and> length (wire ep m) \<le> udpSegmentMaxDatagrams \<and>
     (1 < length (wire ep m) \<longrightarrow> blen (m_buf m) \<le> max_payload ep)"

lemma group_sendable:
  assumes "group_ok (max_payload ep) g" "\<forall>b\<in>set g. buf b \<noteq> []" "room ep m"
  shows "sendable ep addr (group_msg setGSOSize addr ep g m)"
proof -
  have "max_payload ep < 2 ^ 16" by (simp add: max_payload_def maxIPv6PayloadLen_def maxIPv4PayloadLen_def)
  from wire_group [OF assms this, of addr] show ?thesis
    using assms(1) by (auto simp: sendable_def group_msg_fields group_ok_def) (simp add: group_msg_def Let_def)
qed

lemma send_plain_ok:
  assumes "pool_ok msgs" "length (ep_src ep) \<le> stickyControlSize" "length bufs \<le> IdealBatchSize" "progress Y conn k0" "k0 \<le> k"
  shows "\<exists>out msgs1. send_plain Y conn k ep ua bufs msgs = Some (out, None, msgs1) \<and> pool_ok msgs1 \<and>
    concat (map (wire ep) out) = map buf bufs \<and> list_all (sendable ep (udp_addr_of ua)) out"
proof -
  let ?new = "map2 (\<lambda>b. open_msg (udp_addr_of ua) ep [b]) bufs msgs"
  let ?ms = "?new @ drop (length bufs) msgs"
  have l: "length bufs \<le> length msgs" using assms(1,3) by (simp add: pool_ok_def)
  have f: "fill_messages (udp_addr_of ua) ep 0 bufs msgs = Some ?ms"
    using fill_messages_ok [of 0 bufs msgs] l by simp
  have s: "sub 0 (length bufs) ?ms = Some ?new" using l by (simp add: sub_def slice_def)
  obtain k' where "send_loop Y conn k [] ?new = Some (k', [] @ ?new, None)" using send_loop_all [OF assms(4,5)] by blast
  then have "send_plain Y conn k ep ua bufs msgs = Some (?new, None, ?ms)"
    unfolding send_plain_def f StdNetBind_send_def by (simp add: s)
  moreover have "pool_ok ?ms" by (rule pool_ok_update [OF assms(1) l]) (rule group_msg_fields)
  moreover have "sendable ep (udp_addr_of ua) (open_msg (udp_addr_of ua) ep [b] m)" if "m \<in> set msgs" for b m
  proof -
    have "length (ep_src ep) \<le> length (c_mem (m_oob m))" using pool_room [OF assms(1,2)] that by (auto simp: list_all_iff room_def)
    then show ?thesis using setSrcControl_bytes(1) [of ep "m_oob m"]
      by (simp add: sendable_def wire_def open_msg_def udpSegmentMaxDatagrams_def)
  qed
  then have "list_all (sendable ep (udp_addr_of ua)) ?new" by (auto simp: list_all_iff dest: set_zip_rightD)
  ultimately show ?thesis using wire_singles [OF pool_room [OF assms(1,2)] l] by blast
qed

lemma coalesce_send:
  assumes "pool_ok msgs" "length (ep_src ep) \<le> stickyControlSize" "length bufs \<le> IdealBatchSize" "bufs \<noteq> []"
    "\<forall>b\<in>set bufs. buf b \<noteq> []"
  shows "\<exists>n msgs1 ms. coalesceMessages addr ep bufs msgs setGSOSize = Some (n, msgs1) \<and> sub 0 (nat n) msgs1 = Some ms \<and>
    pool_ok msgs1 \<and> concat (map (wire ep) ms) = map buf bufs \<and> list_all (sendable ep addr) ms"
proof -
  let ?max = "if Is6 (DstIP ep) then maxIPv6PayloadLen else maxIPv4PayloadLen"
  have l: "length bufs \<le> length msgs" using assms(1,3) by (simp add: pool_ok_def)
  obtain gs where gs: "coalesceMessages addr ep bufs msgs setGSOSize =
      Some (int (length gs), map2 (group_msg setGSOSize addr ep) gs msgs @ drop (length gs) msgs)"
    "concat gs = bufs" "length gs \<le> length msgs" "list_all (group_ok ?max) gs"
    using coalesceMessages_ok [OF l assms(4)] by blast
  let ?ms = "map2 (group_msg setGSOSize addr ep) gs msgs"
  have "?max < 2 ^ 16" by (simp add: maxIPv6PayloadLen_def maxIPv4PayloadLen_def)
  then have w: "concat (map (wire ep) ?ms) = map buf bufs"
    using wire_groups [OF gs(4) _ pool_room [OF assms(1,2)], of addr] assms(5) gs(2,3) by simp
  have "sub 0 (length gs) (?ms @ drop (length gs) msgs) = Some ?ms" using gs(3) by (simp add: sub_def slice_def)
  moreover have "pool_ok (?ms @ drop (length gs) msgs)" by (rule pool_ok_update [OF assms(1) gs(3)]) (rule group_msg_fields)
  moreover have "sendable ep addr (group_msg setGSOSize addr ep g m)" if "(g, m) \<in> set (zip gs msgs)" for g m
    using gs(2,4) assms(5) pool_room [OF assms(1,2)] set_zip_leftD [OF that] set_zip_rightD [OF that]
    by (intro group_sendable) (auto simp: list_all_iff max_payload_def)
  then have "list_all (sendable ep addr) ?ms" by (auto simp: list_all_iff)
  ultimately show ?thesis using gs(1) w by auto
qed


definition example_sys :: Sys where
  "example_sys =
     \<lparr>sy_listen = (\<lambda>k six port. Inr (k, if port = 0 then 40000 else port)), sy_offload = (\<lambda>c. (True, True)), sy_close = (\<lambda>c. None),
      sy_write = (\<lambda>k c ms. (length ms, None)), sy_read = (\<lambda>c ms. Inl EIO), sy_parse = (\<lambda>b. None)\<rparr>"

definition example_v4 :: Endpoint where
  "example_v4 = \<lparr>ep_addr = Addr4 [192, 0, 2, 7], ep_port = 2408, ep_src = []\<rparr>"

lemma new_messages_ok: "pool_ok new_messages"
  by (simp add: pool_ok_def new_messages_def zero_Message_def new_control_def list_all_iff)



definition example_v6 :: Endpoint where
  "example_v6 = \<lparr>ep_addr = Addr6 [32, 1, 13, 184, 0, 0, 0, 0, 0, 0, 0, 0, 0, 0, 0, 9], ep_port = 2408, ep_src = []\<rparr>"


section \<open>Opening and closing\<close>

definition cleared_bind :: "StdNetBind \<Rightarrow> bool" where
  "cleared_bind s \<longleftrightarrow> s = NewStdNetBind\<lparr>sb_sockets := sb_sockets s\<rparr>"

lemma cleared_bind_closed:
  assumes "cleared_bind s"
  shows "sb_ipv4 s = None \<and> sb_ipv6 s = None"
proof -
  obtain so where "s = NewStdNetBind\<lparr>sb_sockets := so\<rparr>" using assms by (simp add: cleared_bind_def)
  then show ?thesis by (simp add: NewStdNetBind_def)
qed

definition open_ok :: "Sys \<Rightarrow> StdNetBind \<Rightarrow> (bind_error + (receive_func list \<times> u16)) \<times> StdNetBind \<Rightarrow> bool" where
  "open_ok Y s r =
     (case r of
        (Inl _, s') \<Rightarrow> s' = s
      | (Inr (fns, port), s') \<Rightarrow>
          fns \<noteq> [] \<and> (sb_ipv4 s' \<noteq> None \<or> sb_ipv6 s' \<noteq> None) \<and> (sb_ipv6 s' = None \<longrightarrow> port = 0) \<and>
          map (fst \<circ> snd) fns = (case sb_ipv4 s' of None \<Rightarrow> [] | Some c \<Rightarrow> [c]) @ (case sb_ipv6 s' of None \<Rightarrow> [] | Some c \<Rightarrow> [c]) \<and>
          snd (StdNetBind_Close Y s') = s)"

lemma open_done_ok:
  assumes "cleared_bind s" "v6 = None \<longrightarrow> port = 0"
  shows "open_ok Y s (open_done Y v4 v6 port (s\<lparr>sb_sockets := (case v6 of None \<Rightarrow> [] | Some c \<Rightarrow> [c]) @ (case v4 of None \<Rightarrow> [] | Some c \<Rightarrow> [c]) @ sb_sockets s\<rparr>))"
proof -
  obtain so where s: "s = NewStdNetBind\<lparr>sb_sockets := so\<rparr>" using assms(1) by (simp add: cleared_bind_def)
  show ?thesis unfolding s using assms(2)
    by (cases v4; cases v6) (auto simp: open_ok_def open_done_def NewStdNetBind_def StdNetBind_Close_def split: prod.split)
qed

lemma open_try_ok:
  assumes "cleared_bind s" "\<forall>k p. sy_listen Y k False p \<noteq> Inl EAFNOSUPPORT"
  shows "\<exists>r. open_try Y uport k left s = Some r \<and> open_ok Y s r"
  using assms(1)
proof (induction left arbitrary: k rule: less_induct)
  case (less left)
  show ?case
  proof (cases "sy_listen Y k False uport")
    case (Inl e)
    then show ?thesis using assms(2) by (subst open_try.simps) (auto simp: listenNet_def open_ok_def)
  next
    case (Inr a)
    obtain c4 p4 where a: "a = (c4, p4)" by (cases a)
    note l4 = Inr [unfolded a]
    show ?thesis
    proof (cases "sy_listen Y (k + 1) True p4")
      case (Inr b)
      obtain c6 p6 where b: "b = (c6, p6)" by (cases b)
      then show ?thesis using l4 Inr open_done_ok [OF less.prems, of "Some c6" p6 Y "Some c4"]
        by (subst open_try.simps) (simp add: listenNet_def)
    next
      case (Inl e)
      consider "uport = 0 \<and> e = EADDRINUSE \<and> left > 0" | "\<not> (uport = 0 \<and> e = EADDRINUSE \<and> left > 0)" "e \<noteq> EAFNOSUPPORT" | "e = EAFNOSUPPORT" by blast
      then show ?thesis
      proof cases
        case 1
        then obtain l where l: "left = Suc l" by (cases left) auto
        then show ?thesis using less.IH [OF _ less.prems, of l "k + 2"] 1 l4 Inl
          by (subst open_try.simps) (simp add: listenNet_def close_conn_def)
      next
        case 2
        then show ?thesis using l4 Inl by (subst open_try.simps) (auto simp: listenNet_def close_conn_def open_ok_def)
      next
        case 3
        then show ?thesis using l4 Inl open_done_ok [OF less.prems, of None 0 Y "Some c4"]
          by (subst open_try.simps) (simp add: listenNet_def)
      qed
    qed
  qed
qed



end
