(* ===== verification/Bind_Receive.thy ===== *)
theory Bind_Receive
  imports Bind_Lemmas Send_Lemmas
begin

text \<open>Splitting what the kernel merged: the datagrams come back in order, with their sizes and senders.\<close>

text \<open>The datagram a message holds, and the datagrams of a message with segment size \<open>g\<close>; size 0 is one datagram.\<close>

definition dgram :: "Message \<Rightarrow> bytes \<times> udp_addr option" where
  "dgram m = (take (m_N m) (buf (m_buf m)), m_Addr m)"

definition seg_len :: "nat \<Rightarrow> Message \<Rightarrow> nat" where
  "seg_len g m = (if g = 0 then m_N m else g)"

definition pieces :: "nat \<Rightarrow> Message \<Rightarrow> (bytes \<times> udp_addr option) list" where
  "pieces g m = map (\<lambda>p. (p, m_Addr m)) (cut (seg_len g m) (take (m_N m) (buf (m_buf m))))"

definition ctl :: "Message \<Rightarrow> Control \<times> nat" where
  "ctl m = (m_oob m, m_NN m)"

lemma map_ctl_update: "ctl m = ctl (msgs ! n) \<Longrightarrow> map ctl (msgs[n := m]) = map ctl msgs"
  by (cases "n < length msgs") (simp_all add: map_update list_update_same_conv list_update_beyond)

lemma split_one_ctl: "split_one i g k n start fin msgs = Some (ok, n', msgs') \<Longrightarrow> map ctl msgs' = map ctl msgs"
proof (induction k arbitrary: n start fin msgs)
  case (Suc k)
  show ?case
  proof (cases "n > i")
    case False
    have I: "split_one i g k (Suc n) fin f (msgs[n := m]) = Some (ok, n', msgs') \<Longrightarrow> ctl m = ctl (msgs ! n) \<Longrightarrow>
      map ctl msgs' = map ctl msgs" for f m using Suc.IH map_ctl_update by metis
    from Suc.prems [unfolded split_one.simps if_not_P [OF False] Let_def] show ?thesis
      by (elim bind_SomeE) (rule I, assumption, simp add: ctl_def at_def split: if_split_asm)
  qed (use Suc.prems in simp)
qed simp

lemma split_one_ok:
  assumes "n + k \<le> Suc i" "i < length msgs" "\<forall>m\<in>set msgs. z \<le> blen (m_buf m)" "ge \<le> z" "0 < ge"
    "N = m_N (msgs ! i)" "N \<le> blen (m_buf (msgs ! i))" "data = take N (buf (m_buf (msgs ! i)))"
    "k = length (cut ge (drop start data))" "k > 0 \<longrightarrow> fin = min (start + ge) N" "g = ge \<or> k \<le> 1"
  shows "\<exists>msgs'. split_one i g k n start fin msgs = Some (True, n + k, msgs') \<and> length msgs' = length msgs \<and>
    (\<forall>m\<in>set msgs'. z \<le> blen (m_buf m)) \<and> (\<forall>j<length msgs. j < n \<or> n + k \<le> j \<longrightarrow> msgs' ! j = msgs ! j) \<and>
    map dgram (slice n (n + k) msgs') = map (\<lambda>p. (p, m_Addr (msgs ! i))) (cut ge (drop start data))"
  using assms
proof (induction k arbitrary: n start fin msgs)
  case 0
  then show ?case by (auto simp: slice_def)
next
  case (Suc k)
  let ?msg = "msgs ! i"
  have ne: "drop start data \<noteq> []" using Suc.prems(9) by (cases "drop start data") auto
  then have st: "start < N" using Suc.prems(8) by simp
  have fin: "fin = min (start + ge) N" using Suc.prems(10) by simp
  have cut: "cut ge (drop start data) = take ge (drop start data) # cut ge (drop (start + ge) data)"
    using cut_step [OF ne Suc.prems(5)] by (simp add: add.commute)
  have k: "k = length (cut ge (drop (start + ge) data))" using Suc.prems(9) unfolding cut by simp
  let ?src = "slice start fin (buf (m_buf ?msg))"
  have src: "?src = take ge (drop start data)" "length ?src \<le> ge"
    using fin st by (auto simp: slice_def Suc.prems(8) drop_take min_def)
  have n: "n \<le> i" "n < length msgs" using Suc.prems(1,2) by auto
  have room: "length ?src \<le> blen (m_buf (msgs ! n))" using src(2) Suc.prems(3,4) n by (meson le_trans nth_mem)
  let ?d = "(msgs ! n)\<lparr>m_buf := (m_buf (msgs ! n))\<lparr>buf := put_at 0 ?src (buf (m_buf (msgs ! n)))\<rparr>, m_N := length ?src, m_Addr := m_Addr ?msg\<rparr>"
  let ?ms = "msgs[n := ?d]"
  have dg: "dgram ?d = (take ge (drop start data), m_Addr ?msg)" using room src(1) by (simp add: dgram_def put_at_def min_def)
  have step: "split_one i g (Suc k) n start fin msgs =
      split_one i g k (Suc n) fin (if fin + g > m_N (?ms ! i) then m_N (?ms ! i) else fin + g) ?ms"
  proof -
    have s: "sub start fin (buf (m_buf ?msg)) = Some ?src" using Suc.prems(7) fin st by (intro sub_Some) auto
    have c: "copy_at 0 ?src (buf (m_buf (msgs ! n))) = Some (put_at 0 ?src (buf (m_buf (msgs ! n))))"
      "min (length ?src) (blen (m_buf (msgs ! n))) = length ?src" using room by (simp_all add: copy_at_Some)
    show ?thesis unfolding split_one.simps at_Some [OF Suc.prems(2)] at_Some [OF n(2)] Option.bind.simps s c Let_def
      using n by (cases "n = i") simp_all
  qed
  have same: "?ms ! i = ?msg" if "k > 0" using that Suc.prems(1) by simp
  have len: "\<forall>m\<in>set ?ms. z \<le> blen (m_buf m)" using Suc.prems(3) room n
    by (auto simp: length_put_at dest!: set_update_subset_insert [THEN subsetD])
  show ?case
  proof (cases "k = 0")
    case True
    have "map dgram (slice n (Suc n) ?ms) = [dgram ?d]" using n by (simp add: slice_def Cons_nth_drop_Suc [symmetric])
    then show ?thesis using True step len dg cut k by (intro exI [of _ ?ms]) (auto simp: nth_list_update)
  next
    case False
    then have m: "?ms ! i = ?msg" using same by simp
    have g: "g = ge" using Suc.prems(11) False by simp
    have "drop (start + ge) data \<noteq> []" using False k by auto
    then have f: "fin = start + ge" using fin Suc.prems(8) by simp
    have "\<exists>msgs'. split_one i g k (Suc n) fin (min (fin + ge) N) ?ms = Some (True, Suc n + k, msgs') \<and> length msgs' = length ?ms \<and>
      (\<forall>m\<in>set msgs'. z \<le> blen (m_buf m)) \<and> (\<forall>j<length ?ms. j < Suc n \<or> Suc n + k \<le> j \<longrightarrow> msgs' ! j = ?ms ! j) \<and>
      map dgram (slice (Suc n) (Suc n + k) msgs') = map (\<lambda>p. (p, m_Addr (?ms ! i))) (cut ge (drop fin data))"
      by (rule Suc.IH) (use Suc.prems len m f k g in auto)
    then obtain msgs' where r: "split_one i g k (Suc n) fin (min (fin + ge) N) ?ms = Some (True, Suc n + k, msgs')" "length msgs' = length msgs"
      "\<forall>m\<in>set msgs'. z \<le> blen (m_buf m)" "\<forall>j<length msgs. j < Suc n \<or> Suc n + k \<le> j \<longrightarrow> msgs' ! j = ?ms ! j"
      "map dgram (slice (Suc n) (Suc n + k) msgs') = map (\<lambda>p. (p, m_Addr ?msg)) (cut ge (drop fin data))"
      using m by auto
    have s: "slice n (n + Suc k) msgs' = msgs' ! n # slice (Suc n) (Suc n + k) msgs'"
      using n r(2) by (simp add: slice_def Cons_nth_drop_Suc [symmetric])
    have "msgs' ! n = ?d" using r(4) n by auto
    then show ?thesis using step r dg cut f m g s Suc.prems(6) by (intro exI [of _ msgs']) (auto simp: min_def)
  qed
qed

definition gso_of :: "(bytes \<Rightarrow> int option) \<Rightarrow> Message \<Rightarrow> nat" where
  "gso_of getGSO m = nat (the (getGSO (take (m_NN m) (control_bytes (m_oob m)))))"

text \<open>
  A message as the kernel delivers it: the control data is readable and its size, if any, is positive
  and at most the number of bytes received, which fits in every buffer.
\<close>

definition merged_ok :: "(bytes \<Rightarrow> int option) \<Rightarrow> nat \<Rightarrow> Message \<Rightarrow> bool" where
  "merged_ok getGSO z m \<longleftrightarrow>
     m_NN m \<le> length (control_bytes (m_oob m)) \<and> getGSO (take (m_NN m) (control_bytes (m_oob m))) \<noteq> None \<and>
     the (getGSO (take (m_NN m) (control_bytes (m_oob m)))) \<ge> 0 \<and> gso_of getGSO m \<le> m_N m \<and> m_N m \<le> z \<and> z \<le> blen (m_buf m)"

definition received :: "(bytes \<Rightarrow> int option) \<Rightarrow> Message list \<Rightarrow> (bytes \<times> udp_addr option) list" where
  "received getGSO ms = concat (map (\<lambda>m. pieces (gso_of getGSO m) m) (takeWhile (\<lambda>m. m_N m \<noteq> 0) ms))"

text \<open>Each message yields no more datagrams than there are slots up to its own.\<close>

fun split_fits :: "(bytes \<Rightarrow> int option) \<Rightarrow> nat \<Rightarrow> nat \<Rightarrow> Message list \<Rightarrow> bool" where
  "split_fits getGSO i n [] = True"
| "split_fits getGSO i n (m # ms) =
     (m_N m = 0 \<or> n + length (pieces (gso_of getGSO m) m) \<le> Suc i \<and> split_fits getGSO (Suc i) (n + length (pieces (gso_of getGSO m) m)) ms)"

lemma count_segments: "0 < g \<Longrightarrow> nat ((int n + g - 1) div g) = (n + nat g - 1) div nat g"
proof -
  assume "0 < g"
  then obtain m where m: "g = int m" "0 < m" by (metis zero_less_imp_eq_int)
  then have "int n + g - 1 = int (n + m - 1)" by simp
  then show ?thesis unfolding m(1) by (simp only: zdiv_int [symmetric] nat_int)
qed

lemma split_message:
  assumes "merged_ok getGSO z (msgs ! i)" "m_N (msgs ! i) \<noteq> 0" "i < length msgs" "\<forall>m\<in>set msgs. z \<le> blen (m_buf m)"
    "g = the (getGSO (take (m_NN (msgs ! i)) (control_bytes (m_oob (msgs ! i)))))"
    "n + length (pieces (nat g) (msgs ! i)) \<le> Suc i"
  shows "\<exists>msgs'. split_one i (nat g) (if g > 0 then nat ((int (m_N (msgs ! i)) + g - 1) div g) else 1) n 0
      (if g > 0 then nat g else m_N (msgs ! i)) msgs = Some (True, n + length (pieces (nat g) (msgs ! i)), msgs') \<and>
    length msgs' = length msgs \<and> (\<forall>m\<in>set msgs'. z \<le> blen (m_buf m)) \<and>
    (\<forall>j<length msgs. j < n \<or> n + length (pieces (nat g) (msgs ! i)) \<le> j \<longrightarrow> msgs' ! j = msgs ! j) \<and>
    map dgram (slice n (n + length (pieces (nat g) (msgs ! i))) msgs') = pieces (nat g) (msgs ! i)"
proof -
  let ?m = "msgs ! i" and ?ge = "seg_len (nat g) (msgs ! i)"
  let ?data = "take (m_N ?m) (buf (m_buf ?m))"
  have h: "0 \<le> g" "nat g \<le> m_N ?m" "m_N ?m \<le> z" "z \<le> blen (m_buf ?m)" using assms(1,5) by (auto simp: merged_ok_def gso_of_def)
  have ge: "0 < ?ge" "?ge \<le> m_N ?m" "?ge \<le> z" using assms(2) h by (auto simp: seg_len_def)
  have k: "(if g > 0 then nat ((int (m_N ?m) + g - 1) div g) else 1) = length (pieces (nat g) ?m)"
  proof (cases "g > 0")
    case True
    have "nat ((int (m_N ?m) + g - 1) div g) = (m_N ?m + nat g - 1) div nat g" using True by (rule count_segments)
    then show ?thesis using True le_trans [OF h(3,4)] by (simp add: pieces_def seg_len_def length_cut min_absorb2)
  next
    case False
    moreover have "take (m_N ?m) (buf (m_buf ?m)) \<noteq> []" using assms(2) le_trans [OF h(3,4)] by auto
    ultimately show ?thesis using h(1) assms(2) by (simp add: pieces_def seg_len_def cut_short)
  qed
  have fin: "(if g > 0 then nat g else m_N ?m) = min (0 + ?ge) (m_N ?m)" using ge(2) h(1) by (auto simp: seg_len_def)
  have one: "nat g = ?ge \<or> length (pieces (nat g) ?m) \<le> 1" using k h by (cases "g > 0") (auto simp: seg_len_def)
  have "\<exists>msgs'. split_one i (nat g) (length (pieces (nat g) ?m)) n 0 (min (0 + ?ge) (m_N ?m)) msgs =
      Some (True, n + length (pieces (nat g) ?m), msgs') \<and> length msgs' = length msgs \<and>
    (\<forall>m\<in>set msgs'. z \<le> blen (m_buf m)) \<and> (\<forall>j<length msgs. j < n \<or> n + length (pieces (nat g) ?m) \<le> j \<longrightarrow> msgs' ! j = msgs ! j) \<and>
    map dgram (slice n (n + length (pieces (nat g) ?m)) msgs') = map (\<lambda>p. (p, m_Addr ?m)) (cut ?ge (drop 0 ?data))"
    by (rule split_one_ok [where z = z and N = "m_N ?m"]) (use assms(3,4,6) ge one le_trans [OF h(3,4)] in \<open>simp_all add: pieces_def\<close>)
  then show ?thesis unfolding k fin by (simp add: pieces_def)
qed

lemma split_from_ok:
  assumes "n \<le> i" "list_all (merged_ok getGSO z) (takeWhile (\<lambda>m. m_N m \<noteq> 0) (drop i msgs))" "\<forall>m\<in>set msgs. z \<le> blen (m_buf m)"
    "split_fits getGSO i n (drop i msgs)" "i \<le> length msgs"
  shows "\<exists>msgs'. split_from getGSO i n msgs = Some (True, n + length (received getGSO (drop i msgs)), msgs') \<and>
    length msgs' = length msgs \<and> map ctl msgs' = map ctl msgs \<and> (\<forall>m\<in>set msgs'. z \<le> blen (m_buf m)) \<and>
    n + length (received getGSO (drop i msgs)) \<le> length msgs \<and>
    map dgram (take (n + length (received getGSO (drop i msgs))) msgs') = map dgram (take n msgs) @ received getGSO (drop i msgs)"
  using assms
proof (induction "length msgs - i" arbitrary: i n msgs)
  case 0
  then show ?case by (subst split_from.simps) (simp add: received_def)
next
  case (Suc l)
  let ?m = "msgs ! i"
  have i: "i < length msgs" using Suc.hyps(2) by simp
  have d: "drop i msgs = ?m # drop (Suc i) msgs" using i by (simp add: Cons_nth_drop_Suc)
  show ?case
  proof (cases "m_N ?m = 0")
    case True
    then show ?thesis using i Suc.prems by (subst split_from.simps) (simp add: d received_def)
  next
    case False
    have ok: "merged_ok getGSO z ?m" using Suc.prems(2) False by (simp add: d)
    then obtain g where h: "m_NN ?m \<le> length (control_bytes (m_oob ?m))" "getGSO (take (m_NN ?m) (control_bytes (m_oob ?m))) = Some g"
      by (auto simp: merged_ok_def)
    then have gso: "gso_of getGSO ?m = nat g" "g = the (getGSO (take (m_NN ?m) (control_bytes (m_oob ?m))))" by (simp_all add: gso_of_def)
    let ?D = "pieces (nat g) ?m"
    have fit: "n + length ?D \<le> Suc i" and rest: "split_fits getGSO (Suc i) (n + length ?D) (drop (Suc i) msgs)"
      using Suc.prems(4) False gso(1) by (simp_all add: d)
    obtain ms1 where s: "split_one i (nat g) (if g > 0 then nat ((int (m_N ?m) + g - 1) div g) else 1) n 0
        (if g > 0 then nat g else m_N ?m) msgs = Some (True, n + length ?D, ms1)" "length ms1 = length msgs"
      "\<forall>m\<in>set ms1. z \<le> blen (m_buf m)" "\<forall>j<length msgs. j < n \<or> n + length ?D \<le> j \<longrightarrow> ms1 ! j = msgs ! j"
      "map dgram (slice n (n + length ?D) ms1) = ?D"
      using split_message [OF ok False i Suc.prems(3) gso(2) fit] by blast
    let ?ms2 = "if int i \<noteq> int (n + length ?D) - 1 then ms1[i := (ms1 ! i)\<lparr>m_N := 0\<rparr>] else ms1"
    have t2: "take (n + length ?D) ?ms2 = take (n + length ?D) ms1" using fit by auto
    have t1: "map dgram (take (n + length ?D) ms1) = map dgram (take n msgs) @ ?D"
    proof -
      have "take n ms1 = take n msgs" using s(2,4) by (intro nth_equalityI) auto
      then show ?thesis using s(5) by (simp add: take_add slice_def)
    qed
    have d2: "drop (Suc i) ?ms2 = drop (Suc i) msgs" using s(2,4) fit by (intro nth_equalityI) auto
    have c2: "map ctl ?ms2 = map ctl msgs" using split_one_ctl [OF s(1)] map_ctl_update [of _ ms1 i] by (simp add: ctl_def)
    have z2: "\<forall>m\<in>set ?ms2. z \<le> blen (m_buf m)" using s(2,3) i
      by (auto dest!: set_update_subset_insert [THEN subsetD])
    have l2: "length ?ms2 = length msgs" using s(2) by simp
    have step: "split_from getGSO i n msgs = split_from getGSO (Suc i) (n + length ?D) ?ms2"
      by (subst split_from.simps) (use i False h s(1,2) in \<open>simp add: sub_def slice_def Let_def\<close>)
    have "\<exists>msgs'. split_from getGSO (Suc i) (n + length ?D) ?ms2 = Some (True, (n + length ?D) + length (received getGSO (drop (Suc i) ?ms2)), msgs') \<and>
      length msgs' = length ?ms2 \<and> map ctl msgs' = map ctl ?ms2 \<and> (\<forall>m\<in>set msgs'. z \<le> blen (m_buf m)) \<and>
      (n + length ?D) + length (received getGSO (drop (Suc i) ?ms2)) \<le> length ?ms2 \<and>
      map dgram (take ((n + length ?D) + length (received getGSO (drop (Suc i) ?ms2))) msgs') =
        map dgram (take (n + length ?D) ?ms2) @ received getGSO (drop (Suc i) ?ms2)"
      by (rule Suc.hyps(1)) (use Suc.hyps(2) Suc.prems(2) False fit rest z2 i l2 d2 in \<open>auto simp: d\<close>)
    moreover have "received getGSO (drop i msgs) = ?D @ received getGSO (drop (Suc i) msgs)"
      using False gso(1) by (simp add: d received_def)
    ultimately show ?thesis unfolding step d2 l2 c2 t2 t1 by (simp add: add.assoc)
  qed
qed

section \<open>The receive function\<close>

lemma load_messages_ok:
  assumes "i + length bs \<le> length ms"
  shows "load_messages i bs ms = Some (take i ms @
    map2 (\<lambda>b m. m\<lparr>m_buf := b, m_oob := (m_oob m)\<lparr>c_len := length (c_mem (m_oob m))\<rparr>\<rparr>) bs (drop i ms) @ drop (i + length bs) ms)"
  using assms
proof (induction bs arbitrary: i ms)
  case (Cons b bs)
  have d: "drop i ms = ms ! i # drop (Suc i) ms" using Cons.prems by (simp add: Cons_nth_drop_Suc)
  show ?case using Cons.prems unfolding d by (simp add: at_Some Cons.IH take_Suc_conv_app_nth)
qed simp

lemma src_from_addr: "ep_addr (src_from P rem ep) = ep_addr ep \<and> ep_port (src_from P rem ep) = ep_port ep"
proof (induction P rem ep rule: src_from.induct)
  case (1 P rem ep)
  show ?case
    by (subst (1 2) src_from.simps) (use 1 in \<open>auto simp: store_src_def Let_def split: option.split prod.split\<close>)
qed

definition sender :: "Endpoint \<Rightarrow> Addr \<times> u16" where
  "sender ep = (ep_addr ep, ep_port ep)"

lemma report_ok:
  assumes "i + n \<le> length msgs" "length sizes = length msgs" "length eps = length msgs"
    "\<forall>j. i \<le> j \<and> j < i + n \<longrightarrow> m_N (msgs ! j) \<noteq> 0 \<and> m_Addr (msgs ! j) \<noteq> None \<and> m_NN (msgs ! j) \<le> length (control_bytes (m_oob (msgs ! j)))"
  shows "\<exists>sizes' eps'. report P i n msgs sizes eps = Some (sizes', eps') \<and> length sizes' = length msgs \<and> length eps' = length msgs \<and>
    (\<forall>j<i. sizes' ! j = sizes ! j \<and> eps' ! j = eps ! j) \<and>
    (\<forall>j. i \<le> j \<and> j < i + n \<longrightarrow> sizes' ! j = m_N (msgs ! j) \<and>
      map_option sender (eps' ! j) = map_option (\<lambda>a. sender (AddrPort a)) (m_Addr (msgs ! j)))"
  using assms
proof (induction n arbitrary: i sizes eps)
  case (Suc n)
  let ?m = "msgs ! i"
  obtain a where a: "m_Addr ?m = Some a" "m_N ?m \<noteq> 0" "m_NN ?m \<le> length (control_bytes (m_oob ?m))"
    using Suc.prems(4) by fastforce
  let ?e = "getSrcFromControl P (take (m_NN ?m) (control_bytes (m_oob ?m))) (AddrPort a)"
  let ?s = "sizes[i := m_N ?m]" and ?es = "eps[i := Some ?e]"
  have e: "sender ?e = sender (AddrPort a)"
    by (simp add: sender_def getSrcFromControl_def src_from_addr ClearSrc_def)
  have step: "report P i (Suc n) msgs sizes eps = report P (Suc i) n msgs ?s ?es"
    using Suc.prems(1-3) a by (simp add: at_Some set_at_Some sub_def slice_def)
  have "\<forall>j. Suc i \<le> j \<and> j < Suc i + n \<longrightarrow> m_N (msgs ! j) \<noteq> 0 \<and> m_Addr (msgs ! j) \<noteq> None \<and> m_NN (msgs ! j) \<le> length (control_bytes (m_oob (msgs ! j)))"
    using Suc.prems(4) by simp
  with Suc.IH [of "Suc i" ?s ?es] Suc.prems(1-3)
  obtain sizes' eps' where r: "report P (Suc i) n msgs ?s ?es = Some (sizes', eps')" "length sizes' = length msgs" "length eps' = length msgs"
    "\<forall>j<Suc i. sizes' ! j = ?s ! j \<and> eps' ! j = ?es ! j"
    "\<forall>j. Suc i \<le> j \<and> j < Suc i + n \<longrightarrow> sizes' ! j = m_N (msgs ! j) \<and> map_option sender (eps' ! j) = map_option (\<lambda>a. sender (AddrPort a)) (m_Addr (msgs ! j))"
    by auto
  have "sizes' ! j = m_N (msgs ! j) \<and> map_option sender (eps' ! j) = map_option (\<lambda>a. sender (AddrPort a)) (m_Addr (msgs ! j))"
    if "i \<le> j" "j < i + Suc n" for j
  proof (cases "j = i")
    case True
    then show ?thesis using r(4) Suc.prems(1-3) a(1) e by simp
  qed (use r(5) that in auto)
  then show ?case unfolding step using r(1-4) by auto
qed auto

text \<open>
  The buffers of a receive call have room for a datagram of the largest size the kernel delivers.
  Messages of the pool hold no datagram.
\<close>

definition pool_clean :: "Message list \<Rightarrow> bool" where
  "pool_clean msgs \<longleftrightarrow> list_all (\<lambda>m. m_N m = 0 \<and> m_NN m = 0) msgs"

text \<open>What the kernel may deliver into the two messages at the end: at most 64 datagrams each.\<close>

definition delivers :: "(bytes \<Rightarrow> int option) \<Rightarrow> nat \<Rightarrow> Message list \<Rightarrow> bool" where
  "delivers getGSO z got \<longleftrightarrow> length got = 2 \<and> list_all (merged_ok getGSO z) got \<and>
     list_all (\<lambda>m. m_Addr m \<noteq> None \<and> length (pieces (gso_of getGSO m) m) \<le> udpSegmentMaxDatagrams) got"

lemma pieces_nonempty: "(p, a) \<in> set (pieces g m) \<Longrightarrow> p \<noteq> [] \<and> a = m_Addr m"
proof -
  have "[] \<notin> set (cut n xs)" for n and xs :: bytes
    by (induction n xs rule: cut.induct) (subst cut.simps, auto)
  then show "(p, a) \<in> set (pieces g m) \<Longrightarrow> p \<noteq> [] \<and> a = m_Addr m" by (auto simp: pieces_def)
qed

lemma received_valid:
  assumes "delivers getGSO z got" "(p, a) \<in> set (received getGSO got)"
  shows "p \<noteq> [] \<and> a \<noteq> None"
  using assms pieces_nonempty by (fastforce simp: received_def delivers_def list_all_iff dest: set_takeWhileD)

lemma delivers_fits: "delivers getGSO z got \<Longrightarrow> split_fits getGSO 126 0 got"
  by (auto simp: delivers_def numeral_2_eq_2 length_Suc_conv udpSegmentMaxDatagrams_def)

definition loaded :: "Buf list \<Rightarrow> Message list \<Rightarrow> Message list" where
  "loaded bufs msgs = map2 (\<lambda>b m. m\<lparr>m_buf := b, m_oob := (m_oob m)\<lparr>c_len := length (c_mem (m_oob m))\<rparr>\<rparr>) bufs msgs"

lemma split_batch:
  assumes "delivers getGSO z got" "length pre = 126" "list_all (\<lambda>m. m_NN m = 0) pre" "\<forall>m\<in>set pre. z \<le> blen (m_buf m)"
  shows "\<exists>ms. splitCoalescedMessages (pre @ got) 126 getGSO = Some (True, length (received getGSO got), ms) \<and>
    length ms = IdealBatchSize \<and> length (received getGSO got) \<le> IdealBatchSize \<and>
    map dgram (take (length (received getGSO got)) ms) = received getGSO got \<and>
    (\<forall>m\<in>set ms. m_NN m \<le> length (control_bytes (m_oob m)))"
proof -
  have got: "length got = 2" "list_all (merged_ok getGSO z) got" using assms(1) by (simp_all add: delivers_def)
  have dr: "drop 126 (pre @ got) = got" using assms(2) by simp
  have z: "\<forall>m\<in>set (pre @ got). z \<le> blen (m_buf m)" using assms(4) got(2) by (auto simp: list_all_iff merged_ok_def)
  have "list_all (merged_ok getGSO z) (takeWhile (\<lambda>m. m_N m \<noteq> 0) (drop 126 (pre @ got)))"
    unfolding dr using got(2) by (auto simp: list_all_iff dest: set_takeWhileD)
  then obtain ms where ms: "split_from getGSO 126 0 (pre @ got) = Some (True, length (received getGSO got), ms)"
    "length ms = length (pre @ got)" "map ctl ms = map ctl (pre @ got)" "length (received getGSO got) \<le> length (pre @ got)"
    "map dgram (take (length (received getGSO got)) ms) = received getGSO got"
    using split_from_ok [OF _ _ z, of 0 126 getGSO] delivers_fits [OF assms(1)] dr assms(2) by auto
  have "m_NN m \<le> length (control_bytes (m_oob m))" if m: "m \<in> set ms" for m
  proof -
    have "ctl m \<in> set (map ctl (pre @ got))" using m ms(3) by (metis image_eqI list.set_map)
    then obtain m' where "m' \<in> set (pre @ got)" "ctl m' = ctl m" unfolding list.set_map by (metis imageE)
    moreover have "\<forall>m\<in>set (pre @ got). m_NN m \<le> length (control_bytes (m_oob m))"
      using assms(3) got(2) by (auto simp: list_all_iff merged_ok_def)
    ultimately show ?thesis by (metis ctl_def prod.inject)
  qed
  then show ?thesis unfolding splitCoalescedMessages_def using ms assms(2) got(1) by (simp add: IdealBatchSize_def)
qed


text \<open>One control message as the kernel lays it out, and a kernel that delivers three merged datagrams.\<close>

definition example_parse :: "bytes \<Rightarrow> cmsg option" where
  "example_parse b =
     (let len = le_nat (take 8 b)
      in if 16 \<le> len \<and> len \<le> length b
         then Some ((len, le_nat (slice 8 12 b), le_nat (slice 12 16 b)), slice 16 len b, drop ((len + 7) div 8 * 8) b)
         else None)"

definition example_got :: "Message list" where
  "example_got =
     [\<lparr>m_buf = \<lparr>buf = [1, 2, 3, 4, 5, 0, 0, 0], bcap = 8\<rparr>,
       m_oob = \<lparr>c_mem = [18, 0, 0, 0, 0, 0, 0, 0, 17, 0, 0, 0, 104, 0, 0, 0, 2, 0, 0, 0, 0, 0, 0, 0], c_len = 24\<rparr>,
       m_N = 5, m_NN = 24, m_Addr = Some ([192, 0, 2, 7], 2408)\<rparr>,
      \<lparr>m_buf = \<lparr>buf = [0, 0, 0, 0, 0, 0, 0, 0], bcap = 8\<rparr>, m_oob = \<lparr>c_mem = [], c_len = 0\<rparr>, m_N = 0, m_NN = 0,
       m_Addr = Some ([192, 0, 2, 7], 2408)\<rparr>]"

definition example_recv :: Sys where
  "example_recv = example_sys\<lparr>sy_read := (\<lambda>c ms. Inr (1, example_got)), sy_parse := example_parse\<rparr>"

lemma example_gso_size: "getGSOSize example_parse [18, 0, 0, 0, 0, 0, 0, 0, 17, 0, 0, 0, 104, 0, 0, 0, 2, 0, 0, 0, 0, 0, 0, 0] = Some 2"
  by (subst getGSOSize.simps) (simp add: example_parse_def SizeofCmsghdr_def slice_def le_nat_def SOL_UDP_def UDP_GRO_def sizeOfGSOData_def Let_def)

lemma example_gso_none: "getGSOSize P [] = Some 0"
  by (subst getGSOSize.simps) (simp add: SizeofCmsghdr_def)

lemma example_pieces: "cut 2 [1, 2, 3, 4, 5 :: 8 word] = [[1, 2], [3, 4], [5]]"
  by (simp add: cut.simps)

lemma example_received:
  "received (getGSOSize example_parse) example_got =
     [([1, 2], Some ([192, 0, 2, 7], 2408)), ([3, 4], Some ([192, 0, 2, 7], 2408)), ([5], Some ([192, 0, 2, 7], 2408))]"
  by (simp add: received_def example_got_def gso_of_def control_bytes_def example_gso_size pieces_def seg_len_def example_pieces)

lemma example_delivers: "delivers (getGSOSize example_parse) 8 example_got"
  by (simp add: delivers_def example_got_def merged_ok_def control_bytes_def example_gso_size example_gso_none gso_of_def
      pieces_def seg_len_def example_pieces udpSegmentMaxDatagrams_def)


end
