(* ===== verification/Ip_Queue.thy ===== *)
theory Ip_Queue
  imports Ip_Bits "HOL-Library.Multiset"
begin

text \<open>
  \<open>ipscanner/engine/queue.go\<close> and \<open>ipscanner/statute/queue.go\<close>: the queue of the best endpoints a scan
  has found, sorted by round-trip time and bounded in length.
\<close>

section \<open>Model\<close>

record IPInfo =
  ip_AddrPort :: "Addr \<times> u16"
  RTT :: int
  CreatedAt :: int

text \<open>The options of a scan that decide what it does.\<close>

record ScannerOptions =
  UseIPv4 :: bool
  UseIPv6 :: bool
  CidrList :: "Prefix list"
  CustomEndpoints :: "(Addr \<times> u16) list"
  TestPortsForIPs :: "(Addr \<times> u16 list) list"
  Port :: u16
  DefaultScanPorts :: "u16 list"
  MasqueScanPorts :: "u16 list"
  IcmpPing :: bool
  TcpPing :: bool
  TCPPingPort :: u16
  BucketSize :: int
  ICMPPingFilterRTT :: int
  TCPPingFilterRTT :: int
  IPQueueSize :: int
  ConcurrentScanners :: nat
  StopOnFirstGoodIPs :: int

definition zero_IPInfo :: IPInfo where
  "zero_IPInfo = \<lparr>ip_AddrPort = (AddrZero, 0), RTT = 0, CreatedAt = 0\<rparr>"

text \<open>The bisection of \<open>sort.Search\<close>: \<open>search f i j\<close> looks for the first index of \<open>i..<j\<close> where \<open>f\<close> holds.\<close>

function search :: "(nat \<Rightarrow> bool) \<Rightarrow> nat \<Rightarrow> nat \<Rightarrow> nat" where
  "search f i j = (if i < j then let h = (i + j) div 2 in if f h then search f i h else search f (h + 1) j else i)"
  by pat_completeness auto
termination
  by (relation "measure (\<lambda>(f, i, j). j - i)") auto

declare search.simps [simp del]

definition Search :: "nat \<Rightarrow> (nat \<Rightarrow> bool) \<Rightarrow> nat" where
  "Search n f = search f 0 n"

record IPQueue =
  queue :: "IPInfo list"
  maxQueueSize :: int

definition NewIPQueue :: "int \<Rightarrow> IPQueue" where
  "NewIPQueue n = \<lparr>queue = [], maxQueueSize = n\<rparr>"

definition Enqueue :: "IPInfo \<Rightarrow> IPQueue \<Rightarrow> IPQueue" where
  "Enqueue info q =
     (let n = length (queue q);
          index = Search n (\<lambda>i. RTT (queue q ! i) > RTT info);
          grown = queue q @ [zero_IPInfo];
          shifted = put_at (index + 1) (slice index n grown) grown;
          items = shifted[index := info];
          items = (if maxQueueSize q > 0 \<and> int (length items) > maxQueueSize q then take (length items - 1) items else items)
      in q\<lparr>queue := items\<rparr>)"

text \<open>
  \<open>sort.Slice\<close> with a comparison of round-trip times gives some permutation in that order; \<open>srt\<close> stands for
  the one it chooses among equal times.
\<close>

definition AvailableIPs :: "(IPInfo list \<Rightarrow> IPInfo list) \<Rightarrow> bool \<Rightarrow> IPQueue \<Rightarrow> IPInfo list" where
  "AvailableIPs srt desc q = (if desc then srt (queue q) else queue q)"

definition Size :: "IPQueue \<Rightarrow> nat" where
  "Size q = length (queue q)"

text \<open>The queue of package \<open>statute\<close> sorts after each addition and stamps what it hands out.\<close>

definition statute_Enqueue :: "(IPInfo list \<Rightarrow> IPInfo list) \<Rightarrow> IPInfo \<Rightarrow> IPInfo list \<Rightarrow> IPInfo list" where
  "statute_Enqueue srt item items = srt (items @ [item])"

definition statute_Dequeue :: "int \<Rightarrow> IPInfo list \<Rightarrow> IPInfo \<times> IPInfo list" where
  "statute_Dequeue now items =
     (case items of [] \<Rightarrow> (zero_IPInfo, []) | item # rest \<Rightarrow> (item\<lparr>CreatedAt := now\<rparr>, rest))"

section \<open>Insertion in order\<close>

lemma search_ok:
  assumes "\<forall>k. i \<le> k \<and> k < j \<longrightarrow> (f k \<longleftrightarrow> p \<le> k)" "i \<le> p" "p \<le> j"
  shows "search f i j = p"
  using assms
proof (induction f i j rule: search.induct)
  case (1 f i j)
  show ?case
  proof (cases "i < j")
    case True
    let ?h = "(i + j) div 2"
    have h: "i \<le> ?h" "?h < j" using True by auto
    show ?thesis
    proof (cases "f ?h")
      case t: True
      then have "p \<le> ?h" using 1 h by blast
      then show ?thesis using 1(1) [OF True refl t] 1(3-5) t True h by (subst search.simps) (simp add: Let_def)
    next
      case f: False
      then have "\<not> p \<le> ?h" using 1 h by blast
      then show ?thesis using 1(2) [OF True refl f] 1(3-5) f True h by (subst search.simps) (simp add: Let_def)
    qed
  next
    case False
    then show ?thesis using 1(4,5) by (subst search.simps) simp
  qed
qed

text \<open>Insertion after the items that are not slower.\<close>

definition put_after :: "IPInfo \<Rightarrow> IPInfo list \<Rightarrow> IPInfo list" where
  "put_after x xs = takeWhile (\<lambda>y. RTT y \<le> RTT x) xs @ x # dropWhile (\<lambda>y. RTT y \<le> RTT x) xs"

abbreviation by_rtt :: "IPInfo list \<Rightarrow> bool" where
  "by_rtt xs \<equiv> sorted (map RTT xs)"

lemma Search_sorted:
  assumes "by_rtt xs"
  shows "Search (length xs) (\<lambda>i. RTT (xs ! i) > RTT x) = length (takeWhile (\<lambda>y. RTT y \<le> RTT x) xs)"
proof -
  let ?p = "length (takeWhile (\<lambda>y. RTT y \<le> RTT x) xs)"
  have "RTT (xs ! k) > RTT x \<longleftrightarrow> ?p \<le> k" if "k < length xs" for k
  proof (cases "?p \<le> k")
    case True
    then have p: "?p < length xs" using that by simp
    then have "RTT x < RTT (xs ! ?p)" using nth_length_takeWhile [OF p] by simp
    also have "\<dots> \<le> RTT (xs ! k)" using assms True that by (simp add: sorted_iff_nth_mono)
    finally show ?thesis using True by simp
  next
    case False
    then have "RTT (xs ! k) \<le> RTT x"
      by (metis (mono_tags, lifting) nth_mem not_le set_takeWhileD takeWhile_nth)
    then show ?thesis using False by simp
  qed
  then show ?thesis unfolding Search_def by (intro search_ok) (auto simp: length_takeWhile_le)
qed

lemma put_after_sorted: "by_rtt xs \<Longrightarrow> by_rtt (put_after x xs)"
  by (induction xs) (auto simp: put_after_def dest: set_takeWhileD set_dropWhileD)

lemma put_after_snoc: "put_after x (sort_key RTT xs) = sort_key RTT (xs @ [x])"
proof -
  have ins: "insort_key RTT y (put_after x zs) = put_after x (insort_key RTT y zs)" for y zs
    by (induction zs) (auto simp: put_after_def)
  show ?thesis
  proof (induction xs)
    case Nil
    then show ?case by (simp add: put_after_def)
  next
    case (Cons a xs)
    then show ?case using ins [of a "sort_key RTT xs"] by simp
  qed
qed

lemma take_put_after: "take k (put_after x (take k xs)) = take k (put_after x xs)"
proof (induction xs arbitrary: k)
  case (Cons y ys)
  show ?case
  proof (cases k)
    case (Suc n)
    have "take n (y # take n ys) = take n (y # ys)" by (simp add: take_Cons')
    then show ?thesis using Suc Cons.IH [of n] by (cases "RTT y \<le> RTT x") (simp_all add: put_after_def)
  qed simp
qed simp

lemma length_put_after [simp]: "length (put_after x xs) = Suc (length xs)"
  by (induction xs) (simp_all add: put_after_def)

text \<open>The bound of a queue; none if it is not positive.\<close>

definition best :: "int \<Rightarrow> IPInfo list \<Rightarrow> IPInfo list" where
  "best k xs = (if k > 0 then take (nat k) xs else xs)"

section \<open>The contract of a ranking\<close>

text \<open>
  What the scanner relies on: adding an item places it after the items that are not slower and keeps
  the best \<open>k\<close>.
\<close>

locale ranking =
  fixes add :: "IPInfo \<Rightarrow> 'q \<Rightarrow> 'q" and items :: "'q \<Rightarrow> IPInfo list" and ok :: "'q \<Rightarrow> bool" and start :: 'q and k :: int
  assumes start_ok: "ok start" and start_items: "items start = []"
    and add_ok: "ok q \<Longrightarrow> ok (add x q)"
    and add_items: "ok q \<Longrightarrow> items (add x q) = best k (put_after x (items q))"
begin

lemma fold_ok: "ok (fold add xs start)"
  by (induction xs rule: rev_induct) (simp_all add: start_ok add_ok)

lemma fold_items: "items (fold add xs start) = best k (sort_key RTT xs)"
proof (induction xs rule: rev_induct)
  case Nil
  then show ?case by (simp add: start_items best_def)
next
  case (snoc x xs)
  then show ?case using add_items [OF fold_ok, of x xs] take_put_after [of "nat k" x "sort_key RTT xs"]
    by (simp add: best_def put_after_snoc)
qed

text \<open>The round-trip times do not depend on the order of the additions.\<close>

lemma fold_rtts:
  assumes "mset xs = mset ys"
  shows "map RTT (items (fold add xs start)) = map RTT (best k (sort_key RTT ys))"
proof -
  have "map RTT (sort_key RTT xs) = sort (map RTT xs)" for xs :: "IPInfo list"
    by (intro properties_for_sort [symmetric]) simp_all
  moreover have "sort (map RTT xs) = sort (map RTT ys)" using assms by (intro properties_for_sort) simp_all
  ultimately have "map RTT (sort_key RTT xs) = map RTT (sort_key RTT ys)" by simp
  then show ?thesis by (simp add: fold_items best_def) (metis take_map)
qed

lemma fold_subset: "set (items (fold add xs start)) \<subseteq> set xs"
  by (auto simp: fold_items best_def dest: in_set_takeD)

end

definition queue_ok :: "int \<Rightarrow> IPQueue \<Rightarrow> bool" where
  "queue_ok k q \<longleftrightarrow> maxQueueSize q = k \<and> by_rtt (queue q) \<and> (k > 0 \<longrightarrow> int (length (queue q)) \<le> k)"

lemma Enqueue_items:
  assumes "queue_ok k q"
  shows "queue (Enqueue x q) = best k (put_after x (queue q))"
proof -
  let ?xs = "queue q"
  let ?p = "length (takeWhile (\<lambda>y. RTT y \<le> RTT x) ?xs)"
  have p: "Search (length ?xs) (\<lambda>i. RTT (?xs ! i) > RTT x) = ?p" "?p \<le> length ?xs"
    using assms by (simp_all add: Search_sorted queue_ok_def length_takeWhile_le)
  have t: "take ?p ?xs = takeWhile (\<lambda>y. RTT y \<le> RTT x) ?xs" "drop ?p ?xs = dropWhile (\<lambda>y. RTT y \<le> RTT x) ?xs"
    by (rule takeWhile_eq_take [symmetric], rule dropWhile_eq_drop [symmetric])
  have s: "(put_at (?p + 1) (slice ?p (length ?xs) (?xs @ [z])) (?xs @ [z]))[?p := x] = put_after x ?xs" for z
  proof -
    have "slice ?p (length ?xs) (?xs @ [z]) = drop ?p ?xs" using p(2) by (simp add: slice_def)
    then have "put_at (?p + 1) (slice ?p (length ?xs) (?xs @ [z])) (?xs @ [z]) = take (?p + 1) (?xs @ [z]) @ drop ?p ?xs"
      using p(2) by (simp add: put_at_def)
    also have "\<dots> = take ?p ?xs @ ((?xs @ [z]) ! ?p) # drop ?p ?xs" using p(2) take_Suc_conv_app_nth [of ?p "?xs @ [z]"] by simp
    also have "\<dots>[?p := x] = take ?p ?xs @ x # drop ?p ?xs" using p(2) by (simp add: list_update_append)
    finally show ?thesis unfolding t by (simp add: put_after_def)
  qed
  show ?thesis unfolding Enqueue_def Let_def p(1) s using assms
    by (auto simp: queue_ok_def best_def nat_le_iff intro: arg_cong [where f = "\<lambda>n. take n (put_after x (queue q))"])
qed

lemma by_rtt_take: "by_rtt xs \<Longrightarrow> by_rtt (take n xs)"
  by (simp add: take_map [symmetric] sorted_wrt_take)

lemma Enqueue_size: "maxQueueSize (Enqueue x q) = maxQueueSize q"
  by (simp add: Enqueue_def Let_def)

lemma Enqueue_ok: "queue_ok k q \<Longrightarrow> queue_ok k (Enqueue x q)"
  using Enqueue_items [of k q x] put_after_sorted [of "queue q" x]
  by (auto simp: queue_ok_def best_def by_rtt_take Enqueue_size)

lemma NewIPQueue_ok: "queue_ok k (NewIPQueue k)"
  by (simp add: queue_ok_def NewIPQueue_def)

lemma NewIPQueue_empty: "queue (NewIPQueue k) = []"
  by (simp add: NewIPQueue_def)

interpretation rq: ranking Enqueue queue "queue_ok k" "NewIPQueue k" k for k
  by unfold_locales (simp_all add: NewIPQueue_ok NewIPQueue_empty Enqueue_items Enqueue_ok)

text \<open>After any sequence of additions the queue is the stably sorted list of the items, cut to the bound.\<close>

lemma queue_best: "queue (fold Enqueue xs (NewIPQueue k)) = best k (sort_key RTT xs)"
  by (rule rq.fold_items)

end
