(* ===== verification/Scan_Engine.thy ===== *)
theory Scan_Engine
  imports Ip_Queue
begin

text \<open>
  \<open>ipscanner/engine/engine.go\<close>: candidates flow through channels and pools of workers that filter them
  by ICMP and TCP pings and test them with a WARP ping; the answers are ranked. The goroutines are
  interleaved freely; a step is one action of one of them.
\<close>

section \<open>Candidates and filters\<close>

definition appendIfMissing :: "u16 list \<Rightarrow> u16 \<Rightarrow> u16 list" where
  "appendIfMissing xs v = (if v \<in> set xs then xs else xs @ [v])"

text \<open>The map of candidate ports, as a list with one entry per address.\<close>

fun add_port :: "Addr \<Rightarrow> u16 \<Rightarrow> (Addr \<times> u16 list) list \<Rightarrow> (Addr \<times> u16 list) list" where
  "add_port a p [] = [(a, [p])]"
| "add_port a p ((b, ps) # rest) = (if a = b then (b, appendIfMissing ps p) # rest else (b, ps) # add_port a p rest)"

text \<open>\<open>cidrIPs\<close> is what the generator gave, \<open>None\<close> if it failed.\<close>

definition candidatePorts :: "ScannerOptions \<Rightarrow> Addr list option \<Rightarrow> (Addr \<times> u16 list) list" where
  "candidatePorts opts cidrIPs =
     (let m = (case cidrIPs of None \<Rightarrow> [] | Some ips \<Rightarrow> fold (\<lambda>ip. add_port ip 0) ips [])
      in fold (\<lambda>(ip, port). add_port ip port) (CustomEndpoints opts) m)"

definition candidate_infos :: "(Addr \<times> u16 list) list \<Rightarrow> IPInfo list" where
  "candidate_infos m =
     concat (map (\<lambda>(ip, ports). map (\<lambda>p. zero_IPInfo\<lparr>ip_AddrPort := (ip, p)\<rparr>) (if ports = [] then [0] else ports)) m)"

text \<open>The pings of an address; \<open>None\<close> is an error. The TCP and WARP pings use the port of their options.\<close>

record Pings =
  pg_icmp :: "Addr \<Rightarrow> IPInfo option"
  pg_tcp :: "u16 \<Rightarrow> Addr \<Rightarrow> IPInfo option"
  pg_warp :: "u16 \<Rightarrow> Addr \<Rightarrow> IPInfo option"

definition icmp_filter :: "Pings \<Rightarrow> ScannerOptions \<Rightarrow> IPInfo \<Rightarrow> IPInfo option" where
  "icmp_filter G opts i =
     (if \<not> IcmpPing opts then Some i
      else case pg_icmp G (fst (ip_AddrPort i)) of
             Some info \<Rightarrow> if RTT info \<le> ICMPPingFilterRTT opts then Some (info\<lparr>ip_AddrPort := ip_AddrPort i\<rparr>) else None
           | None \<Rightarrow> None)"

definition tcp_filter :: "Pings \<Rightarrow> ScannerOptions \<Rightarrow> IPInfo \<Rightarrow> IPInfo option" where
  "tcp_filter G opts i =
     (if \<not> TcpPing opts then Some i
      else case pg_tcp G (TCPPingPort opts) (fst (ip_AddrPort i)) of
             Some info \<Rightarrow> if RTT info \<le> TCPPingFilterRTT opts then Some (info\<lparr>ip_AddrPort := ip_AddrPort i\<rparr>) else None
           | None \<Rightarrow> None)"

definition warp_ping :: "Pings \<Rightarrow> ScannerOptions \<Rightarrow> IPInfo \<Rightarrow> IPInfo option" where
  "warp_ping G opts i =
     (let port = (if snd (ip_AddrPort i) \<noteq> 0 then snd (ip_AddrPort i) else Port opts)
      in pg_warp G port (fst (ip_AddrPort i)))"

section \<open>The pipeline\<close>

record Chan =
  ch_items :: "IPInfo list"
  ch_closed :: bool

text \<open>The workers of a stage: waiting for input, with an item, with a result to send, returned.\<close>

record Stage =
  st_idle :: nat
  st_busy :: "IPInfo list"
  st_out :: "IPInfo list"
  st_gone :: nat

text \<open>\<open>runFilterStage\<close> with \<open>w\<close> workers, channels of capacity \<open>n\<close> and filter \<open>f\<close>; \<open>c\<close> tells whether the context is cancelled.\<close>

inductive stage_step ::
  "nat \<Rightarrow> nat \<Rightarrow> (IPInfo \<Rightarrow> IPInfo option) \<Rightarrow> bool \<Rightarrow> Chan \<times> Stage \<times> Chan \<Rightarrow> Chan \<times> Stage \<times> Chan \<Rightarrow> bool"
  for w n f c where
  Receive: "ch_items i = x # xs \<Longrightarrow> st_idle s = Suc k \<Longrightarrow>
    stage_step w n f c (i, s, out) (i\<lparr>ch_items := xs\<rparr>, s\<lparr>st_idle := k, st_busy := x # st_busy s\<rparr>, out)"
| Pass: "st_busy s = xs @ x # ys \<Longrightarrow> f x = Some r \<Longrightarrow>
    stage_step w n f c (i, s, out) (i, s\<lparr>st_busy := xs @ ys, st_out := r # st_out s\<rparr>, out)"
| Drop: "st_busy s = xs @ x # ys \<Longrightarrow> f x = None \<or> c \<Longrightarrow>
    stage_step w n f c (i, s, out) (i, s\<lparr>st_busy := xs @ ys, st_idle := Suc (st_idle s)\<rparr>, out)"
| Leave: "st_busy s = xs @ x # ys \<Longrightarrow> c \<Longrightarrow>
    stage_step w n f c (i, s, out) (i, s\<lparr>st_busy := xs @ ys, st_gone := Suc (st_gone s)\<rparr>, out)"
| Deliver: "st_out s = xs @ r # ys \<Longrightarrow> length (ch_items out) < n \<Longrightarrow>
    stage_step w n f c (i, s, out)
      (i, s\<lparr>st_out := xs @ ys, st_idle := Suc (st_idle s)\<rparr>, out\<lparr>ch_items := ch_items out @ [r]\<rparr>)"
| GiveUp: "st_out s = xs @ r # ys \<Longrightarrow> c \<Longrightarrow>
    stage_step w n f c (i, s, out) (i, s\<lparr>st_out := xs @ ys, st_gone := Suc (st_gone s)\<rparr>, out)"
| Exit: "st_idle s = Suc k \<Longrightarrow> ch_items i = [] \<Longrightarrow> ch_closed i \<Longrightarrow>
    stage_step w n f c (i, s, out) (i, s\<lparr>st_idle := k, st_gone := Suc (st_gone s)\<rparr>, out)"
| Finish: "st_gone s = w \<Longrightarrow> \<not> ch_closed out \<Longrightarrow>
    stage_step w n f c (i, s, out) (i, s, out\<lparr>ch_closed := True\<rparr>)"

record Pipe =
  p_gen :: "IPInfo list"
  p_c0 :: Chan
  p_s1 :: Stage
  p_c1 :: Chan
  p_s2 :: Stage
  p_c2 :: Chan
  p_s3 :: Stage
  p_queue :: IPQueue
  p_cancelled :: bool

text \<open>What a scan is given: the pings, the options and the number of workers of each filter stage.\<close>

definition icmp_workers :: "ScannerOptions \<Rightarrow> nat" where
  "icmp_workers opts = (if IcmpPing opts then ConcurrentScanners opts else 1)"

definition tcp_workers :: "ScannerOptions \<Rightarrow> nat" where
  "tcp_workers opts = (if TcpPing opts then ConcurrentScanners opts else 1)"

definition enough :: "ScannerOptions \<Rightarrow> IPQueue \<Rightarrow> bool" where
  "enough opts q = (StopOnFirstGoodIPs opts > 0 \<and> int (Size q) \<ge> StopOnFirstGoodIPs opts)"

inductive pipe_step :: "Pings \<Rightarrow> ScannerOptions \<Rightarrow> Pipe \<Rightarrow> Pipe \<Rightarrow> bool" for G opts where
  Generate: "p_gen s = x # xs \<Longrightarrow> \<not> ch_closed (p_c0 s) \<Longrightarrow> length (ch_items (p_c0 s)) < ConcurrentScanners opts \<Longrightarrow>
    pipe_step G opts s (s\<lparr>p_gen := xs, p_c0 := (p_c0 s)\<lparr>ch_items := ch_items (p_c0 s) @ [x]\<rparr>\<rparr>)"
| Generated: "p_gen s = [] \<or> p_cancelled s \<Longrightarrow> \<not> ch_closed (p_c0 s) \<Longrightarrow>
    pipe_step G opts s (s\<lparr>p_gen := [], p_c0 := (p_c0 s)\<lparr>ch_closed := True\<rparr>\<rparr>)"
| Icmp: "stage_step (icmp_workers opts) (ConcurrentScanners opts) (icmp_filter G opts) (p_cancelled s) (p_c0 s, p_s1 s, p_c1 s) (i, st, out) \<Longrightarrow>
    pipe_step G opts s (s\<lparr>p_c0 := i, p_s1 := st, p_c1 := out\<rparr>)"
| Tcp: "stage_step (tcp_workers opts) (ConcurrentScanners opts) (tcp_filter G opts) (p_cancelled s) (p_c1 s, p_s2 s, p_c2 s) (i, st, out) \<Longrightarrow>
    pipe_step G opts s (s\<lparr>p_c1 := i, p_s2 := st, p_c2 := out\<rparr>)"
| WarpReceive: "ch_items (p_c2 s) = x # xs \<Longrightarrow> st_idle (p_s3 s) = Suc k \<Longrightarrow>
    pipe_step G opts s (s\<lparr>p_c2 := (p_c2 s)\<lparr>ch_items := xs\<rparr>, p_s3 := (p_s3 s)\<lparr>st_idle := k, st_busy := x # st_busy (p_s3 s)\<rparr>\<rparr>)"
| WarpFound: "st_busy (p_s3 s) = xs @ x # ys \<Longrightarrow> warp_ping G opts x = Some r \<Longrightarrow>
    pipe_step G opts s (s\<lparr>p_s3 := (p_s3 s)\<lparr>st_busy := xs @ ys, st_idle := Suc (st_idle (p_s3 s))\<rparr>, p_queue := Enqueue r (p_queue s),
      p_cancelled := (p_cancelled s \<or> enough opts (Enqueue r (p_queue s)))\<rparr>)"
| WarpMissed: "st_busy (p_s3 s) = xs @ x # ys \<Longrightarrow> warp_ping G opts x = None \<or> p_cancelled s \<Longrightarrow>
    pipe_step G opts s (s\<lparr>p_s3 := (p_s3 s)\<lparr>st_busy := xs @ ys, st_idle := Suc (st_idle (p_s3 s))\<rparr>\<rparr>)"
| WarpLeave: "st_busy (p_s3 s) = xs @ x # ys \<Longrightarrow> p_cancelled s \<Longrightarrow>
    pipe_step G opts s (s\<lparr>p_s3 := (p_s3 s)\<lparr>st_busy := xs @ ys, st_gone := Suc (st_gone (p_s3 s))\<rparr>\<rparr>)"
| WarpExit: "st_idle (p_s3 s) = Suc k \<Longrightarrow> ch_items (p_c2 s) = [] \<Longrightarrow> ch_closed (p_c2 s) \<Longrightarrow>
    pipe_step G opts s (s\<lparr>p_s3 := (p_s3 s)\<lparr>st_idle := k, st_gone := Suc (st_gone (p_s3 s))\<rparr>\<rparr>)"

text \<open>The context of the caller can be cancelled at any time.\<close>

inductive scan_step :: "Pings \<Rightarrow> ScannerOptions \<Rightarrow> Pipe \<Rightarrow> Pipe \<Rightarrow> bool" for G opts where
  Act: "pipe_step G opts s s' \<Longrightarrow> scan_step G opts s s'"
| Cancel: "\<not> p_cancelled s \<Longrightarrow> scan_step G opts s (s\<lparr>p_cancelled := True\<rparr>)"

text \<open>The pipeline when \<open>Run\<close> has started all goroutines, and when \<open>masterWg.Wait\<close> returns.\<close>

definition pipe_start :: "ScannerOptions \<Rightarrow> IPInfo list \<Rightarrow> Pipe" where
  "pipe_start opts infos =
     (let chan = \<lparr>ch_items = [], ch_closed = False\<rparr>;
          stage = (\<lambda>w. \<lparr>st_idle = w, st_busy = [], st_out = [], st_gone = 0\<rparr>)
      in \<lparr>p_gen = infos, p_c0 = chan, p_s1 = stage (icmp_workers opts), p_c1 = chan, p_s2 = stage (tcp_workers opts),
          p_c2 = chan, p_s3 = stage (ConcurrentScanners opts), p_queue = NewIPQueue (IPQueueSize opts), p_cancelled = False\<rparr>)"

definition pipe_done :: "ScannerOptions \<Rightarrow> Pipe \<Rightarrow> bool" where
  "pipe_done opts s \<longleftrightarrow>
     ch_closed (p_c0 s) \<and> ch_closed (p_c1 s) \<and> ch_closed (p_c2 s) \<and> st_gone (p_s3 s) = ConcurrentScanners opts"

text \<open>
  The dedicated port scan tests each listed port of each address at once; \<open>answers\<close> are the answers in
  the order in which they arrive.
\<close>

definition port_tests :: "Pings \<Rightarrow> ScannerOptions \<Rightarrow> IPInfo list" where
  "port_tests G opts =
     concat (map (\<lambda>(ip, ports). List.map_filter (\<lambda>p. pg_warp G p ip) ports) (TestPortsForIPs opts))"

definition runPortScan :: "IPInfo list \<Rightarrow> IPQueue \<Rightarrow> IPQueue" where
  "runPortScan answers q = fold Enqueue answers q"

text \<open>
  The queues a scan can end with, and whether it was cancelled. The order in which the map of
  candidates is walked is any; the scan ends at once when there is no candidate.
\<close>

inductive Run :: "Pings \<Rightarrow> ScannerOptions \<Rightarrow> Addr list option \<Rightarrow> IPQueue \<Rightarrow> bool \<Rightarrow> bool" for G opts ips where
  Ports: "TestPortsForIPs opts \<noteq> [] \<Longrightarrow> mset answers \<subseteq># mset (port_tests G opts) \<Longrightarrow>
    \<not> c \<longrightarrow> mset answers = mset (port_tests G opts) \<Longrightarrow>
    Run G opts ips (runPortScan answers (NewIPQueue (IPQueueSize opts))) c"
| Empty: "TestPortsForIPs opts = [] \<Longrightarrow> candidate_infos (candidatePorts opts ips) = [] \<Longrightarrow>
    Run G opts ips (NewIPQueue (IPQueueSize opts)) c"
| Pipeline: "TestPortsForIPs opts = [] \<Longrightarrow> mset infos = mset (candidate_infos (candidatePorts opts ips)) \<Longrightarrow> infos \<noteq> [] \<Longrightarrow>
    (scan_step G opts)\<^sup>*\<^sup>* (pipe_start opts infos) s \<Longrightarrow> pipe_done opts s \<Longrightarrow> Run G opts ips (p_queue s) (p_cancelled s)"

end
