(* ===== verification/Scan_Lemmas.thy ===== *)
theory Scan_Lemmas
  imports Scan_Engine
begin

text \<open>
  Whatever the schedule, a scan comes to an end, and unless it is cancelled its result is the ranking
  of the answers to all candidates that pass the filters.
\<close>

section \<open>One stage\<close>

text \<open>What the items on their way through a stage will contribute, if an output \<open>y\<close> contributes \<open>R y\<close>.\<close>

definition through :: "(IPInfo \<Rightarrow> IPInfo option) \<Rightarrow> (IPInfo \<Rightarrow> IPInfo multiset) \<Rightarrow> IPInfo \<Rightarrow> IPInfo multiset" where
  "through f R x = (case f x of None \<Rightarrow> {#} | Some y \<Rightarrow> R y)"

definition total_of :: "(IPInfo \<Rightarrow> IPInfo multiset) \<Rightarrow> IPInfo list \<Rightarrow> IPInfo multiset" where
  "total_of R xs = (\<Sum>x\<leftarrow>xs. R x)"

lemma total_of_simps [simp]:
  "total_of R [] = {#}" "total_of R (x # xs) = R x + total_of R xs" "total_of R (xs @ ys) = total_of R xs + total_of R ys"
  by (simp_all add: total_of_def)

lemma total_of_mset: "mset xs = mset ys \<Longrightarrow> total_of R xs = total_of R ys"
  by (simp add: total_of_def) (metis mset_map sum_mset_sum_list)

lemma stage_conserve:
  assumes "stage_step w n f c (i, s, out) (i', s', out')"
  shows "\<exists>d. total_of (through f R) (ch_items i @ st_busy s) + total_of R (st_out s @ ch_items out) =
      total_of (through f R) (ch_items i' @ st_busy s') + total_of R (st_out s' @ ch_items out') + d \<and> (\<not> c \<longrightarrow> d = {#})"
  using assms
proof (cases rule: stage_step.cases)
  case (Drop xs x ys)
  then show ?thesis by (intro exI [of _ "through f R x"]) (auto simp: through_def)
next
  case (Leave xs x ys)
  then show ?thesis by (intro exI [of _ "through f R x"]) simp
next
  case (GiveUp xs r ys)
  then show ?thesis by (intro exI [of _ "R r"]) simp
qed (auto simp: through_def)

definition stage_ok :: "nat \<Rightarrow> bool \<Rightarrow> Chan \<Rightarrow> Stage \<Rightarrow> Chan \<Rightarrow> bool" where
  "stage_ok w c i s out \<longleftrightarrow>
     st_idle s + length (st_busy s) + length (st_out s) + st_gone s = w \<and> (ch_closed out \<longrightarrow> st_gone s = w) \<and>
     (\<not> c \<and> st_gone s > 0 \<longrightarrow> ch_items i = [] \<and> ch_closed i)"

lemma stage_ok_step:
  assumes "stage_step w n f c (i, s, out) (i', s', out')" "stage_ok w c i s out"
  shows "stage_ok w c i' s' out'" "ch_closed i' = ch_closed i" "ch_items i = [] \<Longrightarrow> ch_items i' = []"
    "ch_closed out \<Longrightarrow> out' = out"
  using assms by (cases rule: stage_step.cases; auto simp: stage_ok_def)+

text \<open>The weight of the items in a stage, from \<open>z\<close> at its exit, and of the workers that wait.\<close>

definition stage_weight :: "nat \<Rightarrow> Chan \<Rightarrow> Stage \<Rightarrow> Chan \<Rightarrow> nat" where
  "stage_weight z i s out =
     (z + 6) * length (ch_items i) + (z + 4) * length (st_busy s) + (z + 2) * length (st_out s) + z * length (ch_items out) +
     st_idle s + of_bool (\<not> ch_closed out)"

lemma stage_weight_step:
  assumes "stage_step w n f c (i, s, out) (i', s', out')"
  shows "stage_weight z i' s' out' < stage_weight z i s out"
  using assms by (cases rule: stage_step.cases) (auto simp: stage_weight_def algebra_simps)

lemma stage_input_closed:
  assumes "stage_step w n f c (i, s, out) (i', s', out')"
  shows "ch_closed i' = ch_closed i"
  using assms by (cases rule: stage_step.cases) auto

text \<open>A stage that cannot move has nothing left to do, unless its output is full.\<close>

lemma stage_stuck:
  assumes "\<not> (\<exists>i' s' out'. stage_step w n f c (i, s, out) (i', s', out'))" "stage_ok w c i s out"
    "length (ch_items out) < n \<or> c"
  shows "st_busy s = []" "st_out s = []" "ch_closed i \<Longrightarrow> st_gone s = w \<and> ch_closed out" "ch_items i \<noteq> [] \<Longrightarrow> st_gone s = w"
proof -
  show b: "st_busy s = []"
  proof (rule ccontr)
    assume "st_busy s \<noteq> []"
    then obtain x ys where "st_busy s = [] @ x # ys" by (cases "st_busy s") auto
    then show False using assms(1) Pass [of s "[]" x ys f] Drop [of s "[]" x ys f c] by (cases "f x") blast+
  qed
  show o: "st_out s = []"
  proof (rule ccontr)
    assume "st_out s \<noteq> []"
    then obtain x ys where "st_out s = [] @ x # ys" by (cases "st_out s") auto
    then show False using assms(1,3) Deliver [of s "[]" x ys out n] GiveUp [of s "[]" x ys c] by blast
  qed
  have idle: "st_idle s = 0" if "ch_closed i \<or> ch_items i \<noteq> []"
  proof (rule ccontr)
    assume "st_idle s \<noteq> 0"
    then obtain k where k: "st_idle s = Suc k" using not0_implies_Suc by blast
    show False
    proof (cases "ch_items i")
      case Nil
      then show False using Exit [OF k Nil] that assms(1) by blast
    next
      case (Cons x xs)
      then show False using Receive [OF Cons k] assms(1) by blast
    qed
  qed
  have gone: "st_gone s = w" if "ch_closed i \<or> ch_items i \<noteq> []"
    using assms(2) idle [OF that] b o by (simp add: stage_ok_def)
  then show "ch_items i \<noteq> [] \<Longrightarrow> st_gone s = w" by blast
  show "st_gone s = w \<and> ch_closed out" if "ch_closed i"
    using gone that Finish [of s w out] assms(1) by blast
qed

section \<open>The pipeline\<close>

text \<open>The answers to a list of candidates.\<close>

definition answers_to :: "Pings \<Rightarrow> ScannerOptions \<Rightarrow> IPInfo list \<Rightarrow> IPInfo list" where
  "answers_to G opts xs =
     List.map_filter (warp_ping G opts) (List.map_filter (tcp_filter G opts) (List.map_filter (icmp_filter G opts) xs))"

abbreviation warp_yield :: "Pings \<Rightarrow> ScannerOptions \<Rightarrow> IPInfo \<Rightarrow> IPInfo multiset" where
  "warp_yield G opts \<equiv> through (warp_ping G opts) (\<lambda>r. {#r#})"

abbreviation tcp_yield :: "Pings \<Rightarrow> ScannerOptions \<Rightarrow> IPInfo \<Rightarrow> IPInfo multiset" where
  "tcp_yield G opts \<equiv> through (tcp_filter G opts) (warp_yield G opts)"

abbreviation icmp_yield :: "Pings \<Rightarrow> ScannerOptions \<Rightarrow> IPInfo \<Rightarrow> IPInfo multiset" where
  "icmp_yield G opts \<equiv> through (icmp_filter G opts) (tcp_yield G opts)"

lemma mset_map_filter: "total_of R (List.map_filter f xs) = total_of (through f R) xs"
  by (induction xs) (auto simp: List.map_filter_simps through_def split: option.split)

lemma answers_yield: "mset (answers_to G opts xs) = total_of (icmp_yield G opts) xs"
proof -
  have "mset ys = total_of (\<lambda>r. {#r#}) ys" for ys :: "IPInfo list" by (induction ys) simp_all
  then show ?thesis by (simp add: answers_to_def mset_map_filter)
qed

definition in_pipe :: "Pings \<Rightarrow> ScannerOptions \<Rightarrow> Pipe \<Rightarrow> IPInfo multiset" where
  "in_pipe G opts s =
     total_of (icmp_yield G opts) (p_gen s @ ch_items (p_c0 s) @ st_busy (p_s1 s)) +
     total_of (tcp_yield G opts) (st_out (p_s1 s) @ ch_items (p_c1 s) @ st_busy (p_s2 s)) +
     total_of (warp_yield G opts) (st_out (p_s2 s) @ ch_items (p_c2 s) @ st_busy (p_s3 s))"

definition warp_ok :: "ScannerOptions \<Rightarrow> Pipe \<Rightarrow> bool" where
  "warp_ok opts s \<longleftrightarrow> st_idle (p_s3 s) + length (st_busy (p_s3 s)) + st_gone (p_s3 s) = ConcurrentScanners opts \<and>
     (\<not> p_cancelled s \<and> st_gone (p_s3 s) > 0 \<longrightarrow> ch_items (p_c2 s) = [] \<and> ch_closed (p_c2 s))"

definition pipe_ok :: "ScannerOptions \<Rightarrow> Pipe \<Rightarrow> bool" where
  "pipe_ok opts s \<longleftrightarrow>
     (ch_closed (p_c0 s) \<and> \<not> p_cancelled s \<longrightarrow> p_gen s = []) \<and>
     stage_ok (icmp_workers opts) (p_cancelled s) (p_c0 s) (p_s1 s) (p_c1 s) \<and>
     stage_ok (tcp_workers opts) (p_cancelled s) (p_c1 s) (p_s2 s) (p_c2 s) \<and> warp_ok opts s"

definition pipe_weight :: "Pipe \<Rightarrow> nat" where
  "pipe_weight s =
     24 * length (p_gen s) + of_bool (\<not> ch_closed (p_c0 s)) + stage_weight 12 (p_c0 s) (p_s1 s) (p_c1 s) +
     (10 * length (st_busy (p_s2 s)) + 8 * length (st_out (p_s2 s)) + 6 * length (ch_items (p_c2 s)) + st_idle (p_s2 s) + of_bool (\<not> ch_closed (p_c2 s))) +
     4 * length (st_busy (p_s3 s)) + st_idle (p_s3 s) + of_bool (\<not> p_cancelled s)"

lemma stage_ok_input:
  assumes "stage_ok w c i s out" "\<not> ch_closed i \<or> ch_closed i' \<and> (ch_items i = [] \<longrightarrow> ch_items i' = [])"
  shows "stage_ok w c i' s out"
  using assms by (auto simp: stage_ok_def)

lemma pipe_weight_step:
  assumes "pipe_step G opts s s'"
  shows "pipe_weight s' < pipe_weight s"
  using assms
proof (cases rule: pipe_step.cases)
  case (Icmp i st out)
  then show ?thesis using stage_weight_step [OF Icmp(2), of 12] stage_input_closed [OF Icmp(2)] by (simp add: pipe_weight_def stage_weight_def)
next
  case (Tcp i st out)
  then show ?thesis using stage_weight_step [OF Tcp(2), of 6] stage_input_closed [OF Tcp(2)] by (simp add: pipe_weight_def stage_weight_def)
qed (auto simp: pipe_weight_def stage_weight_def)

lemma stage_ok_cancel: "stage_ok w c i s out \<Longrightarrow> stage_ok w (c \<or> b) i s out"
  by (auto simp: stage_ok_def)

lemma stage_ok_output: "stage_ok w c i s out \<Longrightarrow> ch_closed out' = ch_closed out \<Longrightarrow> stage_ok w c i s out'"
  by (auto simp: stage_ok_def)

lemma pipe_ok_step:
  assumes "pipe_step G opts s s'" "pipe_ok opts s"
  shows "pipe_ok opts s'"
  using assms(1)
proof (cases rule: pipe_step.cases)
  case (Icmp i st out)
  have ok: "stage_ok (icmp_workers opts) (p_cancelled s) (p_c0 s) (p_s1 s) (p_c1 s)"
    "stage_ok (tcp_workers opts) (p_cancelled s) (p_c1 s) (p_s2 s) (p_c2 s)" using assms(2) by (simp_all add: pipe_ok_def)
  note st = stage_ok_step [OF Icmp(2) ok(1)]
  have "stage_ok (tcp_workers opts) (p_cancelled s) out (p_s2 s) (p_c2 s)" by (rule stage_ok_input [OF ok(2)]) (use st(4) in auto)
  then show ?thesis using Icmp(1) st assms(2) by (auto simp: pipe_ok_def warp_ok_def)
next
  case (Tcp i st out)
  have ok: "stage_ok (icmp_workers opts) (p_cancelled s) (p_c0 s) (p_s1 s) (p_c1 s)"
    "stage_ok (tcp_workers opts) (p_cancelled s) (p_c1 s) (p_s2 s) (p_c2 s)" "warp_ok opts s" using assms(2) by (simp_all add: pipe_ok_def)
  note st = stage_ok_step [OF Tcp(2) ok(2)]
  have "warp_ok opts s'" using ok(3) st(4) unfolding Tcp(1) warp_ok_def by auto
  then show ?thesis using Tcp(1) st stage_ok_output [OF ok(1) st(2)] assms(2) by (auto simp: pipe_ok_def)
qed (use assms(2) in \<open>auto simp: pipe_ok_def warp_ok_def stage_ok_def\<close>)

text \<open>What has been found and what is still on its way make up all answers, less what cancelling drops.\<close>

definition accounted :: "Pings \<Rightarrow> ScannerOptions \<Rightarrow> IPInfo list \<Rightarrow> Pipe \<Rightarrow> bool" where
  "accounted G opts infos s \<longleftrightarrow>
     (\<exists>found d. p_queue s = fold Enqueue found (NewIPQueue (IPQueueSize opts)) \<and>
        mset (answers_to G opts infos) = mset found + in_pipe G opts s + d \<and> (\<not> p_cancelled s \<longrightarrow> d = {#}))"

lemma accounted_same:
  assumes "accounted G opts infos s" "in_pipe G opts s = in_pipe G opts s' + d" "p_cancelled s \<or> d = {#}"
    "p_queue s' = p_queue s" "p_cancelled s \<longrightarrow> p_cancelled s'"
  shows "accounted G opts infos s'"
proof -
  obtain found e where "p_queue s = fold Enqueue found (NewIPQueue (IPQueueSize opts))"
    "mset (answers_to G opts infos) = mset found + in_pipe G opts s + e" "\<not> p_cancelled s \<longrightarrow> e = {#}"
    using assms(1) by (auto simp: accounted_def)
  then show ?thesis using assms(2-5) unfolding accounted_def
    by (intro exI [of _ found] exI [of _ "d + e"]) (auto simp: ac_simps)
qed

lemma accounted_step:
  assumes "pipe_step G opts s s'" "accounted G opts infos s" "pipe_ok opts s"
  shows "accounted G opts infos s'"
  using assms(1)
proof (cases rule: pipe_step.cases)
  case (Generate x xs)
  then show ?thesis by (intro accounted_same [OF assms(2), where d = "{#}"]) (auto simp: in_pipe_def)
next
  case Generated
  show ?thesis
    by (rule accounted_same [OF assms(2), where d = "total_of (icmp_yield G opts) (p_gen s)"])
      (use Generated in \<open>auto simp: in_pipe_def ac_simps\<close>)
next
  case (Icmp i st out)
  obtain d where d: "total_of (icmp_yield G opts) (ch_items (p_c0 s) @ st_busy (p_s1 s)) + total_of (tcp_yield G opts) (st_out (p_s1 s) @ ch_items (p_c1 s)) =
      total_of (icmp_yield G opts) (ch_items i @ st_busy st) + total_of (tcp_yield G opts) (st_out st @ ch_items out) + d" "\<not> p_cancelled s \<longrightarrow> d = {#}"
    using stage_conserve [OF Icmp(2), of "tcp_yield G opts"] by blast
  show ?thesis by (rule accounted_same [OF assms(2), where d = d]) (use Icmp(1) d in \<open>auto simp: in_pipe_def ac_simps\<close>)
next
  case (Tcp i st out)
  obtain d where d: "total_of (tcp_yield G opts) (ch_items (p_c1 s) @ st_busy (p_s2 s)) + total_of (warp_yield G opts) (st_out (p_s2 s) @ ch_items (p_c2 s)) =
      total_of (tcp_yield G opts) (ch_items i @ st_busy st) + total_of (warp_yield G opts) (st_out st @ ch_items out) + d" "\<not> p_cancelled s \<longrightarrow> d = {#}"
    using stage_conserve [OF Tcp(2), of "warp_yield G opts"] by blast
  show ?thesis by (rule accounted_same [OF assms(2), where d = d]) (use Tcp(1) d in \<open>auto simp: in_pipe_def ac_simps\<close>)
next
  case (WarpFound xs x ys r)
  obtain found e where "p_queue s = fold Enqueue found (NewIPQueue (IPQueueSize opts))"
    "mset (answers_to G opts infos) = mset found + in_pipe G opts s + e" "\<not> p_cancelled s \<longrightarrow> e = {#}"
    using assms(2) by (auto simp: accounted_def)
  then show ?thesis using WarpFound unfolding accounted_def
    by (intro exI [of _ "found @ [r]"] exI [of _ e]) (auto simp: in_pipe_def through_def ac_simps)
next
  case (WarpReceive x xs k)
  then show ?thesis by (intro accounted_same [OF assms(2), where d = "{#}"]) (auto simp: in_pipe_def)
next
  case (WarpMissed xs x ys)
  then show ?thesis by (intro accounted_same [OF assms(2), where d = "warp_yield G opts x"]) (auto simp: in_pipe_def through_def ac_simps)
next
  case (WarpLeave xs x ys)
  then show ?thesis by (intro accounted_same [OF assms(2), where d = "warp_yield G opts x"]) (auto simp: in_pipe_def ac_simps)
next
  case (WarpExit k)
  then show ?thesis by (intro accounted_same [OF assms(2), where d = "{#}"]) (auto simp: in_pipe_def)
qed

lemma scan_step_keeps:
  assumes "scan_step G opts s s'" "pipe_ok opts s \<and> accounted G opts infos s"
  shows "(pipe_ok opts s' \<and> accounted G opts infos s') \<and> pipe_weight s' < pipe_weight s"
  using assms(1)
proof (cases rule: scan_step.cases)
  case Act
  then show ?thesis using assms(2) pipe_ok_step accounted_step pipe_weight_step by blast
next
  case Cancel
  have "accounted G opts infos s'"
    by (rule accounted_same [where s = s and d = "{#}"]) (use Cancel assms(2) in \<open>auto simp: in_pipe_def\<close>)
  then show ?thesis using Cancel assms(2) by (auto simp: pipe_ok_def warp_ok_def stage_ok_def pipe_weight_def stage_weight_def)
qed

lemma pipe_start_ok: "pipe_ok opts (pipe_start opts infos) \<and> accounted G opts infos (pipe_start opts infos)"
proof -
  have "accounted G opts infos (pipe_start opts infos)"
    unfolding accounted_def by (intro exI [of _ "[]"] exI [of _ "{#}"]) (simp add: pipe_start_def in_pipe_def answers_yield Let_def)
  then show ?thesis by (simp add: pipe_start_def pipe_ok_def warp_ok_def stage_ok_def Let_def)
qed

lemma scan_reachable:
  assumes "(scan_step G opts)\<^sup>*\<^sup>* (pipe_start opts infos) s"
  shows "pipe_ok opts s \<and> accounted G opts infos s"
  using assms by (induction rule: rtranclp_induct) (use pipe_start_ok scan_step_keeps in blast)+

lemma pipe_progress:
  assumes "pipe_ok opts s" "0 < ConcurrentScanners opts" "\<not> pipe_done opts s"
  shows "\<exists>s'. pipe_step G opts s s'"
proof (rule ccontr)
  assume stuck: "\<not> (\<exists>s'. pipe_step G opts s s')"
  let ?n = "ConcurrentScanners opts" and ?c = "p_cancelled s"
  have ok: "stage_ok (icmp_workers opts) ?c (p_c0 s) (p_s1 s) (p_c1 s)" "stage_ok (tcp_workers opts) ?c (p_c1 s) (p_s2 s) (p_c2 s)"
    "warp_ok opts s" "ch_closed (p_c0 s) \<and> \<not> ?c \<longrightarrow> p_gen s = []" using assms(1) by (auto simp: pipe_ok_def)
  have pos: "0 < icmp_workers opts" "0 < tcp_workers opts" using assms(2) by (simp_all add: icmp_workers_def tcp_workers_def)
  have s1: "\<not> (\<exists>i st out. stage_step (icmp_workers opts) ?n (icmp_filter G opts) ?c (p_c0 s, p_s1 s, p_c1 s) (i, st, out))"
    and s2: "\<not> (\<exists>i st out. stage_step (tcp_workers opts) ?n (tcp_filter G opts) ?c (p_c1 s, p_s2 s, p_c2 s) (i, st, out))"
    using stuck Icmp Tcp by blast+
  have busy3: "st_busy (p_s3 s) = []"
  proof (rule ccontr)
    assume "st_busy (p_s3 s) \<noteq> []"
    then obtain x ys where "st_busy (p_s3 s) = [] @ x # ys" by (cases "st_busy (p_s3 s)") auto
    then show False using stuck WarpFound [of s "[]" x ys G opts] WarpMissed [of s "[]" x ys G opts] by (cases "warp_ping G opts x") blast+
  qed
  have idle3: "st_idle (p_s3 s) = 0" if "ch_items (p_c2 s) \<noteq> [] \<or> ch_closed (p_c2 s)"
    using that stuck WarpReceive [of s] WarpExit [of s] by (cases "st_idle (p_s3 s)"; cases "ch_items (p_c2 s)") blast+
  then have gone3: "st_gone (p_s3 s) = ?n" if "ch_items (p_c2 s) \<noteq> [] \<or> ch_closed (p_c2 s)" using that ok(3) busy3 by (simp add: warp_ok_def)
  have room2: "length (ch_items (p_c2 s)) < ?n \<or> ?c" using gone3 ok(3) assms(2) by (cases "ch_items (p_c2 s)") (auto simp: warp_ok_def)
  note t2 = stage_stuck [OF s2 ok(2) room2]
  have room1: "length (ch_items (p_c1 s)) < ?n \<or> ?c" using t2(4) ok(2) pos assms(2) by (cases "ch_items (p_c1 s)") (auto simp: stage_ok_def)
  note t1 = stage_stuck [OF s1 ok(1) room1]
  have room0: "length (ch_items (p_c0 s)) < ?n \<or> ?c" using t1(4) ok(1) pos assms(2) by (cases "ch_items (p_c0 s)") (auto simp: stage_ok_def)
  have "ch_closed (p_c0 s)"
    using stuck room0 Generate [of s] Generated [of s G opts] by (cases "p_gen s") blast+
  then show False using t1(3) t2(3) gone3 assms(3) by (simp add: pipe_done_def)
qed

lemma pipe_finish:
  assumes "pipe_ok opts s" "0 < ConcurrentScanners opts"
  shows "\<exists>s'. (pipe_step G opts)\<^sup>*\<^sup>* s s' \<and> pipe_done opts s'"
  using assms(1)
proof (induction "pipe_weight s" arbitrary: s rule: less_induct)
  case less
  show ?case
  proof (cases "pipe_done opts s")
    case False
    then obtain s1 where s1: "pipe_step G opts s s1" using pipe_progress [OF less.prems assms(2)] by blast
    then show ?thesis using less.hyps [OF pipe_weight_step [OF s1] pipe_ok_step [OF s1 less.prems]]
      by (meson converse_rtranclp_into_rtranclp)
  qed blast
qed

lemma done_empty:
  assumes "pipe_ok opts s" "pipe_done opts s" "\<not> p_cancelled s" "0 < ConcurrentScanners opts"
  shows "in_pipe G opts s = {#}"
proof -
  have "0 < icmp_workers opts" "0 < tcp_workers opts" using assms(4) by (simp_all add: icmp_workers_def tcp_workers_def)
  then show ?thesis using assms by (auto simp: pipe_ok_def pipe_done_def stage_ok_def warp_ok_def in_pipe_def)
qed

text \<open>C34: With at least one worker per stage a scan cannot deadlock and ends under every schedule: while it is
  not done some goroutine can act, each action and the cancellation make progress, so no schedule goes
  on forever, and from every state that can be reached the goroutines alone can bring it to its end.\<close>

theorem scan_ends:
  assumes "0 < ConcurrentScanners opts" "(scan_step G opts)\<^sup>*\<^sup>* (pipe_start opts infos) s"
  shows "(\<not> pipe_done opts s \<longrightarrow> (\<exists>s'. pipe_step G opts s s')) \<and> (\<forall>s'. scan_step G opts s s' \<longrightarrow> pipe_weight s' < pipe_weight s) \<and>
    (\<exists>s'. (pipe_step G opts)\<^sup>*\<^sup>* s s' \<and> pipe_done opts s')"
  using scan_reachable [OF assms(2)] pipe_progress [OF _ assms(1)] scan_step_keeps pipe_finish [OF _ assms(1)] by blast

definition example_opts :: ScannerOptions where
  "example_opts =
     \<lparr>UseIPv4 = True, UseIPv6 = False, CidrList = [], CustomEndpoints = [(Addr4 [162, 159, 192, 1], 2408)],
      TestPortsForIPs = [(Addr4 [162, 159, 192, 1], [2408, 500, 1701])], Port = 0, DefaultScanPorts = [2408], MasqueScanPorts = [],
      IcmpPing = True, TcpPing = False, TCPPingPort = 443, BucketSize = 5, ICMPPingFilterRTT = 300, TCPPingFilterRTT = 300,
      IPQueueSize = 2, ConcurrentScanners = 3, StopOnFirstGoodIPs = 0\<rparr>"

definition example_answer :: "u16 \<Rightarrow> Addr \<Rightarrow> IPInfo" where
  "example_answer p a = \<lparr>ip_AddrPort = (a, p), RTT = (if p = 500 then 10 else if p = 2408 then 20 else 30), CreatedAt = 0\<rparr>"

definition example_pings :: Pings where
  "example_pings = \<lparr>pg_icmp = (\<lambda>a. None), pg_tcp = (\<lambda>p a. None), pg_warp = (\<lambda>p a. Some (example_answer p a))\<rparr>"

theorem scan_ends_witness:
  "\<exists>s'. (pipe_step example_pings example_opts)\<^sup>*\<^sup>* (pipe_start example_opts [zero_IPInfo]) s' \<and> pipe_done example_opts s'"
  using scan_ends [of example_opts example_pings "[zero_IPInfo]" "pipe_start example_opts [zero_IPInfo]"] by (simp add: example_opts_def)

definition scan_answers :: "Pings \<Rightarrow> ScannerOptions \<Rightarrow> Addr list option \<Rightarrow> IPInfo list" where
  "scan_answers G opts ips =
     (if TestPortsForIPs opts = [] then answers_to G opts (candidate_infos (candidatePorts opts ips)) else port_tests G opts)"

lemma found_ranking:
  assumes "mset found \<subseteq># mset xs"
  shows "set (queue (fold Enqueue found (NewIPQueue k))) \<subseteq> set xs"
    "mset found = mset xs \<Longrightarrow> map RTT (queue (fold Enqueue found (NewIPQueue k))) = map RTT (best k (sort_key RTT xs))"
  using rq.fold_subset [of found k] set_mset_mono [OF assms] rq.fold_rtts [of found xs k] by auto



end
