(* ===== verification/Ip_Iterator.thy ===== *)
theory Ip_Iterator
  imports Go_Netip Ip_Queue Go_Text "HOL-Library.Monad_Syntax"
begin

text \<open>
  \<open>ipscanner/iterator/iterator.go\<close> and \<open>iputils/iputils.go\<close>: the choice of candidate addresses from
  address ranges. Big integers are integers; the \<open>k\<close>-th draw of \<open>rand.Int\<close> below a bound is a
  parameter, \<open>None\<close> where it fails. An outer \<open>None\<close> is a panic, or a loop that does not return.
\<close>

type_synonym draws = "nat \<Rightarrow> int \<Rightarrow> int option"

section \<open>The linear congruential generator\<close>

record LCG =
  modulus :: int
  multiplier :: int
  increment :: int
  current :: int

definition checkHullDobell :: "int \<Rightarrow> int \<Rightarrow> int \<Rightarrow> bool" where
  "checkHullDobell m a c =
     (gcd c m = 1 \<and> (and m 3 = 0 \<longrightarrow> and (a - 1) 3 = 0))"

partial_function (option) NewLCG_from :: "draws \<Rightarrow> nat \<Rightarrow> int \<Rightarrow> (LCG \<times> nat) option" where
  "NewLCG_from rnd k m =
     (case rnd k m of
        None \<Rightarrow> NewLCG_from rnd (k + 1) m
      | Some a \<Rightarrow>
          (case rnd (k + 1) m of
             None \<Rightarrow> NewLCG_from rnd (k + 2) m
           | Some c \<Rightarrow>
               if checkHullDobell m a c
               then Some (\<lparr>modulus = m, multiplier = a, increment = c, current = 0\<rparr>, k + 2)
               else NewLCG_from rnd (k + 2) m))"

definition NewLCG :: "draws \<Rightarrow> nat \<Rightarrow> int \<Rightarrow> (LCG \<times> nat) option" where
  "NewLCG rnd k m = NewLCG_from rnd k m"

definition Next :: "LCG \<Rightarrow> int option \<times> LCG" where
  "Next l =
     (if current l = modulus l then (None, l)
      else let n = (multiplier l * current l + increment l) mod modulus l in (Some n, l\<lparr>current := n\<rparr>))"

section \<open>Ranges\<close>

record ipRange =
  r_prefix :: Prefix
  r_lcg :: "LCG option"
  r_start :: Addr
  r_stop :: Addr
  r_size :: int

definition lastIP :: "Prefix \<Rightarrow> Addr" where
  "lastIP p =
     (let fillBits = (if Is4 (pAddr p) then 32 else 128) - pBits p;
          n = fold set_bit [0..<fillBits] (be_nat (AsSlice (pAddr p)))
      in if Is4 (pAddr p) then Addr4 (be_bytes 4 n) else Addr6 (be_bytes 16 n))"

definition addIP :: "Addr \<Rightarrow> int \<Rightarrow> Addr option" where
  "addIP ip num =
     (let n = int (be_nat (As16 ip)) + num
      in if \<bar>n\<bar> \<ge> 2 ^ 128 then None else Some (addr_at (nat \<bar>n\<bar>)))"

text \<open>\<open>Bits\<close> is -1 for a prefix made with more bits than the address has.\<close>

definition ipRangeSize :: "Prefix \<Rightarrow> int" where
  "ipRangeSize p =
     (let totalBits = (if Is4 (pAddr p) then 32 else 128)
      in if pBits p > totalBits then 2 ^ (totalBits + 1) else 2 ^ (totalBits - pBits p))"

definition newIPRange :: "draws \<Rightarrow> nat \<Rightarrow> Prefix \<Rightarrow> (ipRange \<times> nat) option" where
  "newIPRange rnd k cidr =
     do {
       (l, k1) \<leftarrow> NewLCG rnd k (ipRangeSize cidr);
       Some (\<lparr>r_prefix = cidr, r_lcg = Some l, r_start = pAddr cidr, r_stop = lastIP cidr, r_size = ipRangeSize cidr\<rparr>, k1)
     }"

definition subnet_range :: "Prefix \<Rightarrow> ipRange" where
  "subnet_range p =
     \<lparr>r_prefix = \<lparr>pAddr = AddrZero, pBits = 0\<rparr>, r_lcg = None, r_start = pAddr p, r_stop = AddrZero, r_size = ipRangeSize p\<rparr>"

section \<open>Sampling a range\<close>

definition maxRetries :: nat where
  "maxRetries = 10"

definition endpoint_ok :: "Addr \<Rightarrow> bool" where
  "endpoint_ok a = (case a of Addr4 b \<Rightarrow> b ! 3 \<noteq> 0 \<and> b ! 3 \<noteq> 255 | _ \<Rightarrow> True)"

text \<open>Up to \<open>n\<close> attempts at an address of a segment; \<open>Inl ()\<close> is a failed draw.\<close>

fun draw_ip :: "draws \<Rightarrow> Addr \<Rightarrow> int \<Rightarrow> int \<Rightarrow> nat \<Rightarrow> nat \<Rightarrow> ((unit + Addr option) \<times> nat) option" where
  "draw_ip rnd start segStart segSize 0 k = Some (Inr None, k)"
| "draw_ip rnd start segStart segSize (Suc n) k =
     (case rnd k segSize of
        None \<Rightarrow> Some (Inl (), k + 1)
      | Some offset \<Rightarrow> do {
          ip \<leftarrow> addIP start (segStart + offset);
          (if endpoint_ok ip then Some (Inr (Some ip), k + 1) else draw_ip rnd start segStart segSize n (k + 1))
        })"

text \<open>The segments from the \<open>i\<close>-th on, \<open>n\<close> of them.\<close>

fun draw_segments :: "draws \<Rightarrow> ipRange \<Rightarrow> int \<Rightarrow> int \<Rightarrow> nat \<Rightarrow> nat \<Rightarrow> nat \<Rightarrow> Addr list \<Rightarrow> ((unit + Addr list) \<times> nat) option" where
  "draw_segments rnd r cnt segmentSize i 0 k ips = Some (Inr ips, k)"
| "draw_segments rnd r cnt segmentSize i (Suc n) k ips =
     (let segStart = int i * segmentSize;
          segEnd = (if int i = cnt - 1 then r_size r else segStart + segmentSize);
          currentSegmentSize = segEnd - segStart
      in if currentSegmentSize \<le> 0 then draw_segments rnd r cnt segmentSize (Suc i) n k ips
         else do {
           (res, k1) \<leftarrow> draw_ip rnd (r_start r) segStart currentSegmentSize maxRetries k;
           (case res of
              Inl e \<Rightarrow> Some (Inl e, k1)
            | Inr found \<Rightarrow>
                draw_segments rnd r cnt segmentSize (Suc i) n k1 (case found of None \<Rightarrow> ips | Some ip \<Rightarrow> ips @ [ip]))
         })"

definition generateIPsFromRange :: "draws \<Rightarrow> ipRange \<Rightarrow> int \<Rightarrow> nat \<Rightarrow> ((unit + Addr list) \<times> nat) option" where
  "generateIPsFromRange rnd r cnt0 k =
     (let cnt = (if r_size r < cnt0 then r_size r else cnt0)
      in if cnt = 0 then Some (Inr [], k)
         else draw_segments rnd r cnt (r_size r div cnt) 0 (nat cnt) k [])"

section \<open>All candidates\<close>

lemma addIP_rank: "addIP a n = Some b \<Longrightarrow> addr_rank b < 2 ^ 129"
  using addr_rank_at by (auto simp: addIP_def Let_def split: if_splits)

text \<open>The /24 subnets of an IPv4 range, from \<open>cur\<close> on.\<close>

function subnets4 :: "draws \<Rightarrow> int \<Rightarrow> Prefix \<Rightarrow> Addr \<Rightarrow> nat \<Rightarrow> Addr list \<Rightarrow> (Addr list \<times> nat) option" where
  "subnets4 rnd per p cur k results =
     (if \<not> Contains_addr p cur then Some (results, k)
      else do {
        (res, k1) \<leftarrow> generateIPsFromRange rnd (subnet_range \<lparr>pAddr = cur, pBits = 24\<rparr>) per k;
        (case res of
           Inl _ \<Rightarrow> Some (results, k1)
         | Inr ips \<Rightarrow>
             (case addIP cur (ipRangeSize \<lparr>pAddr = pAddr p, pBits = 24\<rparr>) of
                None \<Rightarrow> None
              | Some nxt \<Rightarrow>
                  if \<not> addr_less cur nxt then Some (results @ ips, k1)
                  else subnets4 rnd per p nxt k1 (results @ ips)))
      })"
  by pat_completeness auto
termination
proof (relation "measure (\<lambda>(rnd, per, p, cur, k, results). 2 ^ 129 - addr_rank cur)")
  fix rnd per p cur k results x y res xa ips nxt
  assume a: "addIP cur (ipRangeSize \<lparr>pAddr = pAddr p, pBits = 24\<rparr>) = Some nxt" and b: "\<not> \<not> addr_less cur nxt"
  show "((rnd, per, p, nxt, xa, results @ ips), rnd, per, p, cur, k, results) \<in>
      measure (\<lambda>(rnd, per, p, cur, k, results). 2 ^ 129 - addr_rank cur)"
    using addIP_rank [OF a] b by (simp add: addr_less_def diff_less_mono2 [of "addr_rank cur" "addr_rank nxt"])
qed simp

declare subnets4.simps [simp del]

definition sampleSubnetsCount :: nat where
  "sampleSubnetsCount = 100"

text \<open>Randomly chosen /120 subnets of an IPv6 range, \<open>n\<close> of them.\<close>

fun subnets6 :: "draws \<Rightarrow> int \<Rightarrow> Prefix \<Rightarrow> nat \<Rightarrow> nat \<Rightarrow> Addr list \<Rightarrow> (Addr list \<times> nat) option" where
  "subnets6 rnd per p 0 k results = Some (results, k)"
| "subnets6 rnd per p (Suc n) k results =
     (case rnd k (2 ^ (120 - pBits p)) of
        None \<Rightarrow> subnets6 rnd per p n (k + 1) results
      | Some index \<Rightarrow> do {
          start \<leftarrow> addIP (pAddr p) (index * 2 ^ 8);
          (res, k1) \<leftarrow> generateIPsFromRange rnd (subnet_range \<lparr>pAddr = start, pBits = 120\<rparr>) per (k + 1);
          subnets6 rnd per p n k1 (case res of Inl _ \<Rightarrow> results | Inr ips \<Rightarrow> results @ ips)
        })"

definition range_ips :: "draws \<Rightarrow> int \<Rightarrow> ipRange \<Rightarrow> nat \<Rightarrow> Addr list \<Rightarrow> (Addr list \<times> nat) option" where
  "range_ips rnd per r k results =
     (let p = r_prefix r
      in if pBits p \<ge> (if Is4 (pAddr p) then 24 else 120)
         then do {
           (res, k1) \<leftarrow> generateIPsFromRange rnd r per k;
           Some (case res of Inl _ \<Rightarrow> results | Inr ips \<Rightarrow> results @ ips, k1)
         }
         else if Is4 (pAddr p) then subnets4 rnd per p (pAddr p) k results
         else subnets6 rnd per p sampleSubnetsCount k results)"

fun ranges_ips :: "draws \<Rightarrow> int \<Rightarrow> ipRange list \<Rightarrow> nat \<Rightarrow> Addr list \<Rightarrow> (Addr list \<times> nat) option" where
  "ranges_ips rnd per [] k results = Some (results, k)"
| "ranges_ips rnd per (r # rs) k results = do { (results1, k1) \<leftarrow> range_ips rnd per r k results; ranges_ips rnd per rs k1 results1 }"

text \<open>The inner \<open>None\<close> is the error that nothing was generated.\<close>

definition Generate :: "draws \<Rightarrow> ScannerOptions \<Rightarrow> ipRange list \<Rightarrow> nat \<Rightarrow> (Addr list option \<times> nat) option" where
  "Generate rnd opts ranges k =
     do {
       (results, k1) \<leftarrow> ranges_ips rnd (BucketSize opts) ranges k [];
       Some (if results = [] then None else Some results, k1)
     }"

text \<open>\<open>n\<close> is the number of elements, \<open>i\<close> the next one to swap; a failed draw stops.\<close>

function shuffle_from :: "draws \<Rightarrow> nat \<Rightarrow> nat \<Rightarrow> ipRange list \<Rightarrow> ipRange list \<times> nat" where
  "shuffle_from rnd k i xs =
     (if i < length xs then
        (case rnd k (int (length xs)) of
           None \<Rightarrow> (xs, k + 1)
         | Some j \<Rightarrow> shuffle_from rnd (k + 1) (Suc i) (xs[i := xs ! nat j, nat j := xs ! i]))
      else (xs, k))"
  by pat_completeness auto
termination
  by (relation "measure (\<lambda>(rnd, k, i, xs). length xs - i)") auto

declare shuffle_from.simps [simp del]

fun new_ranges :: "draws \<Rightarrow> ScannerOptions \<Rightarrow> nat \<Rightarrow> Prefix list \<Rightarrow> ipRange list \<Rightarrow> (ipRange list \<times> nat) option" where
  "new_ranges rnd opts k [] rs = Some (rs, k)"
| "new_ranges rnd opts k (cidr # cidrs) rs =
     (if \<not> UseIPv6 opts \<and> Is6 (pAddr cidr) \<or> \<not> UseIPv4 opts \<and> Is4 (pAddr cidr) then new_ranges rnd opts k cidrs rs
      else do { (r, k1) \<leftarrow> newIPRange rnd k cidr; new_ranges rnd opts k1 cidrs (rs @ [r]) })"

definition NewIterator :: "draws \<Rightarrow> ScannerOptions \<Rightarrow> nat \<Rightarrow> (ipRange list \<times> nat) option" where
  "NewIterator rnd opts k =
     do {
       (rs, k1) \<leftarrow> new_ranges rnd opts k (CidrList opts) [];
       Some (if length rs > 1 then shuffle_from rnd k1 0 rs else (rs, k1))
     }"

section \<open>Utilities\<close>

text \<open>\<open>v\<close> is the random number below the given bound.\<close>

datatype iputils_error = ErrMapped | ErrSplitHostPort | ErrPort | ErrPortRange | ErrLookup | ErrNoAddresses

definition RandomIPFromPrefix :: "(int \<Rightarrow> int) \<Rightarrow> Prefix \<Rightarrow> (iputils_error + Addr) option" where
  "RandomIPFromPrefix v cidr =
     (let start = pAddr (Masked cidr)
      in if Is4In6 start then Some (Inl ErrMapped)
         else let hostLen = BitLen start - pBits cidr
              in map_option Inr (addIP start (v (2 ^ hostLen))))"

text \<open>\<open>lookup\<close> is the DNS lookup of a host, with addresses as slices.\<close>

fun first_address :: "bool \<Rightarrow> u16 \<Rightarrow> bytes list \<Rightarrow> (Addr \<times> u16) option" where
  "first_address v6 po [] = None"
| "first_address v6 po (ip # ips) =
     (case AddrFromSlice ip of
        None \<Rightarrow> first_address v6 po ips
      | Some a \<Rightarrow> if Is4 (Unmap a) \<or> v6 then Some (Unmap a, po) else first_address v6 po ips)"

definition ParseResolveAddressPort :: "(string \<Rightarrow> bytes list option) \<Rightarrow> string \<Rightarrow> bool \<Rightarrow> iputils_error + (Addr \<times> u16)" where
  "ParseResolveAddressPort lookup_ip hostname includev6 =
     (case SplitHostPort hostname of
        None \<Rightarrow> Inl ErrSplitHostPort
      | Some (host, port) \<Rightarrow>
          (case Atoi port of
             None \<Rightarrow> Inl ErrPort
           | Some n \<Rightarrow>
               if n < 1 \<or> n > 65535 then Inl ErrPortRange
               else
               (case ParseAddr host of
                  Some a \<Rightarrow> Inr (Unmap a, of_int n)
                | None \<Rightarrow>
                    (case lookup_ip host of
                       None \<Rightarrow> Inl ErrLookup
                     | Some ips \<Rightarrow>
                         (case first_address includev6 (of_int n) ips of
                            None \<Rightarrow> Inl ErrNoAddresses
                          | Some r \<Rightarrow> Inr r)))))"

definition GetRandomWarpPort :: "(nat \<Rightarrow> nat) \<Rightarrow> ScannerOptions \<Rightarrow> u16 option" where
  "GetRandomWarpPort v opts =
     (if DefaultScanPorts opts = [] then None else Some (DefaultScanPorts opts ! v (length (DefaultScanPorts opts))))"

definition GetRandomMasquePort :: "(nat \<Rightarrow> nat) \<Rightarrow> ScannerOptions \<Rightarrow> u16" where
  "GetRandomMasquePort v opts =
     (if MasqueScanPorts opts = [] then 443 else MasqueScanPorts opts ! v (length (MasqueScanPorts opts)))"

definition GetDefaultMasquePorts :: "u16 list" where
  "GetDefaultMasquePorts = [443, 8443, 2053, 2083, 2087, 2096]"

text \<open>\<open>MustParsePrefix\<close> panics on a text that is not a prefix.\<close>

definition DefaultCFRanges :: "Prefix list option" where
  "DefaultCFRanges =
     those (map ParsePrefix
       [''103.21.244.0/22'', ''103.22.200.0/22'', ''103.31.4.0/22'', ''104.16.0.0/12'', ''108.162.192.0/18'',
        ''131.0.72.0/22'', ''141.101.64.0/18'', ''162.158.0.0/15'', ''172.64.0.0/13'', ''173.245.48.0/20'',
        ''188.114.96.0/20'', ''190.93.240.0/20'', ''197.234.240.0/22'', ''198.41.128.0/17'', ''2400:cb00::/32'',
        ''2405:8100::/32'', ''2405:b500::/32'', ''2606:4700::/32'', ''2803:f800::/32'', ''2c0f:f248::/32'', ''2a06:98c0::/29''])"

definition TlsVersionToString :: "u16 \<Rightarrow> string" where
  "TlsVersionToString v =
     (if v = 0x0300 then ''SSL 3.0'' else if v = 0x0301 then ''TLS 1.0'' else if v = 0x0302 then ''TLS 1.1''
      else if v = 0x0303 then ''TLS 1.2'' else if v = 0x0304 then ''TLS 1.3'' else ''unknown'')"

end
