(* ===== verification/Iterator_Lemmas.thy ===== *)
theory Iterator_Lemmas
  imports Ip_Iterator
begin

text \<open>
  Candidates lie in the configured ranges, and the generator of the ranges has full period.
\<close>

section \<open>Addresses of a range\<close>

definition draws_ok :: "draws \<Rightarrow> bool" where
  "draws_ok rnd \<longleftrightarrow> (\<forall>k n v. rnd k n = Some v \<longrightarrow> 0 \<le> v \<and> v < n)"

definition addr_num :: "Addr \<Rightarrow> nat" where
  "addr_num a = be_nat (AsSlice a)"

definition offset_addr :: "Addr \<Rightarrow> nat \<Rightarrow> Addr" where
  "offset_addr a x =
     (case a of
        AddrZero \<Rightarrow> AddrZero
      | Addr4 b \<Rightarrow> Addr4 (be_bytes 4 (be_nat b + x))
      | Addr6 b \<Rightarrow> Addr6 (be_bytes 16 (be_nat b + x)))"

text \<open>The addresses from \<open>a\<close> on, \<open>n\<close> of them, exist and none is an IPv4-mapped one.\<close>

definition fits :: "Addr \<Rightarrow> nat \<Rightarrow> bool" where
  "fits a n \<longleftrightarrow>
     (case a of
        AddrZero \<Rightarrow> False
      | Addr4 b \<Rightarrow> length b = 4 \<and> be_nat b + n \<le> 2 ^ 32
      | Addr6 b \<Rightarrow> length b = 16 \<and> be_nat b + n \<le> 2 ^ 128 \<and> (\<forall>v. be_nat b \<le> v \<and> v < be_nat b + n \<longrightarrow> v div 2 ^ 32 \<noteq> 65535))"

lemma abs_sum: "(2 ^ 128 \<le> \<bar>int m + int x\<bar>) = (\<not> m + x < 2 ^ 128)" "nat \<bar>int m + int x\<bar> = m + x"
proof -
  have a: "\<bar>int m + int x\<bar> = int (m + x)" by simp
  show "(2 ^ 128 \<le> \<bar>int m + int x\<bar>) = (\<not> m + x < 2 ^ 128)" unfolding a using of_nat_le_iff [of "2 ^ 128" "m + x", where ?'a = int] by (simp add: not_less)
  show "nat \<bar>int m + int x\<bar> = m + x" unfolding a by simp
qed

lemma addIP_v4:
  assumes "length b = 4"
  shows "addIP (Addr4 b) (int x) = (if 65535 * 2 ^ 32 + be_nat b + x < 2 ^ 128 then Some (addr_at (65535 * 2 ^ 32 + (be_nat b + x))) else None)"
proof -
  have "be_nat (As16 (Addr4 b)) = 65535 * 2 ^ 32 + be_nat b"
    using assms by (simp add: As16_def be_nat_append mapped_num)
  then show ?thesis by (simp only: addIP_def Let_def abs_sum) (simp add: add.assoc)
qed

lemma addIP_v6:
  "addIP (Addr6 b) (int x) = (if be_nat b + x < 2 ^ 128 then Some (addr_at (be_nat b + x)) else None)"
proof -
  have "be_nat (As16 (Addr6 b)) = be_nat b" by (simp add: As16_def)
  then show ?thesis by (simp only: addIP_def Let_def abs_sum) simp
qed

lemma addIP_offset:
  assumes "fits a n" "x < n"
  shows "addIP a (int x) = Some (offset_addr a x)"
proof (cases a)
  case (Addr4 b)
  then have b: "length b = 4" "be_nat b + x < 2 ^ 32" using assms by (auto simp: fits_def)
  then show ?thesis using addIP_v4 [OF b(1), of x] addr_at_v4 [OF b(2)] Addr4 by (simp add: offset_addr_def)
next
  case (Addr6 b)
  then have "be_nat b + x < 2 ^ 128" "(be_nat b + x) div 2 ^ 32 \<noteq> 65535" using assms by (auto simp: fits_def)
  then show ?thesis using addIP_v6 [of b x] addr_at_v6 Addr6 by (simp add: offset_addr_def)
qed (use assms in \<open>simp add: fits_def\<close>)

text \<open>The candidates of a range.\<close>

definition chosen :: "Addr \<Rightarrow> nat \<Rightarrow> Addr \<Rightarrow> bool" where
  "chosen a n ip \<longleftrightarrow> endpoint_ok ip \<and> (\<exists>x<n. ip = offset_addr a x)"

lemma draw_ip_ok:
  assumes "draws_ok rnd" "fits a n" "0 \<le> s" "s + z \<le> int n"
  shows "\<exists>res k'. draw_ip rnd a s z m k = Some (res, k') \<and> (\<forall>ip. res = Inr (Some ip) \<longrightarrow> chosen a n ip)"
proof (induction m arbitrary: k)
  case (Suc m)
  show ?case
  proof (cases "rnd k z")
    case (Some v)
    then have v: "0 \<le> v" "v < z" using assms(1) by (auto simp: draws_ok_def)
    then have x: "s + v = int (nat (s + v))" "nat (s + v) < n" using assms(3,4) by auto
    have "addIP a (s + v) = Some (offset_addr a (nat (s + v)))" using addIP_offset [OF assms(2) x(2)] x(1) by simp
    then show ?thesis using Some Suc.IH [of "k + 1"] x(2) by (auto simp: chosen_def)
  qed simp
qed simp

lemma draw_segments_ok:
  assumes "draws_ok rnd" "fits (r_start r) (nat (r_size r))" "0 < cnt" "cnt * seg \<le> r_size r" "0 \<le> seg" "int i + int m \<le> cnt"
    "list_all (chosen (r_start r) (nat (r_size r))) ips"
  shows "\<exists>res k'. draw_segments rnd r cnt seg i m k ips = Some (res, k') \<and>
    (\<forall>ips'. res = Inr ips' \<longrightarrow> list_all (chosen (r_start r) (nat (r_size r))) ips')"
  using assms(6,7)
proof (induction m arbitrary: i k ips)
  case (Suc m)
  let ?s = "int i * seg"
  let ?e = "if int i = cnt - 1 then r_size r else ?s + seg"
  have i: "int (Suc i) + int m \<le> cnt" using Suc.prems(1) by simp
  have "(int i + 1) * seg \<le> cnt * seg" using Suc.prems(1) assms(5) by (intro mult_right_mono) auto
  then have e: "?e \<le> r_size r" "0 \<le> ?s" using assms(4,5) by (auto simp: algebra_simps)
  show ?case
  proof (cases "?e - ?s \<le> 0")
    case True
    then show ?thesis using Suc.IH [OF i Suc.prems(2)] by (simp add: Let_def)
  next
    case False
    then have "?s + (?e - ?s) \<le> int (nat (r_size r))" using e by auto
    from draw_ip_ok [OF assms(1,2) e(2) this, of maxRetries k]
    obtain res k1 where d: "draw_ip rnd (r_start r) ?s (?e - ?s) maxRetries k = Some (res, k1)"
      "\<forall>ip. res = Inr (Some ip) \<longrightarrow> chosen (r_start r) (nat (r_size r)) ip" by blast
    show ?thesis
    proof (cases res)
      case (Inl e)
      then show ?thesis using d False by (simp add: Let_def)
    next
      case (Inr found)
      have "list_all (chosen (r_start r) (nat (r_size r))) (case found of None \<Rightarrow> ips | Some ip \<Rightarrow> ips @ [ip])"
        using Inr d(2) Suc.prems(2) by (cases found) auto
      from Suc.IH [OF i this, of k1] show ?thesis using d(1) False Inr by (simp add: Let_def)
    qed
  qed
qed simp

lemma generate_ok:
  assumes "draws_ok rnd" "fits (r_start r) (nat (r_size r))" "0 < r_size r"
  shows "\<exists>res k'. generateIPsFromRange rnd r per k = Some (res, k') \<and>
    (\<forall>ips. res = Inr ips \<longrightarrow> list_all (chosen (r_start r) (nat (r_size r))) ips)"
proof -
  let ?c = "if r_size r < per then r_size r else per"
  show ?thesis
  proof (cases "?c > 0")
    case True
    have "?c * (r_size r div ?c) \<le> r_size r" using mult_div_mod_eq [of ?c "r_size r"] pos_mod_sign [OF True, of "r_size r"] by linarith
    moreover have "0 \<le> r_size r div ?c" using True assms(3) by (simp add: pos_imp_zdiv_nonneg_iff)
    ultimately have "?c * (r_size r div ?c) \<le> r_size r" "0 \<le> r_size r div ?c" by blast+
    from draw_segments_ok [OF assms(1,2) True this, of 0 "nat ?c" "[]" k] True
    show ?thesis unfolding generateIPsFromRange_def Let_def by simp
  next
    case False
    then show ?thesis by (auto simp: generateIPsFromRange_def Let_def)
  qed
qed

section \<open>Prefixes\<close>

definition host_bits :: "Prefix \<Rightarrow> nat" where
  "host_bits p = BitLen (pAddr p) - pBits p"

text \<open>A prefix in masked form whose addresses are not IPv4-mapped ones.\<close>

definition scannable :: "Prefix \<Rightarrow> bool" where
  "scannable p \<longleftrightarrow> prefix_ok p \<and> addr_num (pAddr p) mod 2 ^ host_bits p = 0 \<and>
     (Is6 (pAddr p) \<longrightarrow> (\<forall>x<2 ^ host_bits p. (addr_num (pAddr p) + x) div 2 ^ 32 \<noteq> 65535))"

lemma aligned_room: "h \<le> t \<Longrightarrow> n < 2 ^ t \<Longrightarrow> n mod 2 ^ h = 0 \<Longrightarrow> n + 2 ^ h \<le> (2 :: nat) ^ t"
proof -
  assume h: "h \<le> t" "n < 2 ^ t" "n mod 2 ^ h = 0"
  obtain q where q: "n = 2 ^ h * q" using h(3) by (auto simp: mod_eq_0_iff_dvd dvd_def)
  have "(2 :: nat) ^ t = 2 ^ h * 2 ^ (t - h)" using h(1) by (simp add: power_add [symmetric])
  then have "q < 2 ^ (t - h)" using h(2) q by simp
  then have "2 ^ h * (q + 1) \<le> (2 :: nat) ^ h * 2 ^ (t - h)" by (intro mult_left_mono) simp_all
  then show ?thesis using q \<open>2 ^ t = _\<close> by (simp add: algebra_simps)
qed

lemma scannable_fits: "scannable p \<Longrightarrow> fits (pAddr p) (2 ^ host_bits p)"
proof (cases "pAddr p")
  case (Addr4 b)
  assume "scannable p"
  then show ?thesis using Addr4 be_nat_bound [of b 4] aligned_room [of "host_bits p" 32 "be_nat b"]
    by (auto simp: scannable_def fits_def prefix_ok_def host_bits_def BitLen_def addr_num_def)
next
  case (Addr6 b)
  assume s: "scannable p"
  have "v div 2 ^ 32 \<noteq> 65535" if "be_nat b \<le> v" "v < be_nat b + 2 ^ host_bits p" for v
  proof -
    have "v - be_nat b < 2 ^ host_bits p" "v = be_nat b + (v - be_nat b)" using that by auto
    then show ?thesis using s Addr6 by (auto simp: scannable_def addr_num_def Is6_def)
  qed
  then show ?thesis using s Addr6 be_nat_bound [of b 16] aligned_room [of "host_bits p" 128 "be_nat b"]
    by (auto simp: scannable_def fits_def prefix_ok_def host_bits_def BitLen_def addr_num_def)
qed (simp add: scannable_def prefix_ok_def)

lemma scannable_size: "scannable p \<Longrightarrow> ipRangeSize p = int (2 ^ host_bits p)"
  by (cases "pAddr p") (auto simp: scannable_def prefix_ok_def ipRangeSize_def host_bits_def BitLen_def Is4_def Let_def)

lemma div_aligned: "n mod 2 ^ h = 0 \<Longrightarrow> x < 2 ^ h \<Longrightarrow> (n + x) div 2 ^ h = n div (2 :: nat) ^ h"
  by (auto simp: mod_eq_0_iff_dvd dvd_def)

lemma Contains_offset:
  assumes "scannable p" "x < 2 ^ host_bits p"
  shows "Contains_addr p (offset_addr (pAddr p) x)"
proof -
  have f: "fits (pAddr p) (2 ^ host_bits p)" by (rule scannable_fits [OF assms(1)])
  have d: "(addr_num (pAddr p) + x) div 2 ^ host_bits p = addr_num (pAddr p) div 2 ^ host_bits p"
    using assms by (intro div_aligned) (simp_all add: scannable_def)
  show ?thesis
  proof (cases "pAddr p")
    case (Addr4 b)
    then have "be_nat b + x < 256 ^ 4" "host_bits p = 32 - pBits p" using f assms(2) by (auto simp: fits_def host_bits_def BitLen_def)
    then show ?thesis using Addr4 d by (simp add: Contains_addr_def offset_addr_def be_nat_be_bytes addr_num_def)
  next
    case (Addr6 b)
    then have "be_nat b + x < 256 ^ 16" "host_bits p = 128 - pBits p" using f assms(2) by (auto simp: fits_def host_bits_def BitLen_def)
    then show ?thesis using Addr6 d by (simp add: Contains_addr_def offset_addr_def be_nat_be_bytes addr_num_def)
  qed (use f in \<open>simp add: fits_def\<close>)
qed

definition good_ip :: "Prefix \<Rightarrow> Addr \<Rightarrow> bool" where
  "good_ip p ip \<longleftrightarrow> endpoint_ok ip \<and> Contains_addr p ip"

lemma chosen_good: "scannable p \<Longrightarrow> chosen (pAddr p) (2 ^ host_bits p) ip \<Longrightarrow> good_ip p ip"
  using Contains_offset by (auto simp: chosen_def good_ip_def)

lemma list_all_mono: "list_all P xs \<Longrightarrow> (\<And>x. P x \<Longrightarrow> Q x) \<Longrightarrow> list_all Q xs"
  by (simp add: list_all_iff)

section \<open>Subnets\<close>

lemma subnet4_good:
  assumes "Contains_addr p (Addr4 c)" "length c = 4" "be_nat c mod 256 = 0" "pBits p < 24" "chosen (Addr4 c) 256 ip"
  shows "good_ip p ip"
proof -
  obtain x where x: "x < 256" "ip = Addr4 (be_bytes 4 (be_nat c + x))" "endpoint_ok ip"
    using assms(5) by (auto simp: chosen_def offset_addr_def)
  have c: "be_nat c + 256 \<le> 2 ^ 32" using aligned_room [of 8 32 "be_nat c"] assms(2,3) be_nat_bound [of c 4] by simp
  obtain b where b: "pAddr p = Addr4 b" "be_nat b div 2 ^ (32 - pBits p) = be_nat c div 2 ^ (32 - pBits p)"
    using assms(1) by (cases "pAddr p") (auto simp: Contains_addr_def)
  have h: "(2 :: nat) ^ (32 - pBits p) = 256 * 2 ^ (24 - pBits p)"
  proof -
    have "32 - pBits p = 8 + (24 - pBits p)" using assms(4) by linarith
    then have "(2 :: nat) ^ (32 - pBits p) = 2 ^ 8 * 2 ^ (24 - pBits p)" by (simp only: power_add)
    then show ?thesis by simp
  qed
  have "(be_nat c + x) div 256 = be_nat c div 256" using div_aligned [of "be_nat c" 8 x] assms(3) x(1) by simp
  then have "(be_nat c + x) div 2 ^ (32 - pBits p) = be_nat c div 2 ^ (32 - pBits p)" unfolding h by (simp add: div_mult2_eq)
  moreover have "be_nat (be_bytes 4 (be_nat c + x)) = be_nat c + x" using c x(1) by (simp add: be_nat_be_bytes)
  ultimately show ?thesis using b x by (simp add: good_ip_def Contains_addr_def)
qed

lemma next_subnet:
  assumes "length c = 4" "be_nat c mod 256 = 0"
  shows "\<exists>a. addIP (Addr4 c) 256 = Some a \<and> (\<forall>d. a = Addr4 d \<longrightarrow> length d = 4 \<and> be_nat d mod 256 = 0)"
proof -
  have c: "be_nat c + 256 \<le> 2 ^ 32" using aligned_room [of 8 32 "be_nat c"] assms be_nat_bound [of c 4] by simp
  have a: "addIP (Addr4 c) 256 = Some (addr_at (65535 * 2 ^ 32 + (be_nat c + 256)))"
    using addIP_v4 [OF assms(1), of 256] c by simp
  show ?thesis
  proof (cases "be_nat c + 256 < 2 ^ 32")
    case True
    have "be_nat (be_bytes 4 (be_nat c + 256)) mod 256 = 0" using assms(2) True by (simp add: be_nat_be_bytes)
    then show ?thesis using a addr_at_v4 [OF True] by simp
  next
    case False
    then have n: "65535 * 2 ^ 32 + (be_nat c + 256) = 65536 * 2 ^ 32" using c by simp
    have "addr_at (65535 * 2 ^ 32 + (be_nat c + 256)) = Addr6 (be_bytes 16 (65535 * 2 ^ 32 + (be_nat c + 256)))"
      unfolding n by (rule addr_at_v6) simp_all
    then show ?thesis using a by auto
  qed
qed

lemma subnet4_fits: "length c = 4 \<Longrightarrow> be_nat c mod 256 = 0 \<Longrightarrow> fits (Addr4 c) 256"
  using aligned_room [of 8 32 "be_nat c"] be_nat_bound [of c 4] by (simp add: fits_def)

lemma size_24: "ipRangeSize \<lparr>pAddr = Addr4 c, pBits = 24\<rparr> = 256"
  by (simp add: ipRangeSize_def Is4_def)

lemma aligned_256: "2 ^ (32 - m) dvd n \<Longrightarrow> \<not> 24 \<le> m \<Longrightarrow> n mod (256 :: nat) = 0"
proof -
  assume n: "2 ^ (32 - m) dvd n" "\<not> 24 \<le> m"
  have "(2 :: nat) ^ 8 dvd 2 ^ (32 - m)" using n(2) by (intro le_imp_power_dvd) simp
  then show ?thesis using n(1) by (auto simp: mod_eq_0_iff_dvd intro: dvd_trans)
qed

lemma subnets4_ok:
  assumes "draws_ok rnd" "pBits p < 24" "\<forall>d. cur = Addr4 d \<longrightarrow> length d = 4 \<and> be_nat d mod 256 = 0" "list_all Q results" "Is4 (pAddr p)" "\<And>ip. good_ip p ip \<Longrightarrow> Q ip"
  shows "\<exists>res k'. subnets4 rnd per p cur k results = Some (res, k') \<and> list_all Q res"
  using assms
proof (induction rnd per p cur k results rule: subnets4.induct)
  case (1 rnd per p cur k results)
  show ?case
  proof (cases "Contains_addr p cur")
    case False
    then show ?thesis using 1(5) by (subst subnets4.simps) simp
  next
    case True
    obtain b c where b: "pAddr p = Addr4 b" and cur: "cur = Addr4 c"
      using True 1(6) by (cases "pAddr p"; cases cur) (auto simp: Contains_addr_def Is4_def)
    then have c: "length c = 4" "be_nat c mod 256 = 0" using 1(4) by auto
    have r: "r_start (subnet_range \<lparr>pAddr = cur, pBits = 24\<rparr>) = Addr4 c" "r_size (subnet_range \<lparr>pAddr = cur, pBits = 24\<rparr>) = 256"
      by (simp_all add: subnet_range_def cur size_24)
    obtain res k1 where g: "generateIPsFromRange rnd (subnet_range \<lparr>pAddr = cur, pBits = 24\<rparr>) per k = Some (res, k1)"
      "\<forall>ips. res = Inr ips \<longrightarrow> list_all (chosen (Addr4 c) 256) ips"
      using generate_ok [OF 1(2), of "subnet_range \<lparr>pAddr = cur, pBits = 24\<rparr>" per k] subnet4_fits [OF c] r by auto
    show ?thesis
    proof (cases res)
      case (Inl e)
      then show ?thesis using True g(1) 1(5) by (subst subnets4.simps) simp
    next
      case (Inr ips)
      then have ips: "list_all Q (results @ ips)"
        using g(2) 1(5) 1(7) [OF subnet4_good [OF True [unfolded cur] c 1(3)]] by (auto intro: list_all_mono)
      obtain nxt where n: "addIP cur 256 = Some nxt" "\<forall>d. nxt = Addr4 d \<longrightarrow> length d = 4 \<and> be_nat d mod 256 = 0"
        using next_subnet [OF c] cur by auto
      have a: "addIP cur (ipRangeSize \<lparr>pAddr = pAddr p, pBits = 24\<rparr>) = Some nxt" using n(1) b size_24 by simp
      show ?thesis
      proof (cases "addr_less cur nxt")
        case t: True
        then show ?thesis using 1(1) [of "(res, k1)" res k1 ips nxt] True g(1) Inr a 1(2,3,6,7) n(2) ips
          by (subst subnets4.simps) simp
      next
        case False
        then show ?thesis using True g(1) Inr a ips by (subst subnets4.simps) simp
      qed
    qed
  qed
qed

lemma offset_offset:
  assumes "fits a n" "x < n"
  shows "offset_addr (offset_addr a x) y = offset_addr a (x + y)" "x + m \<le> n \<Longrightarrow> fits (offset_addr a x) m"
  using assms by (cases a; simp add: offset_addr_def fits_def be_nat_be_bytes add.assoc)+

lemma subnets6_ok:
  assumes "draws_ok rnd" "scannable p" "pBits p < 120" "Is6 (pAddr p)" "list_all Q results" "\<And>ip. good_ip p ip \<Longrightarrow> Q ip"
  shows "\<exists>res k'. subnets6 rnd per p n k results = Some (res, k') \<and> list_all Q res"
  using assms(5)
proof (induction n arbitrary: k results)
  case (Suc n)
  show ?case
  proof (cases "rnd k (2 ^ (120 - pBits p))")
    case (Some v)
    then have v: "0 \<le> v" "v < 2 ^ (120 - pBits p)" using assms(1) by (auto simp: draws_ok_def)
    obtain b where b: "pAddr p = Addr6 b" "length b = 16" using assms(2,4) by (cases "pAddr p") (auto simp: scannable_def prefix_ok_def Is6_def)
    have "host_bits p = (120 - pBits p) + 8" using assms(3) b by (simp add: host_bits_def BitLen_def)
    then have h: "(2 :: nat) ^ host_bits p = 2 ^ (120 - pBits p) * 256" by (simp only: power_add) simp
    let ?x = "nat v * 256"
    have "nat v < 2 ^ (120 - pBits p)" using v by (simp add: nat_less_iff)
    from mult_le_mono1 [OF Suc_leI [OF this], of 256] have "(nat v + 1) * 256 \<le> 2 ^ (120 - pBits p) * 256" by simp
    then have x1: "?x + 256 \<le> 2 ^ host_bits p" unfolding h by (simp add: algebra_simps)
    have x: "?x + 256 \<le> 2 ^ host_bits p" "?x < 2 ^ host_bits p" by (rule x1, rule less_le_trans [OF _ x1]) simp
    note f = scannable_fits [OF assms(2)]
    let ?s = "offset_addr (pAddr p) ?x"
    have st: "addIP (pAddr p) (v * 2 ^ 8) = Some ?s" using addIP_offset [OF f x(2)] v(1) by simp
    have s6: "\<not> Is4 ?s" using b by (simp add: offset_addr_def Is4_def)
    let ?r = "subnet_range \<lparr>pAddr = ?s, pBits = 120\<rparr>"
    have r: "r_start ?r = ?s" "r_size ?r = 256" using s6 by (simp_all add: subnet_range_def ipRangeSize_def)
    have "fits ?s 256" using offset_offset(2) [OF f x(2,1)] .
    then obtain res k1 where g: "generateIPsFromRange rnd ?r per (k + 1) = Some (res, k1)" "\<forall>ips. res = Inr ips \<longrightarrow> list_all (chosen ?s 256) ips"
      using generate_ok [OF assms(1), of ?r per "k + 1"] r by auto
    have good: "Q ip" if "chosen ?s 256 ip" for ip
    proof -
      obtain y where y: "y < 256" "ip = offset_addr ?s y" "endpoint_ok ip" using \<open>chosen ?s 256 ip\<close> by (auto simp: chosen_def)
      then show ?thesis using offset_offset(1) [OF f x(2), of y] x(1) Contains_offset [OF assms(2), of "?x + y"] by (intro assms(6)) (simp add: good_ip_def)
    qed
    then have "list_all Q (case res of Inl _ \<Rightarrow> results | Inr ips \<Rightarrow> results @ ips)"
      using g(2) Suc.prems by (cases res) (auto intro: list_all_mono)
    then show ?thesis using Some st g(1) Suc.IH by simp
  qed (use Suc in simp)
qed simp

definition range_ok :: "ipRange \<Rightarrow> bool" where
  "range_ok r \<longleftrightarrow> scannable (r_prefix r) \<and> r_start r = pAddr (r_prefix r) \<and> r_size r = ipRangeSize (r_prefix r)"

lemma range_ips_ok:
  assumes "draws_ok rnd" "range_ok r" "list_all Q results" "\<And>ip. good_ip (r_prefix r) ip \<Longrightarrow> Q ip"
  shows "\<exists>res k'. range_ips rnd per r k results = Some (res, k') \<and> list_all Q res"
proof -
  let ?p = "r_prefix r"
  have s: "scannable ?p" "r_start r = pAddr ?p" "r_size r = int (2 ^ host_bits ?p)"
    using assms(2) scannable_size by (auto simp: range_ok_def)
  obtain b where fam: "pAddr ?p = Addr4 b \<and> length b = 4 \<or> pAddr ?p = Addr6 b \<and> length b = 16"
    using s(1) by (cases "pAddr ?p") (auto simp: scannable_def prefix_ok_def)
  show ?thesis
  proof (cases "pBits ?p \<ge> (if Is4 (pAddr ?p) then 24 else 120)")
    case True
    obtain res k1 where g: "generateIPsFromRange rnd r per k = Some (res, k1)"
      "\<forall>ips. res = Inr ips \<longrightarrow> list_all (chosen (pAddr ?p) (2 ^ host_bits ?p)) ips"
      using generate_ok [OF assms(1), of r per k] scannable_fits [OF s(1)] s(2,3) by (auto simp: nat_power_eq)
    have "list_all Q (case res of Inl _ \<Rightarrow> results | Inr ips \<Rightarrow> results @ ips)"
      using g(2) assms(3,4) chosen_good [OF s(1)] by (cases res) (auto intro: list_all_mono)
    then show ?thesis using True g(1) by (simp add: range_ips_def Let_def)
  next
    case False
    show ?thesis
    proof (cases "Is4 (pAddr ?p)")
      case True
      then have c: "pBits ?p < 24" "\<forall>d. pAddr ?p = Addr4 d \<longrightarrow> length d = 4 \<and> be_nat d mod 256 = 0"
        using False s(1) by (auto simp: scannable_def prefix_ok_def addr_num_def host_bits_def BitLen_def intro: aligned_256)
      show ?thesis using subnets4_ok [OF assms(1) c assms(3) True assms(4), of per k] False True by (simp add: range_ips_def Let_def)
    next
      case f: False
      then have c: "pBits ?p < 120" "Is6 (pAddr ?p)" using False fam by (auto simp: Is4_def Is6_def)
      show ?thesis using subnets6_ok [OF assms(1) s(1) c assms(3,4), of per sampleSubnetsCount k] False f by (simp add: range_ips_def Let_def)
    qed
  qed
qed

lemma ranges_ips_ok:
  assumes "draws_ok rnd" "list_all range_ok rs" "list_all Q results" "\<And>ip r. r \<in> set rs \<Longrightarrow> good_ip (r_prefix r) ip \<Longrightarrow> Q ip"
  shows "\<exists>res k'. ranges_ips rnd per rs k results = Some (res, k') \<and> list_all Q res"
  using assms(2-4)
proof (induction rs arbitrary: k results)
  case (Cons r rs)
  obtain res k1 where r: "range_ips rnd per r k results = Some (res, k1)" "list_all Q res"
    using range_ips_ok [OF assms(1), of r Q results per k] Cons.prems by auto
  have "\<exists>res' k'. ranges_ips rnd per rs k1 res = Some (res', k') \<and> list_all Q res'"
    by (rule Cons.IH) (use Cons.prems r(2) in auto)
  then show ?case using r(1) by simp
qed simp

section \<open>The ranges of an iterator\<close>

definition from_cidrs :: "ScannerOptions \<Rightarrow> ipRange \<Rightarrow> bool" where
  "from_cidrs opts r \<longleftrightarrow> range_ok r \<and> r_prefix r \<in> set (CidrList opts) \<and>
     (Is4 (pAddr (r_prefix r)) \<longrightarrow> UseIPv4 opts) \<and> (Is6 (pAddr (r_prefix r)) \<longrightarrow> UseIPv6 opts)"

lemma new_ranges_ok:
  assumes "list_all scannable cidrs" "set cidrs \<subseteq> set (CidrList opts)" "list_all (from_cidrs opts) rs"
    "new_ranges rnd opts k cidrs rs = Some (rs', k')"
  shows "list_all (from_cidrs opts) rs'"
  using assms
proof (induction cidrs arbitrary: k rs)
  case (Cons c cidrs)
  show ?case
  proof (cases "\<not> UseIPv6 opts \<and> Is6 (pAddr c) \<or> \<not> UseIPv4 opts \<and> Is4 (pAddr c)")
    case True
    then show ?thesis using Cons by auto
  next
    case False
    then obtain r k1 where r: "newIPRange rnd k c = Some (r, k1)" "new_ranges rnd opts k1 cidrs (rs @ [r]) = Some (rs', k')"
      using Cons.prems(4) by (auto simp: bind_eq_Some_conv)
    have "r_prefix r = c" "r_start r = pAddr c" "r_size r = ipRangeSize c" using r(1) by (auto simp: newIPRange_def bind_eq_Some_conv)
    then have "from_cidrs opts r" using False Cons.prems(1,2) by (auto simp: from_cidrs_def range_ok_def)
    then show ?thesis using Cons.IH [OF _ _ _ r(2)] Cons.prems by simp
  qed
qed simp

lemma shuffle_set: "draws_ok rnd \<Longrightarrow> mset (fst (shuffle_from rnd k i xs)) = mset xs"
proof (induction rnd k i xs rule: shuffle_from.induct)
  case (1 rnd k i xs)
  show ?case
  proof (cases "i < length xs")
    case True
    show ?thesis
    proof (cases "rnd k (int (length xs))")
      case (Some j)
      then have "nat j < length xs" using 1(2) by (auto simp: draws_ok_def nat_less_iff)
      then have "mset (xs[i := xs ! nat j, nat j := xs ! i]) = mset xs" using True by (simp add: mset_swap)
      then show ?thesis using 1(1) [OF True Some 1(2)] Some True by (subst shuffle_from.simps) simp
    qed (use True in \<open>subst shuffle_from.simps, simp\<close>)
  qed (subst shuffle_from.simps, simp)
qed

lemma Contains_family: "Contains_addr p ip \<Longrightarrow> Is4 ip = Is4 (pAddr p) \<and> Is6 ip = Is6 (pAddr p)"
  by (cases "pAddr p"; cases ip) (auto simp: Contains_addr_def Is4_def Is6_def)

text \<open>C35: With configured ranges in masked form that hold no IPv4-mapped addresses, generating candidates
  does not panic, and every candidate lies in a configured range of an enabled address family; no IPv4
  candidate ends in 0 or 255.\<close>

theorem Generate_in_range:
  assumes "draws_ok rnd" "list_all scannable (CidrList opts)" "NewIterator rnd opts k = Some (rs, k1)"
  shows "\<exists>res k2. Generate rnd opts rs k1 = Some (res, k2) \<and>
    (\<forall>ips. res = Some ips \<longrightarrow> list_all (\<lambda>ip. endpoint_ok ip \<and> (\<exists>p\<in>set (CidrList opts). Contains_addr p ip) \<and>
      (Is4 ip \<longrightarrow> UseIPv4 opts) \<and> (Is6 ip \<longrightarrow> UseIPv6 opts)) ips)"
proof -
  obtain rs0 k0 where n: "new_ranges rnd opts k (CidrList opts) [] = Some (rs0, k0)"
    "(rs, k1) = (if length rs0 > 1 then shuffle_from rnd k0 0 rs0 else (rs0, k0))"
    using assms(3) by (auto simp: NewIterator_def bind_eq_Some_conv)
  have "mset rs = mset rs0" using n(2) shuffle_set [OF assms(1), of k0 0 rs0] by (auto split: if_splits) (metis fst_conv)
  then have rs: "list_all (from_cidrs opts) rs"
    using new_ranges_ok [OF assms(2) _ _ n(1)] by (metis list_all_iff set_mset_mset subset_refl list.pred_inject(1))
  let ?Q = "\<lambda>ip. endpoint_ok ip \<and> (\<exists>p\<in>set (CidrList opts). Contains_addr p ip) \<and> (Is4 ip \<longrightarrow> UseIPv4 opts) \<and> (Is6 ip \<longrightarrow> UseIPv6 opts)"
  have "\<exists>res k'. ranges_ips rnd (BucketSize opts) rs k1 [] = Some (res, k') \<and> list_all ?Q res"
  proof (rule ranges_ips_ok [OF assms(1)])
    show "list_all range_ok rs" using rs by (auto simp: list_all_iff from_cidrs_def)
    show "?Q ip" if "r \<in> set rs" "good_ip (r_prefix r) ip" for ip r
      using that rs Contains_family [of "r_prefix r" ip] by (auto simp: list_all_iff from_cidrs_def good_ip_def)
  qed simp
  then show ?thesis by (auto simp: Generate_def)
qed

definition example_draws :: draws where
  "example_draws k n = (if n \<le> 0 then None else Some (if n > 1 then 1 else 0))"

definition example_cidrs :: ScannerOptions where
  "example_cidrs =
     \<lparr>UseIPv4 = True, UseIPv6 = False, CidrList = [\<lparr>pAddr = Addr4 [162, 159, 192, 0], pBits = 24\<rparr>], CustomEndpoints = [],
      TestPortsForIPs = [], Port = 0, DefaultScanPorts = [2408], MasqueScanPorts = [],
      IcmpPing = True, TcpPing = False, TCPPingPort = 443, BucketSize = 5, ICMPPingFilterRTT = 300, TCPPingFilterRTT = 300,
      IPQueueSize = 2, ConcurrentScanners = 3, StopOnFirstGoodIPs = 0\<rparr>"

theorem Generate_in_range_witness:
  "\<exists>rs k1 res k2. NewIterator example_draws example_cidrs 0 = Some (rs, k1) \<and> Generate example_draws example_cidrs rs k1 = Some (res, k2) \<and>
    (\<forall>ips. res = Some ips \<longrightarrow> list_all (\<lambda>ip. endpoint_ok ip \<and> (\<exists>p\<in>set (CidrList example_cidrs). Contains_addr p ip) \<and>
      (Is4 ip \<longrightarrow> UseIPv4 example_cidrs) \<and> (Is6 ip \<longrightarrow> UseIPv6 example_cidrs)) ips)"
proof -
  have d: "draws_ok example_draws" by (auto simp: draws_ok_def example_draws_def)
  have s: "list_all scannable (CidrList example_cidrs)"
    by (simp add: example_cidrs_def scannable_def prefix_ok_def addr_num_def host_bits_def BitLen_def Is6_def)
  have "NewLCG example_draws 0 256 \<noteq> None"
    unfolding NewLCG_def by (subst NewLCG_from.simps) (simp add: example_draws_def checkHullDobell_def)
  then have "NewIterator example_draws example_cidrs 0 \<noteq> None"
    by (auto simp: NewIterator_def newIPRange_def example_cidrs_def ipRangeSize_def Is4_def Is6_def)
  then obtain rs k1 where r: "NewIterator example_draws example_cidrs 0 = Some (rs, k1)" by auto
  show ?thesis using r Generate_in_range [OF d s r] by blast
qed

text \<open>Where a range is not in masked form, candidates can lie outside it.\<close>

lemma unmasked_range_escapes:
  "\<exists>ips k. generateIPsFromRange (\<lambda>k n. Some (n - 1)) (subnet_range \<lparr>pAddr = Addr4 [10, 0, 0, 200], pBits = 24\<rparr>) 1 0 = Some (Inr ips, k) \<and>
     (\<exists>ip\<in>set ips. \<not> Contains_addr \<lparr>pAddr = Addr4 [10, 0, 0, 200], pBits = 24\<rparr> ip)"
proof -
  have "be_bytes 4 (be_nat [10, 0, 1, 199]) = [10, 0, 1, 199]" by (rule be_bytes_be_nat_length) simp
  then have a: "addIP (Addr4 [10, 0, 0, 200]) 255 = Some (Addr4 [10, 0, 1, 199])"
    using addIP_v4 [of "[10, 0, 0, 200]" 255] addr_at_v4 [of 167772615] by simp
  have m: "maxRetries = Suc 9" by (simp add: maxRetries_def)
  have d: "draw_ip (\<lambda>k n. Some (n - 1)) (Addr4 [10, 0, 0, 200]) 0 256 maxRetries 0 = Some (Inr (Some (Addr4 [10, 0, 1, 199])), 1)"
    unfolding m draw_ip.simps by (simp add: a endpoint_ok_def)
  have "generateIPsFromRange (\<lambda>k n. Some (n - 1)) (subnet_range \<lparr>pAddr = Addr4 [10, 0, 0, 200], pBits = 24\<rparr>) 1 0 =
      Some (Inr [Addr4 [10, 0, 1, 199]], 1)"
    by (simp add: generateIPsFromRange_def subnet_range_def size_24 d)
  then show ?thesis by (simp add: Contains_addr_def)
qed

section \<open>The period of the generator\<close>

text \<open>\<open>geo a n\<close> is the sum of the first \<open>n\<close> powers of \<open>a\<close>.\<close>

fun geo :: "int \<Rightarrow> nat \<Rightarrow> int" where
  "geo a 0 = 0"
| "geo a (Suc n) = a * geo a n + 1"

lemma geo_add: "geo a (m + n) = a ^ n * geo a m + geo a n"
  by (induction n) (simp_all add: algebra_simps)

lemma odd_geo: "odd a \<Longrightarrow> odd (geo a n) \<longleftrightarrow> odd n"
  by (induction n) auto

lemma geo_power_dvd:
  assumes "a mod 4 = 1"
  shows "2 ^ k dvd geo a n \<longleftrightarrow> 2 ^ k dvd n"
proof (induction k arbitrary: n)
  case (Suc k)
  have odd: "odd a" using assms by presburger
  show ?case
  proof (cases "odd n")
    case True
    then have "\<not> 2 dvd geo a n" "\<not> 2 dvd n" using odd_geo [OF odd] by auto
    then show ?thesis using dvd_trans [OF dvd_power [of "Suc k" "2 :: int"]] dvd_trans [OF dvd_power [of "Suc k" "2 :: nat"]] by blast
  next
    case False
    then obtain m where m: "n = 2 * m" by (auto elim: evenE)
    have "a ^ m mod 4 = 1" using power_mod [of a 4 m] assms by simp
    then obtain u where u: "a ^ m = 4 * u + 1" using mult_div_mod_eq [of 4 "a ^ m"] by metis
    define q where "q = 2 * u + 1"
    have q: "a ^ m + 1 = 2 * q" "odd q" using u by (simp_all add: q_def)
    have "geo a n = (a ^ m + 1) * geo a m" unfolding m mult_2 geo_add by (simp add: algebra_simps)
    then have "geo a n = 2 * (q * geo a m)" unfolding q(1) by simp
    then have "2 ^ Suc k dvd geo a n \<longleftrightarrow> 2 ^ k dvd q * geo a m" by simp
    also have "\<dots> \<longleftrightarrow> 2 ^ k dvd geo a m" using q(2) by (simp add: coprime_dvd_mult_right_iff)
    finally show ?thesis using Suc.IH [of m] m by simp
  qed
qed simp

text \<open>The results of \<open>n\<close> calls of \<open>Next\<close>.\<close>

fun nexts :: "nat \<Rightarrow> LCG \<Rightarrow> int option list" where
  "nexts 0 l = []"
| "nexts (Suc n) l = fst (Next l) # nexts n (snd (Next l))"

lemma nexts_geo:
  assumes "0 < m" "x = c * geo a i mod m"
  shows "nexts n \<lparr>modulus = m, multiplier = a, increment = c, current = x\<rparr> = map (\<lambda>j. Some (c * geo a (i + Suc j) mod m)) [0..<n]"
  using assms(2)
proof (induction n arbitrary: i x)
  case (Suc n)
  let ?y = "(a * x + c) mod m"
  have "x < m" using Suc.prems pos_mod_bound [OF assms(1), of "c * geo a i"] by simp
  then have "x \<noteq> m" by simp
  then have nx: "Next \<lparr>modulus = m, multiplier = a, increment = c, current = x\<rparr> =
      (Some ?y, \<lparr>modulus = m, multiplier = a, increment = c, current = ?y\<rparr>)"
    by (simp add: Next_def Let_def)
  have "(a * (c * geo a i mod m) + c) mod m = (a * (c * geo a i) + c) mod m" by (metis mod_add_left_eq mod_mult_right_eq)
  then have "?y = c * geo a (Suc i) mod m" unfolding Suc.prems by (simp add: algebra_simps)
  from Suc.IH [OF this] show ?case using nx \<open>?y = _\<close> by (simp add: map_upt_Suc del: upt_Suc)
qed simp

lemma and_three: "and x 3 = x mod (4 :: int)"
  using take_bit_eq_mask [of 2 x] take_bit_eq_mod [of 2 x] by (simp add: mask_eq_exp_minus_1)

lemma NewLCG_checked:
  assumes "NewLCG_from rnd k m = Some r"
  shows "\<exists>a c. fst r = \<lparr>modulus = m, multiplier = a, increment = c, current = 0\<rparr> \<and> checkHullDobell m a c"
proof -
  have "NewLCG_from rnd k m = Some r \<longrightarrow> (\<exists>a c. fst r = \<lparr>modulus = m, multiplier = a, increment = c, current = 0\<rparr> \<and> checkHullDobell m a c)"
    by (rule NewLCG_from.raw_induct [where P = "\<lambda>rnd k m r. \<exists>a c. fst r = \<lparr>modulus = m, multiplier = a, increment = c, current = 0\<rparr> \<and> checkHullDobell m a c", THEN impI])
      (auto split: option.splits if_splits)
  then show ?thesis using assms by blast
qed

text \<open>C36: For the sizes of address ranges, powers of two from 4 on, the conditions the constructor checks
  suffice for a full period: the calls of \<open>Next\<close> enumerate every offset of the range exactly once
  before they repeat.\<close>

theorem LCG_full_period:
  assumes "NewLCG rnd k (2 ^ e) = Some (l, k')" "2 \<le> e"
  shows "distinct (nexts (2 ^ e) l) \<and> set (nexts (2 ^ e) l) = Some ` {0..<2 ^ e}"
proof -
  let ?m = "2 ^ e :: int"
  obtain a c where l: "l = \<lparr>modulus = ?m, multiplier = a, increment = c, current = 0\<rparr>" "checkHullDobell ?m a c"
    using NewLCG_checked [OF assms(1) [unfolded NewLCG_def]] by auto
  have "4 dvd ?m" using le_imp_power_dvd [OF assms(2), of "2 :: int"] by simp
  then have "(a - 1) mod 4 = 0" using l(2) by (simp add: checkHullDobell_def and_three)
  then have a: "a mod 4 = 1" by presburger
  have c: "odd c" using l(2) assms(2) by (auto simp: checkHullDobell_def coprime_iff_gcd_eq_1 [symmetric])
  have xs: "nexts (2 ^ e) l = map (\<lambda>j. Some (c * geo a (Suc j) mod ?m)) [0..<2 ^ e]"
    unfolding l(1) using nexts_geo [of ?m 0 c a 0 "2 ^ e"] by simp
  have "i = j" if "i \<le> j" "j < 2 ^ e" "c * geo a (Suc i) mod ?m = c * geo a (Suc j) mod ?m" for i j
  proof -
    have "Suc j = (j - i) + Suc i" using that(1) by simp
    then have "geo a (Suc j) = a ^ Suc i * geo a (j - i) + geo a (Suc i)" by (metis geo_add)
    then have "?m dvd c * a ^ Suc i * geo a (j - i)" using that(3) by (simp add: mod_eq_dvd_iff algebra_simps dvd_diff_commute)
    moreover have "odd a" using a by presburger
    then have "odd (c * a ^ Suc i)" using c by simp
    ultimately have "?m dvd geo a (j - i)" by (simp add: coprime_dvd_mult_right_iff)
    then have "2 ^ e dvd j - i" using geo_power_dvd [OF a] by blast
    then show "i = j" using that(1,2) by (auto dest: dvd_imp_le)
  qed
  then have inj: "inj_on (\<lambda>j. Some (c * geo a (Suc j) mod ?m)) {0..<2 ^ e}"
    by (intro inj_onI) (metis atLeastLessThan_iff linear option.inject)
  then have d: "distinct (nexts (2 ^ e) l)" unfolding xs by (simp add: distinct_map del: upt_Suc)
  have sub: "set (nexts (2 ^ e) l) \<subseteq> Some ` {0..<?m}" unfolding xs by auto
  have "card (set (nexts (2 ^ e) l)) = card (Some ` {0..<?m})"
    using distinct_card [OF d] by (simp add: xs card_image nat_power_eq)
  then show ?thesis using d card_subset_eq [OF _ sub] by simp
qed

theorem LCG_full_period_witness:
  "\<exists>l k'. NewLCG example_draws 0 (2 ^ 2) = Some (l, k') \<and> distinct (nexts (2 ^ 2) l) \<and> set (nexts (2 ^ 2) l) = Some ` {0..<2 ^ 2}"
proof -
  have "NewLCG example_draws 0 (2 ^ 2) \<noteq> None"
    unfolding NewLCG_def by (subst NewLCG_from.simps) (simp add: example_draws_def checkHullDobell_def)
  then obtain l k' where "NewLCG example_draws 0 (2 ^ 2) = Some (l, k')" by auto
  then show ?thesis using LCG_full_period [of example_draws 0 2 l k'] by auto
qed

text \<open>For a range of two addresses the conditions do not suffice.\<close>

lemma LCG_two:
  "checkHullDobell 2 0 1 \<and> nexts 3 \<lparr>modulus = 2, multiplier = 0, increment = 1, current = 0\<rparr> = [Some 1, Some 1, Some 1]"
  by (simp add: checkHullDobell_def and_three Next_def numeral_3_eq_3)

text \<open>The end of the sequence is never reported.\<close>

lemma Next_never_ends: "0 < modulus l \<Longrightarrow> current l < modulus l \<Longrightarrow> fst (Next l) \<noteq> None \<and> current (snd (Next l)) < modulus (snd (Next l))"
  by (auto simp: Next_def Let_def)

text \<open>A random address of a prefix lies in the prefix.\<close>

lemma RandomIP_in_prefix:
  assumes "prefix_ok p" "scannable (Masked p)" "pBits (Masked p) = pBits p" "0 \<le> v (2 ^ host_bits (Masked p))" "v (2 ^ host_bits (Masked p)) < 2 ^ host_bits (Masked p)"
    "\<not> Is4In6 (pAddr (Masked p))"
  shows "\<exists>ip. RandomIPFromPrefix v p = Some (Inr ip) \<and> Contains_addr (Masked p) ip"
proof -
  let ?n = "nat (v (2 ^ host_bits (Masked p)))"
  have n: "?n < 2 ^ host_bits (Masked p)" "v (2 ^ host_bits (Masked p)) = int ?n" using assms(4,5) by (auto simp: nat_less_iff)
  have "addIP (pAddr (Masked p)) (int ?n) = Some (offset_addr (pAddr (Masked p)) ?n)" by (rule addIP_offset [OF scannable_fits [OF assms(2)] n(1)])
  then show ?thesis using Contains_offset [OF assms(2) n(1)] assms(3,6) n(2) by (auto simp: RandomIPFromPrefix_def Let_def host_bits_def)
qed

end
