(* ===== verification/Spec2Isabelle.thy ===== *)
theory Spec2Isabelle
  imports Replay Ratelimiter Tai64n AllowedIPs IndexTable Noise_Base Cookie Device_State Noise
    Peer_Timers Peers Send Send_Lemmas Receive Device_Ops Go_Strings
    Transport Receive_Safety Uapi Uapi_Lemmas Device_Inv Life_Cycle Device_Steps
    Checksum Go_Slices Offload Segmentation Segment_Lemmas Go_Text Go_Netip Bind_Std Bind_Lemmas Bind_Receive Ip_Queue Scan_Engine Scan_Lemmas Ip_Iterator Iterator_Lemmas
begin

text \<open>Root of the development.\<close>

end
